(* ===== verification/CPrelude.thy ===== *)
theory CPrelude
  imports Main
begin

text \<open>
  Shared vocabulary of the models: how a C computation can stop without returning, the
  sequencing of computations that can stop, addresses, and the list facts several components
  use.

  A C function that can dereference a bad pointer, index out of an array, wait for ever or call
  \<open>exit\<close> is modelled by a function into the sum type \<open>stop + 'a\<close>: \<open>Inl\<close> names the way it
  stopped, \<open>Inr\<close> carries the returned value (and the updated state).  \<open>malloc\<close> is assumed to
  succeed and to return an address that was never returned before; \<open>free\<close> makes the address
  invalid, so that a later access through it is \<open>Inl (BadAddr p)\<close>.
\<close>

section \<open>Outcomes\<close>

datatype stop =
    BadAddr nat       \<comment> \<open>access through NULL, a freed or a never allocated address\<close>
  | OutOfRange nat    \<comment> \<open>array index outside the array\<close>
  | Blocked           \<comment> \<open>waits for a condition nobody else will make true\<close>
  | Exited int        \<comment> \<open>the code calls exit with this status\<close>
  | NoFuel            \<comment> \<open>the bound put on a loop of the model was too small\<close>

type_synonym 'a res = "stop + 'a"

fun bindr :: "'a res \<Rightarrow> ('a \<Rightarrow> 'b res) \<Rightarrow> 'b res" where
  "bindr (Inl e) k = Inl e"
| "bindr (Inr x) k = k x"

lemma bindr_cong [fundef_cong]:
  "m = m' \<Longrightarrow> (\<And>x. m' = Inr x \<Longrightarrow> k x = k' x) \<Longrightarrow> bindr m k = bindr m' k'"
  by (cases m') auto

lemma bindr_Inr_iff: "bindr m k = Inr y \<longleftrightarrow> (\<exists>x. m = Inr x \<and> k x = Inr y)"
  by (cases m) auto

lemma bindr_InrE [elim]:
  assumes "bindr m k = Inr y"
  obtains x where "m = Inr x" and "k x = Inr y"
  using assms by (auto simp: bindr_Inr_iff)

lemma bindr_assoc: "bindr (bindr m f) g = bindr m (\<lambda>x. bindr (f x) g)"
  by (cases m) auto

section \<open>Arrays\<close>

text \<open>Reading and writing an element of an array: an index outside it stops the computation.\<close>

definition le_pos :: "'a list \<Rightarrow> nat \<Rightarrow> 'a res" where
  "le_pos xs i = (if i < length xs then Inr (xs ! i) else Inl (OutOfRange i))"

definition poe_pos :: "'a list \<Rightarrow> nat \<Rightarrow> 'a \<Rightarrow> 'a list res" where
  "poe_pos xs i x = (if i < length xs then Inr (xs[i := x]) else Inl (OutOfRange i))"

lemma le_pos_ok [simp]: "i < length xs \<Longrightarrow> le_pos xs i = Inr (xs ! i)"
  by (simp add: le_pos_def)

lemma poe_pos_ok [simp]: "i < length xs \<Longrightarrow> poe_pos xs i x = Inr (xs[i := x])"
  by (simp add: poe_pos_def)

section \<open>Addresses\<close>

type_synonym addr = nat

text \<open>The null pointer; no allocation returns it.\<close>

definition NULL :: addr where
  "NULL = 0"

section \<open>Shared list facts\<close>

named_theorems list_facts

lemma distinct_app_notin [list_facts]:
  "distinct (xs @ x # ys) \<Longrightarrow> x \<notin> set xs \<and> x \<notin> set ys"
  by simp

lemma split_at_unique:
  "xs @ x # ys = xs' @ x # ys' \<Longrightarrow> distinct (xs @ x # ys) \<Longrightarrow> xs = xs' \<and> ys = ys'"
proof (induction xs arbitrary: xs')
  case Nil
  then show ?case by (cases xs') auto
next
  case (Cons a xs)
  then show ?case by (cases xs') auto
qed

end
