(* ===== verification/RedBlack.thy ===== *)
theory RedBlack
  imports CPrelude
begin

text \<open>
  The red-black tree of sthread_lib/redblack.c, at the level of its pointers.  A tree owns the
  cells of its nodes (\<open>cells\<close>, a partial function from addresses), its two sentinels \<open>raiz\<close>
  (whose left child is the real root) and \<open>nil\<close>, and the cached pointer \<open>minimo\<close>.  Every
  assignment of the C code is one update of a cell, in the order of the code.
\<close>

section \<open>Nodes and trees\<close>

datatype cor_t = black | red

text \<open>struct NoRB; \<open>elem\<close> is the address of the thread structure.\<close>

record no_rb =
  chave :: int
  elem :: addr
  tid :: int
  cor :: cor_t
  pai :: addr
  esq :: addr
  dir :: addr

text \<open>
  struct ArvoreRB_t, with the memory of its nodes.  \<open>prox\<close> is the next address \<open>malloc\<close>
  returns; \<open>libertados\<close> lists the thread structures the tree code has handed to \<open>free\<close>.
\<close>

record arvore_rb =
  raiz :: addr
  nil :: addr
  minimo :: addr
  cells :: "addr \<Rightarrow> no_rb option"
  prox :: addr
  libertados :: "addr list"

definition deref :: "arvore_rb \<Rightarrow> addr \<Rightarrow> no_rb res" where
  "deref t p = (case cells t p of None \<Rightarrow> Inl (BadAddr p) | Some n \<Rightarrow> Inr n)"

definition rd :: "(no_rb \<Rightarrow> 'a) \<Rightarrow> arvore_rb \<Rightarrow> addr \<Rightarrow> 'a res" where
  "rd f t p = bindr (deref t p) (\<lambda>n. Inr (f n))"

definition wr :: "(no_rb \<Rightarrow> no_rb) \<Rightarrow> arvore_rb \<Rightarrow> addr \<Rightarrow> arvore_rb res" where
  "wr g t p = bindr (deref t p) (\<lambda>n. Inr (t\<lparr>cells := (cells t)(p \<mapsto> g n)\<rparr>))"

definition wr_pai :: "arvore_rb \<Rightarrow> addr \<Rightarrow> addr \<Rightarrow> arvore_rb res" where
  "wr_pai t p v = wr (pai_update (\<lambda>_. v)) t p"

definition wr_esq :: "arvore_rb \<Rightarrow> addr \<Rightarrow> addr \<Rightarrow> arvore_rb res" where
  "wr_esq t p v = wr (esq_update (\<lambda>_. v)) t p"

definition wr_dir :: "arvore_rb \<Rightarrow> addr \<Rightarrow> addr \<Rightarrow> arvore_rb res" where
  "wr_dir t p v = wr (dir_update (\<lambda>_. v)) t p"

definition wr_cor :: "arvore_rb \<Rightarrow> addr \<Rightarrow> cor_t \<Rightarrow> arvore_rb res" where
  "wr_cor t p v = wr (cor_update (\<lambda>_. v)) t p"

definition wr_elem :: "arvore_rb \<Rightarrow> addr \<Rightarrow> addr \<Rightarrow> arvore_rb res" where
  "wr_elem t p v = wr (elem_update (\<lambda>_. v)) t p"

section \<open>Allocation\<close>

text \<open>
  CriarNo allocates a node.  The check of the colour argument cannot fail with the type
  \<open>cor_t\<close>, and \<open>malloc\<close> is assumed to succeed.
\<close>

definition CriarNo ::
  "arvore_rb \<Rightarrow> int \<Rightarrow> addr \<Rightarrow> int \<Rightarrow> cor_t \<Rightarrow> addr \<Rightarrow> addr \<Rightarrow> addr \<Rightarrow> addr \<times> arvore_rb" where
  "CriarNo t k elemento i c esquerdo direito p =
     (let a = prox t;
          n = \<lparr>chave = k, elem = elemento, tid = i, cor = c, pai = p,
               esq = esquerdo, dir = direito\<rparr>
      in (a, t\<lparr>cells := (cells t)(a \<mapsto> n), prox := a + 1\<rparr>))"

text \<open>DestruirNo frees the node: its cell is gone.\<close>

definition DestruirNo :: "arvore_rb \<Rightarrow> addr \<Rightarrow> arvore_rb res" where
  "DestruirNo t p = bindr (deref t p) (\<lambda>_. Inr (t\<lparr>cells := (cells t)(p := None)\<rparr>))"

text \<open>free(no->elem) of a node: freeing NULL does nothing.\<close>

definition free_elem :: "arvore_rb \<Rightarrow> addr \<Rightarrow> arvore_rb res" where
  "free_elem t p = bindr (rd elem t p) (\<lambda>e.
     Inr (if e = NULL then t else t\<lparr>libertados := e # libertados t\<rparr>))"

definition memoria_vazia :: arvore_rb where
  "memoria_vazia =
     \<lparr>raiz = NULL, nil = NULL, minimo = NULL, cells = Map.empty, prox = 1, libertados = []\<rparr>"

definition RBNovaArvore :: "arvore_rb" where
  "RBNovaArvore =
     (let (nilo, t) = CriarNo memoria_vazia (-1) NULL (-1) black NULL NULL NULL;
          t = t\<lparr>nil := nilo,
                cells := (cells t)(nilo := map_option (\<lambda>n. n\<lparr>pai := nilo, esq := nilo, dir := nilo\<rparr>)
                                            (cells t nilo))\<rparr>;
          (r, t) = CriarNo t (-1) NULL (-1) black nilo nilo nilo
      in t\<lparr>raiz := r, minimo := NULL\<rparr>)"

definition RBRaizArvore :: "arvore_rb \<Rightarrow> addr res" where
  "RBRaizArvore t = rd esq t (raiz t)"

section \<open>Rotations\<close>

definition RodarEsquerda :: "arvore_rb \<Rightarrow> addr \<Rightarrow> arvore_rb res" where
  "RodarEsquerda t x =
     bindr (rd dir t x) (\<lambda>y.
     bindr (rd esq t y) (\<lambda>b.
     bindr (wr_dir t x b) (\<lambda>t.
     bindr (rd esq t y) (\<lambda>b.
     bindr (if b \<noteq> nil t then wr_pai t b x else Inr t) (\<lambda>t.
     bindr (rd pai t x) (\<lambda>p.
     bindr (wr_pai t y p) (\<lambda>t.
     bindr (rd pai t x) (\<lambda>p.
     bindr (rd esq t p) (\<lambda>e.
     bindr (if x = e then wr_esq t p y else wr_dir t p y) (\<lambda>t.
     bindr (wr_esq t y x) (\<lambda>t.
     wr_pai t x y)))))))))))"

definition RodarDireita :: "arvore_rb \<Rightarrow> addr \<Rightarrow> arvore_rb res" where
  "RodarDireita t y =
     bindr (rd esq t y) (\<lambda>x.
     bindr (rd dir t x) (\<lambda>b.
     bindr (wr_esq t y b) (\<lambda>t.
     bindr (rd dir t x) (\<lambda>b.
     bindr (if nil t \<noteq> b then wr_pai t b y else Inr t) (\<lambda>t.
     bindr (rd pai t y) (\<lambda>p.
     bindr (wr_pai t x p) (\<lambda>t.
     bindr (rd pai t y) (\<lambda>p.
     bindr (rd esq t p) (\<lambda>e.
     bindr (if y = e then wr_esq t p x else wr_dir t p x) (\<lambda>t.
     bindr (wr_dir t x y) (\<lambda>t.
     wr_pai t y x)))))))))))"

section \<open>Insertion\<close>

definition comparar :: "int \<Rightarrow> int \<Rightarrow> int" where
  "comparar a b = (if a > b \<or> a = -1 then 1 else if a = b then 0 else -1)"

text \<open>The descent of InserirNoAux: the last node before \<open>nil\<close>.  One unit of fuel per level.\<close>

fun desce :: "nat \<Rightarrow> arvore_rb \<Rightarrow> int \<Rightarrow> addr \<Rightarrow> addr \<Rightarrow> addr res" where
  "desce 0 t k y x = Inl NoFuel"
| "desce (Suc f) t k y x =
     (if x \<noteq> nil t then
        bindr (rd chave t x) (\<lambda>kx.
        if comparar kx k = 1 then bindr (rd esq t x) (\<lambda>x'. desce f t k x x')
        else bindr (rd dir t x) (\<lambda>x'. desce f t k x x'))
      else Inr y)"

definition InserirNoAux :: "arvore_rb \<Rightarrow> addr \<Rightarrow> arvore_rb res" where
  "InserirNoAux t z =
     bindr (wr_dir t z (nil t)) (\<lambda>t.
     bindr (wr_esq t z (nil t)) (\<lambda>t.
     bindr (rd chave t z) (\<lambda>k.
     bindr (rd esq t (raiz t)) (\<lambda>x.
     bindr (desce (prox t) t k (raiz t) x) (\<lambda>y.
     bindr (wr_pai t z y) (\<lambda>t.
     bindr (rd chave t y) (\<lambda>ky.
     if y = raiz t \<or> comparar ky k = 1 then wr_esq t y z else wr_dir t y z)))))))"

text \<open>The loop of RBInserirNo that restores the colours, from node \<open>x\<close> upwards.\<close>

fun insere_reparar :: "nat \<Rightarrow> arvore_rb \<Rightarrow> addr \<Rightarrow> arvore_rb res" where
  "insere_reparar 0 t x = Inl NoFuel"
| "insere_reparar (Suc f) t x =
     bindr (rd pai t x) (\<lambda>p.
     bindr (rd cor t p) (\<lambda>cp.
     if cp = red then
       bindr (rd pai t p) (\<lambda>g.
       bindr (rd esq t g) (\<lambda>e.
       if p = e then
         bindr (rd dir t g) (\<lambda>y.
         bindr (rd cor t y) (\<lambda>cy.
         if cy = red then
           bindr (wr_cor t p black) (\<lambda>t.
           bindr (wr_cor t y black) (\<lambda>t.
           bindr (wr_cor t g red) (\<lambda>t.
           insere_reparar f t g)))
         else
           bindr (rd dir t p) (\<lambda>d.
           bindr (if x = d then bindr (RodarEsquerda t p) (\<lambda>t. Inr (p, t)) else Inr (x, t)) (\<lambda>(x, t).
           bindr (rd pai t x) (\<lambda>p.
           bindr (wr_cor t p black) (\<lambda>t.
           bindr (rd pai t p) (\<lambda>g.
           bindr (wr_cor t g red) (\<lambda>t.
           bindr (RodarDireita t g) (\<lambda>t.
           insere_reparar f t x)))))))))
       else
         bindr (rd esq t g) (\<lambda>y.
         bindr (rd cor t y) (\<lambda>cy.
         if cy = red then
           bindr (wr_cor t p black) (\<lambda>t.
           bindr (wr_cor t y black) (\<lambda>t.
           bindr (wr_cor t g red) (\<lambda>t.
           insere_reparar f t g)))
         else
           bindr (rd esq t p) (\<lambda>d.
           bindr (if x = d then bindr (RodarDireita t p) (\<lambda>t. Inr (p, t)) else Inr (x, t)) (\<lambda>(x, t).
           bindr (rd pai t x) (\<lambda>p.
           bindr (wr_cor t p black) (\<lambda>t.
           bindr (rd pai t p) (\<lambda>g.
           bindr (wr_cor t g red) (\<lambda>t.
           bindr (RodarEsquerda t g) (\<lambda>t.
           insere_reparar f t x)))))))))))
     else Inr t))"

text \<open>
  RBInserirNo.  The loop guard reads \<open>x->pai->cor\<close> again in every round; \<open>prox t\<close>
  bounds the number of nodes, hence the number of rounds.
\<close>

definition RBInserirNo :: "arvore_rb \<Rightarrow> int \<Rightarrow> int \<Rightarrow> addr \<Rightarrow> arvore_rb res" where
  "RBInserirNo t k i elemento =
     (let (x, t) = CriarNo t k elemento i red NULL NULL NULL;
          novoNo = x
      in bindr (InserirNoAux t x) (\<lambda>t.
         bindr (insere_reparar (prox t) t x) (\<lambda>t.
         bindr (rd esq t (raiz t)) (\<lambda>r.
         bindr (wr_cor t r black) (\<lambda>t.
         if minimo t = NULL then Inr (t\<lparr>minimo := novoNo\<rparr>)
         else
           bindr (rd chave t (minimo t)) (\<lambda>km.
           bindr (rd chave t novoNo) (\<lambda>kn.
           if comparar km kn = 1 then Inr (t\<lparr>minimo := novoNo\<rparr>) else Inr t)))))))"

section \<open>Successor and predecessor\<close>

fun desce_esq :: "nat \<Rightarrow> arvore_rb \<Rightarrow> addr \<Rightarrow> addr res" where
  "desce_esq 0 t y = Inl NoFuel"
| "desce_esq (Suc f) t y =
     bindr (rd esq t y) (\<lambda>e. if e \<noteq> nil t then desce_esq f t e else Inr y)"

fun desce_dir :: "nat \<Rightarrow> arvore_rb \<Rightarrow> addr \<Rightarrow> addr res" where
  "desce_dir 0 t y = Inl NoFuel"
| "desce_dir (Suc f) t y =
     bindr (rd dir t y) (\<lambda>d. if d \<noteq> nil t then desce_dir f t d else Inr y)"

fun sobe_dir :: "nat \<Rightarrow> arvore_rb \<Rightarrow> addr \<Rightarrow> addr \<Rightarrow> addr res" where
  "sobe_dir 0 t x y = Inl NoFuel"
| "sobe_dir (Suc f) t x y =
     bindr (rd dir t y) (\<lambda>d.
     if x = d then bindr (rd pai t y) (\<lambda>y'. sobe_dir f t y y') else Inr y)"

fun sobe_esq :: "nat \<Rightarrow> arvore_rb \<Rightarrow> addr \<Rightarrow> addr \<Rightarrow> addr res" where
  "sobe_esq 0 t x y = Inl NoFuel"
| "sobe_esq (Suc f) t x y =
     bindr (rd esq t y) (\<lambda>e.
     if x = e then
       (if y = raiz t then Inr (nil t)
        else bindr (rd pai t y) (\<lambda>y'. sobe_esq f t y y'))
     else Inr y)"

definition Sucessor :: "arvore_rb \<Rightarrow> addr \<Rightarrow> addr res" where
  "Sucessor t x =
     bindr (rd dir t x) (\<lambda>y.
     if nil t \<noteq> y then desce_esq (prox t) t y
     else
       bindr (rd pai t x) (\<lambda>y.
       bindr (sobe_dir (prox t) t x y) (\<lambda>y.
       if y = raiz t then Inr (nil t) else Inr y)))"

definition Predecessor :: "arvore_rb \<Rightarrow> addr \<Rightarrow> addr res" where
  "Predecessor t x =
     bindr (rd esq t x) (\<lambda>y.
     if nil t \<noteq> y then desce_dir (prox t) t y
     else bindr (rd pai t x) (\<lambda>y. sobe_esq (prox t) t x y))"

section \<open>Deletion\<close>

text \<open>
  RepararEliminado.  \<open>r\<close> is the local variable \<open>raiz\<close> of the C function: the root when the
  function was entered, not read again after rotations; the last two branches leave the loop
  by assigning it to \<open>x\<close>.
\<close>

fun elimina_reparar :: "nat \<Rightarrow> arvore_rb \<Rightarrow> addr \<Rightarrow> addr \<Rightarrow> (addr \<times> arvore_rb) res" where
  "elimina_reparar 0 t r x = Inl NoFuel"
| "elimina_reparar (Suc f) t r x =
     bindr (rd cor t x) (\<lambda>cx.
     if cx = black \<and> r \<noteq> x then
       bindr (rd pai t x) (\<lambda>p.
       bindr (rd esq t p) (\<lambda>e.
       if x = e then
         bindr (rd dir t p) (\<lambda>w.
         bindr (rd cor t w) (\<lambda>cw.
         bindr (if cw = red then
                  bindr (wr_cor t w black) (\<lambda>t.
                  bindr (rd pai t x) (\<lambda>p.
                  bindr (wr_cor t p red) (\<lambda>t.
                  bindr (RodarEsquerda t p) (\<lambda>t.
                  bindr (rd pai t x) (\<lambda>p.
                  bindr (rd dir t p) (\<lambda>w. Inr (w, t)))))))
                else Inr (w, t)) (\<lambda>(w, t).
         bindr (rd dir t w) (\<lambda>wd.
         bindr (rd cor t wd) (\<lambda>cwd.
         bindr (rd esq t w) (\<lambda>we.
         bindr (rd cor t we) (\<lambda>cwe.
         if cwd = black \<and> cwe = black then
           bindr (wr_cor t w red) (\<lambda>t.
           bindr (rd pai t x) (\<lambda>p.
           elimina_reparar f t r p))
         else
           bindr (if cwd = black then
                    bindr (wr_cor t we black) (\<lambda>t.
                    bindr (wr_cor t w red) (\<lambda>t.
                    bindr (RodarDireita t w) (\<lambda>t.
                    bindr (rd pai t x) (\<lambda>p.
                    bindr (rd dir t p) (\<lambda>w. Inr (w, t))))))
                  else Inr (w, t)) (\<lambda>(w, t).
           bindr (rd pai t x) (\<lambda>p.
           bindr (rd cor t p) (\<lambda>cp.
           bindr (wr_cor t w cp) (\<lambda>t.
           bindr (wr_cor t p black) (\<lambda>t.
           bindr (rd dir t w) (\<lambda>wd.
           bindr (wr_cor t wd black) (\<lambda>t.
           bindr (RodarEsquerda t p) (\<lambda>t.
           elimina_reparar f t r r)))))))))))))))
       else
         bindr (rd esq t p) (\<lambda>w.
         bindr (rd cor t w) (\<lambda>cw.
         bindr (if cw = red then
                  bindr (wr_cor t w black) (\<lambda>t.
                  bindr (rd pai t x) (\<lambda>p.
                  bindr (wr_cor t p red) (\<lambda>t.
                  bindr (RodarDireita t p) (\<lambda>t.
                  bindr (rd pai t x) (\<lambda>p.
                  bindr (rd esq t p) (\<lambda>w. Inr (w, t)))))))
                else Inr (w, t)) (\<lambda>(w, t).
         bindr (rd dir t w) (\<lambda>wd.
         bindr (rd cor t wd) (\<lambda>cwd.
         bindr (rd esq t w) (\<lambda>we.
         bindr (rd cor t we) (\<lambda>cwe.
         if cwd = black \<and> cwe = black then
           bindr (wr_cor t w red) (\<lambda>t.
           bindr (rd pai t x) (\<lambda>p.
           elimina_reparar f t r p))
         else
           bindr (if cwe = black then
                    bindr (wr_cor t wd black) (\<lambda>t.
                    bindr (wr_cor t w red) (\<lambda>t.
                    bindr (RodarEsquerda t w) (\<lambda>t.
                    bindr (rd pai t x) (\<lambda>p.
                    bindr (rd esq t p) (\<lambda>w. Inr (w, t))))))
                  else Inr (w, t)) (\<lambda>(w, t).
           bindr (rd pai t x) (\<lambda>p.
           bindr (rd cor t p) (\<lambda>cp.
           bindr (wr_cor t w cp) (\<lambda>t.
           bindr (wr_cor t p black) (\<lambda>t.
           bindr (rd esq t w) (\<lambda>we.
           bindr (wr_cor t we black) (\<lambda>t.
           bindr (RodarDireita t p) (\<lambda>t.
           elimina_reparar f t r r)))))))))))))))))
     else Inr (x, t))"

definition RepararEliminado :: "arvore_rb \<Rightarrow> addr \<Rightarrow> arvore_rb res" where
  "RepararEliminado t x =
     bindr (rd esq t (raiz t)) (\<lambda>r.
     bindr (elimina_reparar (Suc (prox t)) t r x) (\<lambda>(x, t).
     wr_cor t x black))"

text \<open>The update of \<open>minimo\<close> when node \<open>z\<close> is about to be freed.\<close>

definition actualiza_minimo :: "arvore_rb \<Rightarrow> addr \<Rightarrow> arvore_rb res" where
  "actualiza_minimo t z =
     (if minimo t = z then
        bindr (rd dir t z) (\<lambda>d.
        if d \<noteq> nil t then Inr (t\<lparr>minimo := d\<rparr>)
        else bindr (rd pai t z) (\<lambda>p. Inr (t\<lparr>minimo := p\<rparr>)))
      else Inr t)"

text \<open>RBRemoverNo up to the point where node \<open>y\<close> is spliced out: returns \<open>y\<close> and its child \<open>x\<close>.\<close>

definition desliga_no :: "arvore_rb \<Rightarrow> addr \<Rightarrow> (addr \<times> addr \<times> arvore_rb) res" where
  "desliga_no t z =
     bindr (rd esq t z) (\<lambda>ze.
     bindr (rd dir t z) (\<lambda>zd.
     bindr (if ze = nil t \<or> zd = nil t then Inr z else Sucessor t z) (\<lambda>y.
     bindr (rd esq t y) (\<lambda>ye.
     bindr (if ye = nil t then rd dir t y else Inr ye) (\<lambda>x.
     bindr (rd pai t y) (\<lambda>p.
     bindr (wr_pai t x p) (\<lambda>t.
     bindr (if raiz t = p then wr_esq t (raiz t) x
            else
              bindr (rd esq t p) (\<lambda>e.
              if y = e then wr_esq t p x else wr_dir t p x)) (\<lambda>t.
     Inr (y, x, t)))))))))"

text \<open>The links of \<open>z\<close> are taken over by \<open>y\<close>.\<close>

definition troca_no :: "arvore_rb \<Rightarrow> addr \<Rightarrow> addr \<Rightarrow> arvore_rb res" where
  "troca_no t z y =
     bindr (rd esq t z) (\<lambda>v. bindr (wr_esq t y v) (\<lambda>t.
     bindr (rd dir t z) (\<lambda>v. bindr (wr_dir t y v) (\<lambda>t.
     bindr (rd pai t z) (\<lambda>v. bindr (wr_pai t y v) (\<lambda>t.
     bindr (rd cor t z) (\<lambda>v. bindr (wr_cor t y v) (\<lambda>t.
     bindr (rd dir t z) (\<lambda>d. bindr (wr_pai t d y) (\<lambda>t.
     bindr (rd esq t z) (\<lambda>e. bindr (wr_pai t e y) (\<lambda>t.
     bindr (rd pai t z) (\<lambda>p.
     bindr (rd esq t p) (\<lambda>e.
     if z = e then wr_esq t p y else wr_dir t p y))))))))))))))"

definition RBRemoverNo :: "arvore_rb \<Rightarrow> addr \<Rightarrow> arvore_rb res" where
  "RBRemoverNo t z =
     bindr (desliga_no t z) (\<lambda>(y, x, t).
     if y \<noteq> z then
       bindr (rd cor t y) (\<lambda>cy.
       bindr (if cy = black then RepararEliminado t x else Inr t) (\<lambda>t.
       bindr (free_elem t z) (\<lambda>t.
       bindr (troca_no t z y) (\<lambda>t.
       bindr (actualiza_minimo t z) (\<lambda>t.
       DestruirNo t z)))))
     else
       bindr (free_elem t y) (\<lambda>t.
       bindr (rd cor t y) (\<lambda>cy.
       bindr (if cy = black then RepararEliminado t x else Inr t) (\<lambda>t.
       bindr (actualiza_minimo t y) (\<lambda>t.
       DestruirNo t y)))))"

section \<open>Destruction of a tree\<close>

text \<open>
  DestroiArvoreAux frees the nodes in postorder; the children of a node are read before it is
  freed, as its two recursive calls come first.
\<close>

fun DestroiArvoreAux :: "nat \<Rightarrow> arvore_rb \<Rightarrow> addr \<Rightarrow> arvore_rb res" where
  "DestroiArvoreAux 0 t x = Inl NoFuel"
| "DestroiArvoreAux (Suc f) t x =
     (if x \<noteq> nil t then
        bindr (rd esq t x) (\<lambda>e.
        bindr (DestroiArvoreAux f t e) (\<lambda>t.
        bindr (rd dir t x) (\<lambda>d.
        bindr (DestroiArvoreAux f t d) (\<lambda>t.
        DestruirNo t x))))
      else Inr t)"

definition RBarvoreDestroy :: "arvore_rb \<Rightarrow> arvore_rb res" where
  "RBarvoreDestroy t =
     bindr (rd esq t (raiz t)) (\<lambda>r.
     bindr (DestroiArvoreAux (prox t) t r) (\<lambda>t.
     bindr (DestruirNo t (raiz t)) (\<lambda>t.
     DestruirNo t (nil t))))"

section \<open>Search and access\<close>

fun pesquisa_desce :: "nat \<Rightarrow> arvore_rb \<Rightarrow> int \<Rightarrow> addr \<Rightarrow> addr res" where
  "pesquisa_desce 0 t q x = Inl NoFuel"
| "pesquisa_desce (Suc f) t q x =
     bindr (rd chave t x) (\<lambda>k.
     if comparar k q \<noteq> 0 then
       bindr (if comparar k q = 1 then rd esq t x else rd dir t x) (\<lambda>x.
       if x = nil t then Inr NULL else pesquisa_desce f t q x)
     else Inr x)"

definition PesquisaRB :: "arvore_rb \<Rightarrow> int \<Rightarrow> addr res" where
  "PesquisaRB t q =
     bindr (rd esq t (raiz t)) (\<lambda>x.
     if x = nil t then Inr NULL else pesquisa_desce (prox t) t q x)"

definition RBChaveNo :: "arvore_rb \<Rightarrow> addr \<Rightarrow> int res" where
  "RBChaveNo t n = rd chave t n"

definition RBConteudoNo :: "arvore_rb \<Rightarrow> addr \<Rightarrow> addr res" where
  "RBConteudoNo t n = rd elem t n"

definition RBMinimoArvore :: "arvore_rb \<Rightarrow> addr" where
  "RBMinimoArvore t = minimo t"

definition RBArvoreVazia :: "arvore_rb \<Rightarrow> bool res" where
  "RBArvoreVazia t = bindr (rd esq t (raiz t)) (\<lambda>r. Inr (r = nil t))"

definition RBExtraiMininimo :: "arvore_rb \<Rightarrow> (addr \<times> arvore_rb) res" where
  "RBExtraiMininimo t =
     (let m = RBMinimoArvore t
      in if m \<noteq> NULL then
           bindr (rd elem t m) (\<lambda>thread.
           bindr (wr_elem t m NULL) (\<lambda>t.
           bindr (RBRemoverNo t m) (\<lambda>t.
           Inr (thread, t))))
         else Inr (NULL, t))"

fun RBSearchTIDAUX :: "nat \<Rightarrow> arvore_rb \<Rightarrow> addr \<Rightarrow> int \<Rightarrow> bool res" where
  "RBSearchTIDAUX 0 t no i = Inl NoFuel"
| "RBSearchTIDAUX (Suc f) t no i =
     (if no = NULL \<or> no = nil t then Inr False
      else
        bindr (rd tid t no) (\<lambda>k.
        if k = i then Inr True
        else
          bindr (rd esq t no) (\<lambda>e.
          bindr (RBSearchTIDAUX f t e i) (\<lambda>b.
          if b then Inr True
          else bindr (rd dir t no) (\<lambda>d. RBSearchTIDAUX f t d i)))))"

definition RBSearchTID :: "arvore_rb \<Rightarrow> int \<Rightarrow> bool res" where
  "RBSearchTID t i = bindr (rd esq t (raiz t)) (\<lambda>r. RBSearchTIDAUX (prox t) t r i)"

definition RBMenorChave :: "arvore_rb \<Rightarrow> int res" where
  "RBMenorChave t =
     (let m = RBMinimoArvore t in if m = NULL then Inr 0 else rd chave t m)"

text \<open>
  RBAlterarChave reads \<open>no->tid\<close> after RBRemoverNo has freed \<open>no\<close>: the read goes through
  \<open>rd\<close> on the updated tree, as in the code.
\<close>

definition RBAlterarChave :: "arvore_rb \<Rightarrow> addr \<Rightarrow> int \<Rightarrow> arvore_rb res" where
  "RBAlterarChave t no novaChave =
     bindr (rd elem t no) (\<lambda>elemento.
     bindr (wr_elem t no NULL) (\<lambda>t.
     bindr (RBRemoverNo t no) (\<lambda>t.
     bindr (rd tid t no) (\<lambda>i.
     RBInserirNo t novaChave i elemento))))"

end
