(* ===== verification/RedBlackRep.thy ===== *)
theory RedBlackRep
  imports RedBlack
begin

text \<open>
  What a red-black tree in memory represents.  \<open>rep t s\<close> says that the cells of \<open>t\<close> form the
  tree of addresses \<open>s\<close> below the sentinel \<open>raiz\<close>, with parent pointers and with \<open>nil\<close> in the
  place of missing children.  A position inside the tree is a list of frames (\<open>quadro\<close>), from
  the position up to the root, so that an operation on a node is described by the subtree it
  changes and a context it leaves alone (\<open>rep_plug\<close>).  The rotations of the C code are then
  one lemma each: they change the shape, and neither the inorder sequence nor the data.
\<close>

section \<open>Fields as functions\<close>

definition vivos :: "arvore_rb \<Rightarrow> addr set" where
  "vivos t = dom (cells t)"

definition chave_de :: "arvore_rb \<Rightarrow> addr \<Rightarrow> int" where
  "chave_de t a = chave (the (cells t a))"

definition elem_de :: "arvore_rb \<Rightarrow> addr \<Rightarrow> addr" where
  "elem_de t a = elem (the (cells t a))"

definition tid_de :: "arvore_rb \<Rightarrow> addr \<Rightarrow> int" where
  "tid_de t a = tid (the (cells t a))"

definition cor_de :: "arvore_rb \<Rightarrow> addr \<Rightarrow> cor_t" where
  "cor_de t a = cor (the (cells t a))"

definition pai_de :: "arvore_rb \<Rightarrow> addr \<Rightarrow> addr" where
  "pai_de t a = pai (the (cells t a))"

definition esq_de :: "arvore_rb \<Rightarrow> addr \<Rightarrow> addr" where
  "esq_de t a = esq (the (cells t a))"

definition dir_de :: "arvore_rb \<Rightarrow> addr \<Rightarrow> addr" where
  "dir_de t a = dir (the (cells t a))"

definition poe :: "(no_rb \<Rightarrow> no_rb) \<Rightarrow> arvore_rb \<Rightarrow> addr \<Rightarrow> arvore_rb" where
  "poe g t a = t\<lparr>cells := (cells t)(a \<mapsto> g (the (cells t a)))\<rparr>"

abbreviation poe_pai :: "arvore_rb \<Rightarrow> addr \<Rightarrow> addr \<Rightarrow> arvore_rb" where
  "poe_pai t a v \<equiv> poe (pai_update (\<lambda>_. v)) t a"

abbreviation poe_esq :: "arvore_rb \<Rightarrow> addr \<Rightarrow> addr \<Rightarrow> arvore_rb" where
  "poe_esq t a v \<equiv> poe (esq_update (\<lambda>_. v)) t a"

abbreviation poe_dir :: "arvore_rb \<Rightarrow> addr \<Rightarrow> addr \<Rightarrow> arvore_rb" where
  "poe_dir t a v \<equiv> poe (dir_update (\<lambda>_. v)) t a"

abbreviation poe_cor :: "arvore_rb \<Rightarrow> addr \<Rightarrow> cor_t \<Rightarrow> arvore_rb" where
  "poe_cor t a v \<equiv> poe (cor_update (\<lambda>_. v)) t a"

abbreviation poe_elem :: "arvore_rb \<Rightarrow> addr \<Rightarrow> addr \<Rightarrow> arvore_rb" where
  "poe_elem t a v \<equiv> poe (elem_update (\<lambda>_. v)) t a"

named_theorems campos

lemma poe_tree [campos]:
  "raiz (poe g t a) = raiz t" "nil (poe g t a) = nil t" "minimo (poe g t a) = minimo t"
  "prox (poe g t a) = prox t" "libertados (poe g t a) = libertados t"
  "vivos (poe g t a) = insert a (vivos t)"
  "cells (poe g t a) = (cells t)(a \<mapsto> g (the (cells t a)))"
  by (auto simp: poe_def vivos_def)

lemma poe_campos [campos]:
  "chave_de (poe g t a) = (chave_de t)(a := chave (g (the (cells t a))))"
  "elem_de (poe g t a) = (elem_de t)(a := elem (g (the (cells t a))))"
  "tid_de (poe g t a) = (tid_de t)(a := tid (g (the (cells t a))))"
  "cor_de (poe g t a) = (cor_de t)(a := cor (g (the (cells t a))))"
  "pai_de (poe g t a) = (pai_de t)(a := pai (g (the (cells t a))))"
  "esq_de (poe g t a) = (esq_de t)(a := esq (g (the (cells t a))))"
  "dir_de (poe g t a) = (dir_de t)(a := dir (g (the (cells t a))))"
  by (auto simp: poe_def chave_de_def elem_de_def tid_de_def cor_de_def pai_de_def esq_de_def
      dir_de_def fun_eq_iff)

lemma campo_dobra [campos]:
  "chave (the (cells t a)) = chave_de t a" "elem (the (cells t a)) = elem_de t a"
  "tid (the (cells t a)) = tid_de t a" "cor (the (cells t a)) = cor_de t a"
  "pai (the (cells t a)) = pai_de t a" "esq (the (cells t a)) = esq_de t a"
  "dir (the (cells t a)) = dir_de t a"
  by (simp_all add: chave_de_def elem_de_def tid_de_def cor_de_def pai_de_def esq_de_def dir_de_def)

lemma rd_vivo:
  "a \<in> vivos t \<Longrightarrow> rd f t a = Inr (f (the (cells t a)))"
  by (auto simp: rd_def deref_def vivos_def)

lemma rd_campo [campos]:
  assumes "a \<in> vivos t"
  shows "rd chave t a = Inr (chave_de t a)" "rd elem t a = Inr (elem_de t a)"
    "rd tid t a = Inr (tid_de t a)" "rd cor t a = Inr (cor_de t a)"
    "rd pai t a = Inr (pai_de t a)" "rd esq t a = Inr (esq_de t a)"
    "rd dir t a = Inr (dir_de t a)"
  using assms by (simp_all add: rd_vivo campos)

lemma wr_campo [campos]:
  assumes "a \<in> vivos t"
  shows "wr_pai t a v = Inr (poe_pai t a v)" "wr_esq t a v = Inr (poe_esq t a v)"
    "wr_dir t a v = Inr (poe_dir t a v)" "wr_cor t a c = Inr (poe_cor t a c)"
    "wr_elem t a v = Inr (poe_elem t a v)"
  using assms
  by (auto simp: wr_pai_def wr_esq_def wr_dir_def wr_cor_def wr_elem_def wr_def poe_def deref_def
      vivos_def)

section \<open>Shapes and contexts\<close>

datatype forma = Lf | Nd forma addr forma

datatype quadro = FE addr forma | FD forma addr

fun ends :: "forma \<Rightarrow> addr list" where
  "ends Lf = []"
| "ends (Nd l a r) = ends l @ a # ends r"

fun topo :: "addr \<Rightarrow> forma \<Rightarrow> addr" where
  "topo n Lf = n"
| "topo n (Nd l a r) = a"

fun plug :: "forma \<Rightarrow> quadro list \<Rightarrow> forma" where
  "plug s [] = s"
| "plug s (FE a r # k) = plug (Nd s a r) k"
| "plug s (FD l a # k) = plug (Nd l a s) k"

fun cpai :: "addr \<Rightarrow> quadro list \<Rightarrow> addr" where
  "cpai z [] = z"
| "cpai z (FE a r # k) = a"
| "cpai z (FD l a # k) = a"

fun esqs :: "quadro list \<Rightarrow> addr list" where
  "esqs [] = []"
| "esqs (FE a r # k) = esqs k"
| "esqs (FD l a # k) = esqs k @ ends l @ [a]"

fun dirs :: "quadro list \<Rightarrow> addr list" where
  "dirs [] = []"
| "dirs (FE a r # k) = a # ends r @ dirs k"
| "dirs (FD l a # k) = dirs k"

lemma ends_plug [simp]: "ends (plug s k) = esqs k @ ends s @ dirs k"
  by (induction s k rule: plug.induct) auto

lemma topo_in: "topo n s \<noteq> n \<Longrightarrow> topo n s \<in> set (ends s)"
  by (cases s) auto

lemma topo_notin [simp]: "n \<notin> set (ends s) \<Longrightarrow> topo n s = n \<longleftrightarrow> s = Lf"
  by (cases s) auto

lemma cpai_in: "k \<noteq> [] \<Longrightarrow> cpai z k \<in> set (esqs k) \<union> set (dirs k)"
  by (induction z k rule: cpai.induct) auto

lemma cpai_cases: "cpai z k = z \<or> cpai z k \<in> set (esqs k) \<union> set (dirs k)"
  by (induction z k rule: cpai.induct) auto

fun arv :: "arvore_rb \<Rightarrow> addr \<Rightarrow> forma \<Rightarrow> bool" where
  "arv t p Lf \<longleftrightarrow> True"
| "arv t p (Nd l a r) \<longleftrightarrow>
     a \<in> vivos t \<and> pai_de t a = p \<and> esq_de t a = topo (nil t) l \<and> dir_de t a = topo (nil t) r \<and>
     arv t a l \<and> arv t a r"

fun ctx :: "arvore_rb \<Rightarrow> addr \<Rightarrow> quadro list \<Rightarrow> bool" where
  "ctx t p [] \<longleftrightarrow> raiz t \<in> vivos t \<and> esq_de t (raiz t) = p"
| "ctx t p (FE a r # k) \<longleftrightarrow>
     a \<in> vivos t \<and> pai_de t a = cpai (raiz t) k \<and> esq_de t a = p \<and> dir_de t a = topo (nil t) r \<and>
     arv t a r \<and> ctx t a k"
| "ctx t p (FD l a # k) \<longleftrightarrow>
     a \<in> vivos t \<and> pai_de t a = cpai (raiz t) k \<and> esq_de t a = topo (nil t) l \<and> dir_de t a = p \<and>
     arv t a l \<and> ctx t a k"

lemma arv_plug:
  "(arv t (raiz t) (plug s k) \<and> raiz t \<in> vivos t \<and> esq_de t (raiz t) = topo (nil t) (plug s k)) \<longleftrightarrow>
   arv t (cpai (raiz t) k) s \<and> ctx t (topo (nil t) s) k"
  by (induction s k rule: plug.induct) auto

definition sentinelas :: "arvore_rb \<Rightarrow> bool" where
  "sentinelas t \<longleftrightarrow>
     nil t \<in> vivos t \<and> raiz t \<in> vivos t \<and> nil t \<noteq> raiz t \<and>
     cor_de t (nil t) = black \<and> cor_de t (raiz t) = black \<and>
     esq_de t (nil t) = nil t \<and> dir_de t (nil t) = nil t \<and>
     dir_de t (raiz t) = nil t \<and> pai_de t (raiz t) = nil t \<and>
     chave_de t (nil t) = -1 \<and> chave_de t (raiz t) = -1 \<and>
     elem_de t (nil t) = NULL \<and> elem_de t (raiz t) = NULL \<and>
     (\<forall>a \<in> vivos t. NULL < a \<and> a < prox t)"

definition rep :: "arvore_rb \<Rightarrow> forma \<Rightarrow> bool" where
  "rep t s \<longleftrightarrow>
     sentinelas t \<and> arv t (raiz t) s \<and> esq_de t (raiz t) = topo (nil t) s \<and>
     distinct (nil t # raiz t # ends s)"

lemma rep_plug:
  "rep t (plug s k) \<longleftrightarrow>
     sentinelas t \<and> arv t (cpai (raiz t) k) s \<and> ctx t (topo (nil t) s) k \<and>
     distinct (nil t # raiz t # esqs k @ ends s @ dirs k)"
  using arv_plug[of t s k] by (auto simp: rep_def sentinelas_def)

text \<open>Data (everything but the links) is the same, and the cells outside \<open>A\<close> are untouched.\<close>

definition mesmos :: "addr set \<Rightarrow> arvore_rb \<Rightarrow> arvore_rb \<Rightarrow> bool" where
  "mesmos A t t' \<longleftrightarrow>
     raiz t' = raiz t \<and> nil t' = nil t \<and> minimo t' = minimo t \<and> prox t' = prox t \<and>
     libertados t' = libertados t \<and> vivos t' = vivos t \<and>
     chave_de t' = chave_de t \<and> elem_de t' = elem_de t \<and> tid_de t' = tid_de t \<and>
     (\<forall>a. a \<notin> A \<longrightarrow> cells t' a = cells t a)"

lemma arv_cong:
  assumes "\<And>a. a \<in> set (ends s) \<Longrightarrow>
      pai_de t' a = pai_de t a \<and> esq_de t' a = esq_de t a \<and> dir_de t' a = dir_de t a"
    and "vivos t' = vivos t" "nil t' = nil t"
  shows "arv t' p s = arv t p s"
  using assms by (induction s arbitrary: p) auto

lemma arv_poe [simp]:
  assumes "a \<notin> set (ends s)" "a \<in> vivos t"
  shows "arv (poe g t a) p s = arv t p s"
  using assms by (intro arv_cong) (auto simp: campos)

lemma ctx_poe [simp]:
  assumes "a \<notin> set (esqs k)" "a \<notin> set (dirs k)" "a \<noteq> raiz t" "a \<in> vivos t"
  shows "ctx (poe g t a) p k = ctx t p k"
  using assms by (induction t p k rule: ctx.induct) (auto simp: campos)

lemma arv_filho:
  assumes "arv t p s" "distinct (ends s)" "topo (nil t) s = a" "s \<noteq> Lf"
  shows "arv (poe_pai t a q) q s"
  using assms by (cases s) (auto simp: campos)

lemma arv_poe_cor [simp]: "a \<in> vivos t \<Longrightarrow> arv (poe_cor t a c) p s = arv t p s"
  by (intro arv_cong) (auto simp: campos)

lemma arv_poe_elem [simp]: "a \<in> vivos t \<Longrightarrow> arv (poe_elem t a v) p s = arv t p s"
  by (intro arv_cong) (auto simp: campos)

section \<open>Single-cell operations on a represented tree\<close>

text \<open>
  \<open>aponta t p x y\<close> makes the parent \<open>p\<close> of \<open>x\<close> point to \<open>y\<close> instead, on the side where \<open>x\<close>
  was; \<open>adopta t b x\<close> sets the parent of \<open>b\<close> unless \<open>b\<close> is \<open>nil\<close>.  Both are steps of the rotations
  and of the removal of a node.
\<close>

lemma arv_vivos: "arv t p s \<Longrightarrow> a \<in> set (ends s) \<Longrightarrow> a \<in> vivos t"
  by (induction s arbitrary: p) auto

lemma ctx_vivos: "ctx t p k \<Longrightarrow> a \<in> set (esqs k) \<union> set (dirs k) \<Longrightarrow> a \<in> vivos t"
  by (induction t p k rule: ctx.induct) (auto dest: arv_vivos)

lemma cpai_viva: "ctx t p k \<Longrightarrow> cpai (raiz t) k \<in> vivos t"
  by (induction t p k rule: ctx.induct) auto

lemma topo_vivo: "arv t p s \<Longrightarrow> s \<noteq> Lf \<Longrightarrow> topo n s \<in> vivos t"
  by (cases s) auto

definition aponta :: "arvore_rb \<Rightarrow> addr \<Rightarrow> addr \<Rightarrow> addr \<Rightarrow> arvore_rb" where
  "aponta t p x y = (if x = esq_de t p then poe_esq t p y else poe_dir t p y)"

lemma aponta_campos [campos]:
  "raiz (aponta t p x y) = raiz t" "nil (aponta t p x y) = nil t"
  "minimo (aponta t p x y) = minimo t" "prox (aponta t p x y) = prox t"
  "libertados (aponta t p x y) = libertados t"
  "vivos (aponta t p x y) = insert p (vivos t)"
  "chave_de (aponta t p x y) = chave_de t" "elem_de (aponta t p x y) = elem_de t"
  "tid_de (aponta t p x y) = tid_de t" "cor_de (aponta t p x y) = cor_de t"
  "pai_de (aponta t p x y) = pai_de t" 
  by (auto simp: aponta_def campos)

lemma aponta_fora [campos]:
  "a \<noteq> p \<Longrightarrow> esq_de (aponta t p x y) a = esq_de t a"
  "a \<noteq> p \<Longrightarrow> dir_de (aponta t p x y) a = dir_de t a"
  "a \<noteq> p \<Longrightarrow> cells (aponta t p x y) a = cells t a"
  by (auto simp: aponta_def campos)

lemma arv_aponta [simp]:
  assumes "p \<notin> set (ends s)" "p \<in> vivos t"
  shows "arv (aponta t p x y) q s = arv t q s"
  using assms by (auto simp: aponta_def)

lemma ctx_aponta:
  assumes "ctx t a k" "a \<notin> set (esqs k)" "a \<noteq> nil t" "distinct (raiz t # esqs k @ dirs k)"
  shows "ctx (aponta t (cpai (raiz t) k) a b) b k"
proof (cases k)
  case Nil
  then show ?thesis using assms by (auto simp: aponta_def campos)
next
  case (Cons q k')
  show ?thesis
  proof (cases q)
    case (FE c r)
    then show ?thesis using assms Cons by (auto simp: aponta_def campos)
  next
    case (FD l c)
    then have "a \<noteq> topo (nil t) l" using assms Cons topo_in by fastforce
    then show ?thesis using assms Cons FD by (auto simp: aponta_def campos)
  qed
qed

lemma aponta_raiz:
  assumes "ctx t a k" "distinct (raiz t # esqs k @ dirs k)" 
  shows "dir_de (aponta t (cpai (raiz t) k) a b) (raiz t) = dir_de t (raiz t)"
  using assms cpai_in[of k "raiz t"] by (cases k) (auto simp: aponta_def campos)

lemma cpai_fora: "distinct (z # esqs k @ xs @ dirs k) \<Longrightarrow> cpai z k \<notin> set xs"
  by (induction z k rule: cpai.induct) auto

lemma cpai_outro:
  "n \<noteq> z \<Longrightarrow> n \<notin> set (esqs k) \<Longrightarrow> n \<notin> set (dirs k) \<Longrightarrow> cpai z k \<noteq> n"
  by (induction z k rule: cpai.induct) auto


definition adopta :: "arvore_rb \<Rightarrow> addr \<Rightarrow> addr \<Rightarrow> arvore_rb" where
  "adopta t b x = (if b \<noteq> nil t then poe_pai t b x else t)"

lemma adopta_campos [campos]:
  "raiz (adopta t b x) = raiz t" "nil (adopta t b x) = nil t"
  "minimo (adopta t b x) = minimo t" "prox (adopta t b x) = prox t"
  "libertados (adopta t b x) = libertados t"
  "b \<in> vivos t \<Longrightarrow> vivos (adopta t b x) = vivos t"
  "chave_de (adopta t b x) = chave_de t" "elem_de (adopta t b x) = elem_de t"
  "tid_de (adopta t b x) = tid_de t" "cor_de (adopta t b x) = cor_de t"
  "esq_de (adopta t b x) = esq_de t" "dir_de (adopta t b x) = dir_de t"
  "a \<noteq> b \<Longrightarrow> pai_de (adopta t b x) a = pai_de t a"
  "pai_de (adopta t b x) (nil t) = pai_de t (nil t)"
  "a \<noteq> b \<Longrightarrow> cells (adopta t b x) a = cells t a"
  "cells (adopta t b x) (nil t) = cells t (nil t)"
  by (auto simp: adopta_def campos)

lemma arv_adopta [simp]: "b \<notin> set (ends s) \<Longrightarrow> b \<in> vivos t \<Longrightarrow> arv (adopta t b x) p s = arv t p s"
  by (auto simp: adopta_def)

lemma ctx_adopta [simp]:
  "b \<notin> set (esqs k) \<Longrightarrow> b \<notin> set (dirs k) \<Longrightarrow> b \<noteq> raiz t \<Longrightarrow> b \<in> vivos t \<Longrightarrow>
   ctx (adopta t b x) p k = ctx t p k"
  by (auto simp: adopta_def)

lemma arv_adopta_filho:
  "arv t p s \<Longrightarrow> distinct (ends s) \<Longrightarrow> nil t \<notin> set (ends s) \<Longrightarrow> arv (adopta t (topo (nil t) s) q) q s"
  by (cases s) (auto simp: adopta_def campos)

section \<open>Rotations\<close>

text \<open>
  \<open>roda_esq\<close> and \<open>roda_dir\<close> are the results of the rotations as single expressions; the lemmas
  \<open>RodarEsquerda_rep\<close> and \<open>RodarDireita_rep\<close> are what the rest of the development uses.
\<close>

definition roda_esq :: "arvore_rb \<Rightarrow> addr \<Rightarrow> addr \<Rightarrow> addr \<Rightarrow> addr \<Rightarrow> arvore_rb" where
  "roda_esq t x y b p =
     poe_pai (poe_esq (aponta (poe_pai (adopta (poe_dir t x b) b x) y p) p x y) y x) x y"

lemma roda_esq_fora:
  "a \<noteq> x \<Longrightarrow> a \<noteq> y \<Longrightarrow> a \<noteq> p \<Longrightarrow> a \<noteq> b \<or> b = nil t \<Longrightarrow> cells (roda_esq t x y b p) a = cells t a"
  by (cases "b = nil t"; simp add: roda_esq_def campos adopta_def)

lemma RodarEsquerda_eq: 
  assumes v: "x \<in> vivos t" "y \<in> vivos t" "p \<in> vivos t" "b \<in> vivos t" 
    and f: "dir_de t x = y" "esq_de t y = b" "pai_de t x = p"
    and d: "x \<noteq> y" "y \<noteq> p" "x \<noteq> p" "b \<noteq> x"
  shows "RodarEsquerda t x = Inr (roda_esq t x y b p)"
  by (cases "b = nil t") (simp_all add: RodarEsquerda_def campos v f d d[symmetric] roda_esq_def aponta_def adopta_def)

lemma RodarEsquerda_rep:
  assumes R: "rep t (plug (Nd l x (Nd b y r)) k)"
  obtains t' where "RodarEsquerda t x = Inr t'" "rep t' (plug (Nd (Nd l x b) y r) k)"
    "mesmos (insert (raiz t) (set (ends (plug (Nd l x (Nd b y r)) k)))) t t'" "cor_de t' = cor_de t"
proof -
  define p where "p = cpai (raiz t) k"
  define c where "c = topo (nil t) b"
  have arvs: "arv t x l" "arv t y b" "arv t y r" and k: "ctx t x k"
    and f: "dir_de t x = y" "esq_de t x = topo (nil t) l" "esq_de t y = c"
      "dir_de t y = topo (nil t) r" "pai_de t x = p" "pai_de t y = x"
    and s: "sentinelas t" and d: "distinct (nil t # raiz t # esqs k @ ends (Nd l x (Nd b y r)) @ dirs k)"
    and v: "x \<in> vivos t" "y \<in> vivos t" "nil t \<in> vivos t" "raiz t \<in> vivos t" 
      "p \<in> vivos t" 
    using R by (auto simp: rep_plug sentinelas_def cpai_viva p_def c_def)
  have dk: "distinct (raiz t # esqs k @ dirs k)" using d by auto
  have p: "p \<notin> set (ends (Nd l x (Nd b y r)))" "p \<noteq> nil t" unfolding p_def
    using cpai_fora[of "raiz t" k "ends (Nd l x (Nd b y r))"] cpai_outro[of "nil t" "raiz t" k] d by auto
  have pin: "p \<in> insert (raiz t) (set (esqs k) \<union> set (dirs k))"
    unfolding p_def using cpai_cases[of "raiz t" k] by auto
  have c: "c = nil t \<and> b = Lf \<or> c \<in> set (ends b)" by (cases b) (auto simp: c_def)
  then have cv: "c \<in> vivos t" using arv_vivos[OF arvs(2)] v by auto
  have ne: "x \<noteq> y" "y \<noteq> p" "x \<noteq> p" "c \<noteq> x" "c \<noteq> y" "c \<noteq> p" "raiz t \<noteq> x" "raiz t \<noteq> y" "raiz t \<noteq> c" 
    "nil t \<noteq> x" "nil t \<noteq> y" "nil t \<noteq> p" "nil t \<noteq> raiz t"
    using d p c by auto
  have ni: "x \<notin> set (ends l)" "x \<notin> set (ends b)" "x \<notin> set (ends r)"
    "y \<notin> set (ends l)" "y \<notin> set (ends b)" "y \<notin> set (ends r)"
    "c \<notin> set (ends l)" "c \<notin> set (ends r)" "p \<notin> set (ends l)" "p \<notin> set (ends b)" "p \<notin> set (ends r)"
    "x \<notin> set (esqs k)" "x \<notin> set (dirs k)" "y \<notin> set (esqs k)" "y \<notin> set (dirs k)" 
    "c \<notin> set (esqs k)" "c \<notin> set (dirs k)" "distinct (ends b)"
    using d p c by auto
  note fatos = v cv f ne ne[symmetric] ni
  let ?t3 = "poe_pai (adopta (poe_dir t x c) c x) y p"
  let ?t = "roda_esq t x y c p"
  have eq: "RodarEsquerda t x = Inr ?t"
    by (rule RodarEsquerda_eq) (simp_all add: fatos)
  have k3: "ctx ?t3 x k" by (simp add: fatos k campos)
  have k4: "ctx (aponta ?t3 p x y) y k"
    using ctx_aponta[OF k3, of y] dk by (simp add: fatos campos p_def[symmetric] split: if_splits)
  have m: "mesmos (insert (raiz t) (set (ends (plug (Nd l x (Nd b y r)) k)))) t ?t"
    unfolding mesmos_def
  proof (intro conjI allI impI)
    fix a assume "a \<notin> insert (raiz t) (set (ends (plug (Nd l x (Nd b y r)) k)))"
    then show "cells ?t a = cells t a" using c pin by (intro roda_esq_fora) auto
  qed (simp_all add: roda_esq_def campos fatos insert_absorb)
  have cc: "cor_de ?t = cor_de t"
    by (simp add: campos roda_esq_def fun_upd_idem)
  have r: "dir_de (aponta ?t3 p x y) (raiz t) = dir_de ?t3 (raiz t)"
    using aponta_raiz[OF k3, of y] dk by (simp add: fatos campos p_def[symmetric] split: if_splits)
  have vt: "vivos ?t = vivos t" and  ms: "raiz ?t = raiz t" "nil ?t = nil t" "prox ?t = prox t"
     "chave_de ?t = chave_de t" "elem_de ?t = elem_de t" using m by (auto simp: mesmos_def)
  have "sentinelas ?t" using s r
    unfolding sentinelas_def vt ms cc
    by (simp add: roda_esq_def fatos campos)
  moreover have "ctx ?t y k" using k4
    by (simp add: roda_esq_def fatos campos)
  moreover have "arv ?t p (Nd (Nd l x b) y r)"
  proof -
    have "arv (adopta (poe_dir t x c) (topo (nil (poe_dir t x c)) b) x) x b"
      by (rule arv_adopta_filho) (use arvs d in \<open>auto simp: campos fatos\<close>)
    then have b: "arv ?t x b"
      by (simp add: c_def[symmetric] roda_esq_def fatos campos)
    have l: "arv ?t x l" and r: "arv ?t y r" using arvs
      by (simp_all add: roda_esq_def fatos campos)
    show ?thesis using b l r
      by (simp add: roda_esq_def fatos campos c_def[symmetric])
  qed
  ultimately have "rep ?t (plug (Nd (Nd l x b) y r) k)"
    using d ms by (simp add: rep_plug p_def)
  then show ?thesis using that eq m cc by blast
qed
definition roda_dir :: "arvore_rb \<Rightarrow> addr \<Rightarrow> addr \<Rightarrow> addr \<Rightarrow> addr \<Rightarrow> arvore_rb" where
  "roda_dir t x y b p =
     poe_pai (poe_dir (aponta (poe_pai (adopta (poe_esq t x b) b x) y p) p x y) y x) x y"

lemma roda_dir_fora:
  "a \<noteq> x \<Longrightarrow> a \<noteq> y \<Longrightarrow> a \<noteq> p \<Longrightarrow> a \<noteq> b \<or> b = nil t \<Longrightarrow> cells (roda_dir t x y b p) a = cells t a"
  by (cases "b = nil t"; simp add: roda_dir_def campos adopta_def)

lemma RodarDireita_eq: 
  assumes v: "x \<in> vivos t" "y \<in> vivos t" "p \<in> vivos t" "b \<in> vivos t" 
    and f: "esq_de t x = y" "dir_de t y = b" "pai_de t x = p"
    and d: "x \<noteq> y" "y \<noteq> p" "x \<noteq> p" "b \<noteq> x"
  shows "RodarDireita t x = Inr (roda_dir t x y b p)"
  by (cases "b = nil t") (simp_all add: RodarDireita_def campos v f d d[symmetric] roda_dir_def aponta_def adopta_def)

lemma RodarDireita_rep:
  assumes R: "rep t (plug (Nd (Nd r y b) x l) k)"
  obtains t' where "RodarDireita t x = Inr t'" "rep t' (plug (Nd r y (Nd b x l)) k)"
    "mesmos (insert (raiz t) (set (ends (plug (Nd (Nd r y b) x l) k)))) t t'" "cor_de t' = cor_de t"
proof -
  define p where "p = cpai (raiz t) k"
  define c where "c = topo (nil t) b"
  have arvs: "arv t x l" "arv t y b" "arv t y r" and k: "ctx t x k"
    and f: "esq_de t x = y" "dir_de t x = topo (nil t) l" "dir_de t y = c"
      "esq_de t y = topo (nil t) r" "pai_de t x = p" "pai_de t y = x"
    and s: "sentinelas t" and d: "distinct (nil t # raiz t # esqs k @ ends (Nd (Nd r y b) x l) @ dirs k)"
    and v: "x \<in> vivos t" "y \<in> vivos t" "nil t \<in> vivos t" "raiz t \<in> vivos t" 
      "p \<in> vivos t" 
    using R by (auto simp: rep_plug sentinelas_def cpai_viva p_def c_def)
  have dk: "distinct (raiz t # esqs k @ dirs k)" using d by auto
  have p: "p \<notin> set (ends (Nd (Nd r y b) x l))" "p \<noteq> nil t" unfolding p_def
    using cpai_fora[of "raiz t" k "ends (Nd (Nd r y b) x l)"] cpai_outro[of "nil t" "raiz t" k] d by auto
  have pin: "p \<in> insert (raiz t) (set (esqs k) \<union> set (dirs k))"
    unfolding p_def using cpai_cases[of "raiz t" k] by auto
  have c: "c = nil t \<and> b = Lf \<or> c \<in> set (ends b)" by (cases b) (auto simp: c_def)
  then have cv: "c \<in> vivos t" using arv_vivos[OF arvs(2)] v by auto
  have ne: "x \<noteq> y" "y \<noteq> p" "x \<noteq> p" "c \<noteq> x" "c \<noteq> y" "c \<noteq> p" "raiz t \<noteq> x" "raiz t \<noteq> y" "raiz t \<noteq> c" 
    "nil t \<noteq> x" "nil t \<noteq> y" "nil t \<noteq> p" "nil t \<noteq> raiz t"
    using d p c by auto
  have ni: "x \<notin> set (ends l)" "x \<notin> set (ends b)" "x \<notin> set (ends r)"
    "y \<notin> set (ends l)" "y \<notin> set (ends b)" "y \<notin> set (ends r)"
    "c \<notin> set (ends l)" "c \<notin> set (ends r)" "p \<notin> set (ends l)" "p \<notin> set (ends b)" "p \<notin> set (ends r)"
    "x \<notin> set (esqs k)" "x \<notin> set (dirs k)" "y \<notin> set (esqs k)" "y \<notin> set (dirs k)" 
    "c \<notin> set (esqs k)" "c \<notin> set (dirs k)" "distinct (ends b)"
    using d p c by auto
  note fatos = v cv f ne ne[symmetric] ni
  let ?t3 = "poe_pai (adopta (poe_esq t x c) c x) y p"
  let ?t = "roda_dir t x y c p"
  have eq: "RodarDireita t x = Inr ?t"
    by (rule RodarDireita_eq) (simp_all add: fatos)
  have k3: "ctx ?t3 x k" by (simp add: fatos k campos)
  have k4: "ctx (aponta ?t3 p x y) y k"
    using ctx_aponta[OF k3, of y] dk by (simp add: fatos campos p_def[symmetric] split: if_splits)
  have m: "mesmos (insert (raiz t) (set (ends (plug (Nd (Nd r y b) x l) k)))) t ?t"
    unfolding mesmos_def
  proof (intro conjI allI impI)
    fix a assume "a \<notin> insert (raiz t) (set (ends (plug (Nd (Nd r y b) x l) k)))"
    then show "cells ?t a = cells t a" using c pin by (intro roda_dir_fora) auto
  qed (simp_all add: roda_dir_def campos fatos insert_absorb)
  have cc: "cor_de ?t = cor_de t"
    by (simp add: campos roda_dir_def fun_upd_idem)
  have r: "dir_de (aponta ?t3 p x y) (raiz t) = dir_de ?t3 (raiz t)"
    using aponta_raiz[OF k3, of y] dk by (simp add: fatos campos p_def[symmetric] split: if_splits)
  have vt: "vivos ?t = vivos t" and  ms: "raiz ?t = raiz t" "nil ?t = nil t" "prox ?t = prox t"
     "chave_de ?t = chave_de t" "elem_de ?t = elem_de t" using m by (auto simp: mesmos_def)
  have "sentinelas ?t" using s r
    unfolding sentinelas_def vt ms cc
    by (simp add: roda_dir_def fatos campos)
  moreover have "ctx ?t y k" using k4
    by (simp add: roda_dir_def fatos campos)
  moreover have "arv ?t p (Nd r y (Nd b x l))"
  proof -
    have "arv (adopta (poe_esq t x c) (topo (nil (poe_esq t x c)) b) x) x b"
      by (rule arv_adopta_filho) (use arvs d in \<open>auto simp: campos fatos\<close>)
    then have b: "arv ?t x b"
      by (simp add: c_def[symmetric] roda_dir_def fatos campos)
    have l: "arv ?t x l" and r: "arv ?t y r" using arvs
      by (simp_all add: roda_dir_def fatos campos)
    show ?thesis using b l r
      by (simp add: roda_dir_def fatos campos c_def[symmetric])
  qed
  ultimately have "rep ?t (plug (Nd r y (Nd b x l)) k)"
    using d ms by (simp add: rep_plug p_def)
  then show ?thesis using that eq m cc by blast
qed
end
