(* ===== verification/RedBlackCores.thy ===== *)
theory RedBlackCores
  imports RedBlackRep
begin

text \<open>
  The balance of a red-black tree: black height (\<open>bh\<close>, \<open>invh\<close>) and the absence of a red node
  with a red child (\<open>invc\<close>), over a colouring of the addresses, for shapes and for contexts; and
  the facts that read one node out of a represented tree.  \<open>invc2\<close> allows the root itself to be
  red with a red child, which is the state before the code paints the root black.
\<close>

section \<open>Colours\<close>

type_synonym cores = "addr \<Rightarrow> cor_t"

fun preta :: "cores \<Rightarrow> forma \<Rightarrow> bool" where
  "preta C Lf \<longleftrightarrow> True"
| "preta C (Nd l a r) \<longleftrightarrow> C a = black"

fun bh :: "cores \<Rightarrow> forma \<Rightarrow> nat" where
  "bh C Lf = 0"
| "bh C (Nd l a r) = bh C l + (if C a = black then 1 else 0)"

fun invh :: "cores \<Rightarrow> forma \<Rightarrow> bool" where
  "invh C Lf \<longleftrightarrow> True"
| "invh C (Nd l a r) \<longleftrightarrow> bh C l = bh C r \<and> invh C l \<and> invh C r"

fun invc :: "cores \<Rightarrow> forma \<Rightarrow> bool" where
  "invc C Lf \<longleftrightarrow> True"
| "invc C (Nd l a r) \<longleftrightarrow> (C a = red \<longrightarrow> preta C l \<and> preta C r) \<and> invc C l \<and> invc C r"

fun invc2 :: "cores \<Rightarrow> forma \<Rightarrow> bool" where
  "invc2 C Lf \<longleftrightarrow> True"
| "invc2 C (Nd l a r) \<longleftrightarrow> invc C l \<and> invc C r"

fun cinvh :: "cores \<Rightarrow> nat \<Rightarrow> quadro list \<Rightarrow> bool" where
  "cinvh C n [] \<longleftrightarrow> True"
| "cinvh C n (FE a r # k) \<longleftrightarrow> bh C r = n \<and> invh C r \<and> cinvh C (n + (if C a = black then 1 else 0)) k"
| "cinvh C n (FD l a # k) \<longleftrightarrow> bh C l = n \<and> invh C l \<and> cinvh C (n + (if C a = black then 1 else 0)) k"

fun cpreta :: "cores \<Rightarrow> quadro list \<Rightarrow> bool" where
  "cpreta C [] \<longleftrightarrow> True"
| "cpreta C (FE a r # k) \<longleftrightarrow> C a = black"
| "cpreta C (FD l a # k) \<longleftrightarrow> C a = black"

fun cinvc :: "cores \<Rightarrow> quadro list \<Rightarrow> bool" where
  "cinvc C [] \<longleftrightarrow> True"
| "cinvc C (FE a r # k) \<longleftrightarrow> (C a = red \<longrightarrow> preta C r \<and> cpreta C k) \<and> invc C r \<and> cinvc C k"
| "cinvc C (FD l a # k) \<longleftrightarrow> (C a = red \<longrightarrow> preta C l \<and> cpreta C k) \<and> invc C l \<and> cinvc C k"

fun no_q :: "quadro \<Rightarrow> addr" where
  "no_q (FE a r) = a"
| "no_q (FD l a) = a"

fun cbase :: "cores \<Rightarrow> quadro list \<Rightarrow> bool" where
  "cbase C [] \<longleftrightarrow> True"
| "cbase C (q # k) \<longleftrightarrow> (if k = [] then C (no_q q) = black else cbase C k)"

named_theorems cores_fora

lemma preta_fora [cores_fora]: "a \<notin> set (ends s) \<Longrightarrow> preta (C(a := c)) s = preta C s"
  by (cases s) auto

lemma bh_fora [cores_fora]: "a \<notin> set (ends s) \<Longrightarrow> bh (C(a := c)) s = bh C s"
  by (induction s) auto

lemma invh_fora [cores_fora]: "a \<notin> set (ends s) \<Longrightarrow> invh (C(a := c)) s = invh C s"
  by (induction s) (auto simp: cores_fora)

lemma invc_fora [cores_fora]: "a \<notin> set (ends s) \<Longrightarrow> invc (C(a := c)) s = invc C s"
  by (induction s) (auto simp: cores_fora)

lemma cpreta_fora [cores_fora]:
  "a \<notin> set (esqs k) \<Longrightarrow> a \<notin> set (dirs k) \<Longrightarrow> cpreta (C(a := c)) k = cpreta C k"
  by (induction C k rule: cpreta.induct) auto

lemma cinvh_fora [cores_fora]:
  "a \<notin> set (esqs k) \<Longrightarrow> a \<notin> set (dirs k) \<Longrightarrow> cinvh (C(a := c)) n k = cinvh C n k"
  by (induction C n k rule: cinvh.induct) (auto simp: cores_fora)

lemma cinvc_fora [cores_fora]:
  "a \<notin> set (esqs k) \<Longrightarrow> a \<notin> set (dirs k) \<Longrightarrow> cinvc (C(a := c)) k = cinvc C k"
  by (induction C k rule: cinvc.induct) (auto simp: cores_fora)

lemma cbase_fora [cores_fora]:
  "a \<notin> set (esqs k) \<Longrightarrow> a \<notin> set (dirs k) \<Longrightarrow> cbase (C(a := c)) k = cbase C k"
proof (induction C k rule: cbase.induct)
  case (2 C q k)
  then show ?case by (cases q) auto
qed simp

lemma invh_plug: "invh C (plug s k) \<longleftrightarrow> invh C s \<and> cinvh C (bh C s) k"
  by (induction s k rule: plug.induct) auto

lemma invc_plug: "invc C (plug s k) \<longleftrightarrow> invc C s \<and> cinvc C k \<and> (preta C s \<or> cpreta C k)"
  by (induction s k rule: plug.induct) (auto, (metis cor_t.exhaust)+)

lemma invc2I: "invc C s \<Longrightarrow> invc2 C s"
  by (cases s) auto

lemma cor_neq [simp]: "c \<noteq> black \<longleftrightarrow> c = red" "c \<noteq> red \<longleftrightarrow> c = black"
  by (cases c; simp)+

lemma preta_plug: "preta C (plug s k) \<longleftrightarrow> (if k = [] then preta C s else cbase C k)"
proof (induction C k arbitrary: s rule: cbase.induct)
  case (2 C q k)
  then show ?case by (cases q) auto
qed auto

section \<open>Reading a represented tree\<close>

lemma rep_no:
  assumes "rep t (plug (Nd l x r) k)"
  shows "x \<in> vivos t" "pai_de t x = cpai (raiz t) k" "esq_de t x = topo (nil t) l"
    "dir_de t x = topo (nil t) r" "x \<noteq> nil t" "x \<noteq> raiz t" "cpai (raiz t) k \<in> vivos t"
    "x \<noteq> cpai (raiz t) k" "x \<notin> set (ends l)" "x \<notin> set (ends r)" "x \<notin> set (esqs k)" "x \<notin> set (dirs k)"
  using assms cpai_fora[of "raiz t" k "[x]"] by (auto simp: rep_plug cpai_viva)

lemma rep_sent:
  assumes "rep t s"
  shows "sentinelas t" "raiz t \<in> vivos t" "nil t \<in> vivos t" "cor_de t (raiz t) = black" "cor_de t (nil t) = black"
    "nil t \<notin> set (ends s)" "raiz t \<notin> set (ends s)" "nil t \<noteq> raiz t" "distinct (ends s)"
    "esq_de t (raiz t) = topo (nil t) s" "0 < nil t" "0 < raiz t"
    "NULL \<notin> vivos t" "\<And>a. a \<in> vivos t \<Longrightarrow> a < prox t"
  using assms by (auto simp: rep_def sentinelas_def NULL_def)

lemma rep_poe_cor:
  assumes "a \<in> vivos t" "a \<noteq> nil t" "a \<noteq> raiz t"
  shows "rep (poe_cor t a c) s = rep t s"
  using assms by (auto simp: rep_def sentinelas_def campos insert_absorb)

lemma rep_cor_topo: "rep t s \<Longrightarrow> cor_de t (topo (nil t) w) = black \<longleftrightarrow> preta (cor_de t) w"
  by (cases w) (auto simp: rep_sent)

lemma mesmos_refl [simp]: "mesmos A t t"
  by (simp add: mesmos_def)

lemma mesmos_trans [trans]: "mesmos A t t' \<Longrightarrow> mesmos A t' t'' \<Longrightarrow> mesmos A t t''"
  by (simp add: mesmos_def)

lemma mesmos_poe_cor: "a \<in> A \<Longrightarrow> a \<in> vivos t \<Longrightarrow> mesmos A t (poe_cor t a c)"
  by (auto simp: mesmos_def campos insert_absorb)

lemma mesmosD:
  assumes "mesmos A t t'"
  shows "raiz t' = raiz t" "nil t' = nil t" "minimo t' = minimo t" "prox t' = prox t"
    "libertados t' = libertados t" "vivos t' = vivos t" "chave_de t' = chave_de t"
    "elem_de t' = elem_de t" "tid_de t' = tid_de t" "a \<notin> A \<Longrightarrow> cells t' a = cells t a"
  using assms by (auto simp: mesmos_def)

end
