(* ===== verification/Agenda.thy ===== *)
theory Agenda
  imports CPrelude
begin

text \<open>
  The interface between the code that waits for something and the containers it waits in: the
  ready and sleeping trees, the queues of threads, the queue of open files and the ring of
  requests.  The provider promises that its state represents a list, that an insertion puts the
  element where \<open>poe\<close> puts it in that list, and that a removal takes the head; the client's
  lemmas are about whole sequences of operations.
\<close>

datatype 'x op = Mete 'x | Tira

text \<open>Running a sequence of operations on the code's state, and on the list.\<close>

fun corre :: "('s \<Rightarrow> 'x \<Rightarrow> 's res) \<Rightarrow> ('s \<Rightarrow> ('x \<times> 's) res) \<Rightarrow> 'x op list \<Rightarrow> 's \<Rightarrow> ('x list \<times> 's) res" where
  "corre ins rem [] s = Inr ([], s)"
| "corre ins rem (Mete x # ops) s = bindr (ins s x) (corre ins rem ops)"
| "corre ins rem (Tira # ops) s =
     bindr (rem s) (\<lambda>(x, s). bindr (corre ins rem ops s) (\<lambda>(xs, s). Inr (x # xs, s)))"

fun corre_lista :: "('x \<Rightarrow> 'x list \<Rightarrow> 'x list) \<Rightarrow> ('x \<Rightarrow> 'x list \<Rightarrow> bool) \<Rightarrow> 'x op list \<Rightarrow> 'x list
    \<Rightarrow> ('x list \<times> 'x list) option" where
  "corre_lista poe cabe [] xs = Some ([], xs)"
| "corre_lista poe cabe (Mete x # ops) xs =
     (if cabe x xs then corre_lista poe cabe ops (poe x xs) else None)"
| "corre_lista poe cabe (Tira # ops) xs =
     (case xs of [] \<Rightarrow> None
      | x # xs \<Rightarrow> map_option (\<lambda>(ys, zs). (x # ys, zs)) (corre_lista poe cabe ops xs))"

section \<open>Containers one can insert into\<close>

locale deposito =
  fixes inv :: "'s \<Rightarrow> 'x list \<Rightarrow> bool"
    and ins :: "'s \<Rightarrow> 'x \<Rightarrow> 's res"
    and poe :: "'x \<Rightarrow> 'x list \<Rightarrow> 'x list"
    and cabe :: "'x \<Rightarrow> 'x list \<Rightarrow> bool"
  assumes ins_ok: "inv s xs \<Longrightarrow> cabe x xs \<Longrightarrow> \<exists>s'. ins s x = Inr s' \<and> inv s' (poe x xs)"
begin

lemma muitos:
  assumes "inv s xs" "\<And>x ys. x \<in> set zs \<Longrightarrow> cabe x ys"
  shows "\<exists>s'. foldl (\<lambda>r x. bindr r (\<lambda>s. ins s x)) (Inr s) zs = Inr s' \<and> inv s' (fold poe zs xs)"
  using assms
proof (induction zs arbitrary: s xs)
  case (Cons z zs)
  obtain s1 where "ins s z = Inr s1" "inv s1 (poe z xs)" using ins_ok Cons.prems by force
  then show ?case using Cons by auto
qed simp

end

section \<open>Containers one can also take from\<close>

locale agenda = deposito inv ins poe cabe
  for inv :: "'s \<Rightarrow> 'x list \<Rightarrow> bool" and ins poe cabe +
  fixes rem :: "'s \<Rightarrow> ('x \<times> 's) res"
  assumes rem_ok: "inv s (x # xs) \<Longrightarrow> \<exists>s'. rem s = Inr (x, s') \<and> inv s' xs"
begin

text \<open>Refinement: what the list can do, the code does with the same results.\<close>

lemma refina:
  "inv s xs \<Longrightarrow> corre_lista poe cabe ops xs = Some (ys, zs) \<Longrightarrow>
   \<exists>s'. corre ins rem ops s = Inr (ys, s') \<and> inv s' zs"
proof (induction ops arbitrary: s xs ys)
  case (Cons p ops)
  show ?case
  proof (cases p)
    case (Mete x)
    then have c: "cabe x xs" "corre_lista poe cabe ops (poe x xs) = Some (ys, zs)"
      using Cons.prems(2) by (auto split: if_splits)
    obtain s1 where 1: "ins s x = Inr s1" "inv s1 (poe x xs)" using ins_ok Cons.prems(1) c(1) by blast
    then show ?thesis using Cons.IH[OF 1(2) c(2)] Mete by auto
  next
    case Tira
    then obtain x xs' ys' where c: "xs = x # xs'" "ys = x # ys'" "corre_lista poe cabe ops xs' = Some (ys', zs)"
      using Cons.prems(2) by (auto split: list.splits)
    obtain s1 where 1: "rem s = Inr (x, s1)" "inv s1 xs'" using rem_ok Cons.prems(1) c(1) by blast
    obtain s2 where "corre ins rem ops s1 = Inr (ys', s2)" "inv s2 zs" using Cons.IH[OF 1(2) c(3)] by blast
    then show ?thesis using 1 c Tira by auto
  qed
qed auto

end

section \<open>First in, first out\<close>

locale fifo = agenda inv ins "\<lambda>x xs. xs @ [x]" cabe rem
  for inv :: "'s \<Rightarrow> 'x list \<Rightarrow> bool" and ins cabe rem
begin

lemma corre_metes:
  "(\<And>x xs. length xs < n \<Longrightarrow> cabe x xs) \<Longrightarrow> length xs + length ys \<le> n \<Longrightarrow>
   corre_lista (\<lambda>x xs. xs @ [x]) cabe (map Mete ys @ ops) xs =
     corre_lista (\<lambda>x xs. xs @ [x]) cabe ops (xs @ ys)"
  by (induction ys arbitrary: xs) auto

lemma corre_tiras:
  "corre_lista (\<lambda>x xs. xs @ [x]) cabe (replicate (length ys) Tira) (ys @ zs) = Some (ys, zs)"
  by (induction ys) auto

text \<open>What goes in comes out in the same order.\<close>

lemma ordem_de_chegada:
  assumes "inv s []" "\<And>x xs. length xs < n \<Longrightarrow> cabe x xs" "length ys \<le> n"
  shows "\<exists>s'. corre ins rem (map Mete ys @ replicate (length ys) Tira) s = Inr (ys, s') \<and> inv s' []"
proof -
  have "corre_lista (\<lambda>x xs. xs @ [x]) cabe (map Mete ys @ replicate (length ys) Tira) [] = Some (ys, [])"
    using corre_metes[OF assms(2), of n "[]" ys] corre_tiras[of ys "[]"] assms(3) by simp
  then show ?thesis using refina[OF assms(1)] by blast
qed

end

end
