(* ===== verification/RedBlackInsere.thy ===== *)
theory RedBlackInsere
  imports RedBlackCores Agenda
begin

text \<open>
  Insertion into the red-black tree: the loop of RBInserirNo that restores the colours, the
  placement of the new node by InserirNoAux, and RBInserirNo as a whole.
\<close>

section \<open>The repair loop\<close>

lemma fim_esq:
  assumes R: "rep t (plug (Nd (Nd (Nd l x r) p u) g w) k)"
    and c: "cor_de t x = red" "cor_de t g = black" "preta (cor_de t) u" "preta (cor_de t) w"
      "preta (cor_de t) l" "preta (cor_de t) r" "invc (cor_de t) l" "invc (cor_de t) r"
      "invc (cor_de t) u" "invc (cor_de t) w" "cinvc (cor_de t) k" "cor_de t p = red"
    and h: "invh (cor_de t) (plug (Nd (Nd (Nd l x r) p u) g w) k)"
    and A: "A = insert (raiz t) (set (ends (plug (Nd (Nd (Nd l x r) p u) g w) k)))"
  shows "\<exists>t' s'. bindr (rd pai t x) (\<lambda>p.
           bindr (wr_cor t p black) (\<lambda>t.
           bindr (rd pai t p) (\<lambda>g.
           bindr (wr_cor t g red) (\<lambda>t.
           bindr (RodarDireita t g) (\<lambda>t.
           insere_reparar (Suc f) t x))))) = Inr t' \<and> rep t' s' \<and>
        ends s' = ends (plug (Nd (Nd (Nd l x r) p u) g w) k) \<and> invh (cor_de t') s' \<and> invc2 (cor_de t') s' \<and>
        mesmos A t t'"
proof -
  note x = rep_no[of t l x r "FE p u # FE g w # k", simplified, OF R]
  note p = rep_no[of t "Nd l x r" p u "FE g w # k", simplified, OF R]
  note g = rep_no[of t "Nd (Nd l x r) p u" g w k, simplified, OF R]
  let ?t1 = "poe_cor (poe_cor t p black) g red"
  have R1: "rep ?t1 (plug (Nd (Nd (Nd l x r) p u) g w) k)"
    using R p g by (simp add: rep_poe_cor campos)
  obtain t' where t': "RodarDireita ?t1 g = Inr t'" "rep t' (plug (Nd (Nd l x r) p (Nd u g w)) k)"
    "mesmos A ?t1 t'" "cor_de t' = cor_de ?t1"
    using RodarDireita_rep[OF R1] A by (auto simp: campos)
  have m: "mesmos A t t'" 
    using mesmos_trans[OF mesmos_trans[OF mesmos_poe_cor mesmos_poe_cor] t'(3)] p g A by (auto simp: campos)
  note x' = rep_no[of t' l x r "FE p (Nd u g w) # k", simplified, OF t'(2)]
  have "cor_de t' p = black" using t'(4) p g by (auto simp: campos)
  then have e: "insere_reparar (Suc f) t' x = Inr t'" 
    using x' by (simp add: campos)
  have d: "distinct (ends (plug (Nd (Nd (Nd l x r) p u) g w) k))" using R by (simp add: rep_def)
  have C: "cor_de t' = (cor_de t)(p := black, g := red)" using t'(4) by (simp add: campos)
  have "invc (cor_de t') (plug (Nd (Nd l x r) p (Nd u g w)) k)"
    unfolding C using c d by (auto simp: invc_plug cores_fora)
  moreover have "invh (cor_de t') (plug (Nd (Nd l x r) p (Nd u g w)) k)"
    unfolding C using c h d by (auto simp: invh_plug cores_fora)
  ultimately show ?thesis
    using x p g t' m e by (intro exI[of _ t'] exI[of _ "plug (Nd (Nd l x r) p (Nd u g w)) k"]) (auto simp: campos invc2I)
qed
lemma fim_dir:
  assumes R: "rep t (plug (Nd w g (Nd u p (Nd l x r))) k)"
    and c: "cor_de t x = red" "cor_de t g = black" "preta (cor_de t) u" "preta (cor_de t) w"
      "preta (cor_de t) l" "preta (cor_de t) r" "invc (cor_de t) l" "invc (cor_de t) r"
      "invc (cor_de t) u" "invc (cor_de t) w" "cinvc (cor_de t) k" "cor_de t p = red"
    and h: "invh (cor_de t) (plug (Nd w g (Nd u p (Nd l x r))) k)"
    and A: "A = insert (raiz t) (set (ends (plug (Nd w g (Nd u p (Nd l x r))) k)))"
  shows "\<exists>t' s'. bindr (rd pai t x) (\<lambda>p.
           bindr (wr_cor t p black) (\<lambda>t.
           bindr (rd pai t p) (\<lambda>g.
           bindr (wr_cor t g red) (\<lambda>t.
           bindr (RodarEsquerda t g) (\<lambda>t.
           insere_reparar (Suc f) t x))))) = Inr t' \<and> rep t' s' \<and>
        ends s' = ends (plug (Nd w g (Nd u p (Nd l x r))) k) \<and> invh (cor_de t') s' \<and> invc2 (cor_de t') s' \<and>
        mesmos A t t'"
proof -
  note x = rep_no[of t l x r "FD u p # FD w g # k", simplified, OF R]
  note p = rep_no[of t u p "Nd l x r" "FD w g # k", simplified, OF R]
  note g = rep_no[of t w g "Nd u p (Nd l x r)" k, simplified, OF R]
  let ?t1 = "poe_cor (poe_cor t p black) g red"
  have R1: "rep ?t1 (plug (Nd w g (Nd u p (Nd l x r))) k)"
    using R p g by (simp add: rep_poe_cor campos)
  obtain t' where t': "RodarEsquerda ?t1 g = Inr t'" "rep t' (plug (Nd (Nd w g u) p (Nd l x r)) k)"
    "mesmos A ?t1 t'" "cor_de t' = cor_de ?t1"
    using RodarEsquerda_rep[OF R1] A by (auto simp: campos)
  have m: "mesmos A t t'" 
    using mesmos_trans[OF mesmos_trans[OF mesmos_poe_cor mesmos_poe_cor] t'(3)] p g A by (auto simp: campos)
  note x' = rep_no[of t' l x r "FD (Nd w g u) p # k", simplified, OF t'(2)]
  have "cor_de t' p = black" using t'(4) p g by (auto simp: campos)
  then have e: "insere_reparar (Suc f) t' x = Inr t'" 
    using x' by (simp add: campos)
  have d: "distinct (ends (plug (Nd w g (Nd u p (Nd l x r))) k))" using R by (simp add: rep_def)
  have C: "cor_de t' = (cor_de t)(p := black, g := red)" using t'(4) by (simp add: campos)
  have "invc (cor_de t') (plug (Nd (Nd w g u) p (Nd l x r)) k)"
    unfolding C using c d by (auto simp: invc_plug cores_fora)
  moreover have "invh (cor_de t') (plug (Nd (Nd w g u) p (Nd l x r)) k)"
    unfolding C using c h d by (auto simp: invh_plug cores_fora)
  ultimately show ?thesis
    using x p g t' m e by (intro exI[of _ t'] exI[of _ "plug (Nd (Nd w g u) p (Nd l x r)) k"]) (auto simp: campos invc2I)
qed

lemma cpreta_cpai: "C z = black \<Longrightarrow> C (cpai z k) = black \<longleftrightarrow> cpreta C k"
  by (induction C k rule: cpreta.induct) auto

lemma dois_quadros:
  assumes "\<not> cpreta C k" "cbase C k"
  obtains q q' k' where "k = q # q' # k'"
  using assms by (induction C k rule: cpreta.induct) (auto split: if_splits simp: neq_Nil_conv)

definition insere_ok :: "nat \<Rightarrow> bool" where
  "insere_ok f \<longleftrightarrow> (\<forall>t l x r k A. rep t (plug (Nd l x r) k) \<longrightarrow> cor_de t x = red \<longrightarrow> preta (cor_de t) l \<longrightarrow>
     preta (cor_de t) r \<longrightarrow> invc (cor_de t) l \<longrightarrow> invc (cor_de t) r \<longrightarrow> cinvc (cor_de t) k \<longrightarrow>
     cbase (cor_de t) k \<longrightarrow> invh (cor_de t) (plug (Nd l x r) k) \<longrightarrow>
     A = insert (raiz t) (set (ends (plug (Nd l x r) k))) \<longrightarrow> length k < f \<longrightarrow>
     (\<exists>t' s'. insere_reparar f t x = Inr t' \<and> rep t' s' \<and> ends s' = ends (plug (Nd l x r) k) \<and>
        invh (cor_de t') s' \<and> invc2 (cor_de t') s' \<and> mesmos A t t'))"

lemma rep_quadro:
  assumes "rep t (plug s (q # k))"
  shows "no_q q \<in> vivos t" "no_q q \<noteq> nil t" "no_q q \<noteq> raiz t" "pai_de t (no_q q) = cpai (raiz t) k"
    "cpai (raiz t) k \<in> vivos t" "no_q q \<noteq> cpai (raiz t) k"
proof -
  obtain l r where "rep t (plug (Nd l (no_q q) r) k)" using assms by (cases q) auto
  from rep_no[OF this] show "no_q q \<in> vivos t" "no_q q \<noteq> nil t" "no_q q \<noteq> raiz t"
    "pai_de t (no_q q) = cpai (raiz t) k" "cpai (raiz t) k \<in> vivos t" "no_q q \<noteq> cpai (raiz t) k"
    by auto
qed

lemma rep_plug2: "rep t (plug s (q # k)) = rep t (plug (plug s [q]) k)"
  by (cases q) auto

lemma cpai_no_q: "cpai z (q # k) = no_q q"
  by (cases q) auto

lemma rep_tio:
  assumes R: "rep t (plug s (q # q' # k))" and q': "q' = FE g w \<or> q' = FD w g"
  shows "esq_de t g = no_q q \<and> dir_de t g = topo (nil t) w \<or>
    esq_de t g = topo (nil t) w \<and> dir_de t g = no_q q \<and> topo (nil t) w \<noteq> no_q q"
    and "topo (nil t) w \<in> vivos t" "topo (nil t) w \<noteq> raiz t" "topo (nil t) w \<noteq> no_q q" "topo (nil t) w \<noteq> g"
proof -
  obtain l r where p: "plug s [q] = Nd l (no_q q) r" by (cases q) auto
  have R': "rep t (plug (Nd l (no_q q) r) (q' # k))" using R p rep_plug2 by metis
  note s = rep_sent[OF R]
  note pn = rep_no[OF R']
  have w: "topo (nil t) w = nil t \<or> topo (nil t) w \<in> set (ends w)" using topo_in by blast
  have *: "topo (nil t) w \<noteq> no_q q" using q' w pn(5,11,12) by auto
  then show "esq_de t g = no_q q \<and> dir_de t g = topo (nil t) w \<or>
    esq_de t g = topo (nil t) w \<and> dir_de t g = no_q q \<and> topo (nil t) w \<noteq> no_q q"
    using q' R' rep_no(3,4)[of t "Nd l (no_q q) r" g w k] rep_no(3,4)[of t w g "Nd l (no_q q) r" k] by auto
  show "topo (nil t) w \<noteq> no_q q" by (rule *)
  have g: "g \<notin> set (ends w)" "g \<noteq> nil t"
    using q' R' rep_no(5,9,10)[of t "Nd l (no_q q) r" g w k] rep_no(5,9,10)[of t w g "Nd l (no_q q) r" k] by auto
  show "topo (nil t) w \<noteq> g" using g w by auto
  show "topo (nil t) w \<in> vivos t" "topo (nil t) w \<noteq> raiz t"
  proof -
    have "w = Lf \<or> topo (nil t) w \<in> vivos t \<and> topo (nil t) w \<noteq> raiz t"
    proof (cases w)
      case (Nd a y b)
      show ?thesis
        using q' R' rep_no(1,6)[of t a y b "FD (Nd l (no_q q) r) g # k"] rep_no(1,6)[of t a y b "FE g (Nd l (no_q q) r) # k"] Nd
        by auto
    qed simp
    then show "topo (nil t) w \<in> vivos t" "topo (nil t) w \<noteq> raiz t" using s(3,8) by auto
  qed
qed

lemma passo_ee:
  assumes R: "rep t (plug (Nd (Nd (Nd l x r) p u) g w) k)"
    and c: "cor_de t x = red" "cor_de t p = red" "preta (cor_de t) w" "preta (cor_de t) u"
      "preta (cor_de t) l" "preta (cor_de t) r" "invc (cor_de t) l" "invc (cor_de t) r"
      "cinvc (cor_de t) (FE p u # FE g w # k)"
    and h: "invh (cor_de t) (plug (Nd (Nd (Nd l x r) p u) g w) k)"
    and A: "A = insert (raiz t) (set (ends (plug (Nd (Nd (Nd l x r) p u) g w) k)))"
  shows "\<exists>t' s'. insere_reparar (Suc (Suc f)) t x = Inr t' \<and> rep t' s' \<and>
        ends s' = ends (plug (Nd (Nd (Nd l x r) p u) g w) k) \<and> invh (cor_de t') s' \<and> invc2 (cor_de t') s' \<and>
        mesmos A t t'"
proof -
  note x = rep_no[of t l x r "FE p u # FE g w # k", simplified, OF R]
  note p = rep_no[of t "Nd l x r" p u "FE g w # k", simplified, OF R]
  note g = rep_no[of t "Nd (Nd l x r) p u" g w k, simplified, OF R]
  note w = rep_tio[of t "Nd l x r" "FE p u" "FE g w" k g w, simplified, OF R]
  have "x \<noteq> topo (nil t) u" using topo_in[of "nil t" u] x p by auto
  moreover have "cor_de t (topo (nil t) w) = black" using c rep_cor_topo[OF R] by simp
  ultimately have "insere_reparar (Suc (Suc f)) t x = bindr (rd pai t x) (\<lambda>p.
           bindr (wr_cor t p black) (\<lambda>t.
           bindr (rd pai t p) (\<lambda>g.
           bindr (wr_cor t g red) (\<lambda>t.
           bindr (RodarDireita t g) (\<lambda>t.
           insere_reparar (Suc f) t x)))))"
    using x(1,2) p(1,2,3,4) g(1,3,4) w(2) w(4)[symmetric] c(2) by (simp add: campos insere_reparar.simps(2)[of "Suc f" t x] del: insere_reparar.simps(2))
  then show ?thesis
    using fim_esq[OF R c(1) _ c(4,3,5,6,7,8) _ _ _ c(2) h A, of f] c by auto
qed

lemma passo_de:
  assumes R: "rep t (plug (Nd (Nd u p (Nd l x r)) g w) k)"
    and c: "cor_de t x = red" "cor_de t p = red" "preta (cor_de t) w" "preta (cor_de t) u"
      "preta (cor_de t) l" "preta (cor_de t) r" "invc (cor_de t) l" "invc (cor_de t) r"
      "cinvc (cor_de t) (FD u p # FE g w # k)"
    and h: "invh (cor_de t) (plug (Nd (Nd u p (Nd l x r)) g w) k)"
    and A: "A = insert (raiz t) (set (ends (plug (Nd (Nd u p (Nd l x r)) g w) k)))"
  shows "\<exists>t' s'. insere_reparar (Suc (Suc f)) t x = Inr t' \<and> rep t' s' \<and>
        ends s' = ends (plug (Nd (Nd u p (Nd l x r)) g w) k) \<and> invh (cor_de t') s' \<and> invc2 (cor_de t') s' \<and>
        mesmos A t t'"
proof -
  note x = rep_no[of t l x r "FD u p # FE g w # k", simplified, OF R]
  note p = rep_no[of t u p "Nd l x r" "FE g w # k", simplified, OF R]
  note g = rep_no[of t "Nd u p (Nd l x r)" g w k, simplified, OF R]
  note w = rep_tio[of t "Nd l x r" "FD u p" "FE g w" k g w, simplified, OF R]
  have Rp: "rep t (plug (Nd u p (Nd l x r)) (FE g w # k))" using R by simp
  obtain t1 where t1: "RodarEsquerda t p = Inr t1" "rep t1 (plug (Nd (Nd (Nd u p l) x r) g w) k)"
    "mesmos A t t1" "cor_de t1 = cor_de t"
    using RodarEsquerda_rep[OF Rp] A by auto
  have wb: "cor_de t (topo (nil t) w) = black" using c rep_cor_topo[OF R] by simp
  have eq: "insere_reparar (Suc (Suc f)) t x = bindr (rd pai t1 p) (\<lambda>p'.
           bindr (wr_cor t1 p' black) (\<lambda>t.
           bindr (rd pai t p') (\<lambda>g.
           bindr (wr_cor t g red) (\<lambda>t.
           bindr (RodarDireita t g) (\<lambda>t.
           insere_reparar (Suc f) t p)))))"
    using x(1,2) p(1,2,3,4) g(1,3,4) w(2) w(4)[symmetric] c(2) wb t1(1) by (simp add: campos insere_reparar.simps(2)[of "Suc f" t x] del: insere_reparar.simps(2))
  have h1: "invh (cor_de t) (plug (Nd (Nd (Nd u p l) x r) g w) k)"
    using h c by (auto simp: invh_plug)
  have A1: "A = insert (raiz t1) (set (ends (plug (Nd (Nd (Nd u p l) x r) g w) k)))"
    using A mesmosD(1)[OF t1(3)] by auto
  show ?thesis
    using fim_esq[OF t1(2), unfolded t1(4), OF c(2) _ c(6,3,4,5) _ c(7,8) _ _ c(1) h1 A1, of f] c mesmos_trans[OF t1(3)]
    unfolding eq by auto
qed

lemma passo_dd:
  assumes R: "rep t (plug (Nd w g (Nd u p (Nd l x r))) k)"
    and c: "cor_de t x = red" "cor_de t p = red" "preta (cor_de t) w" "preta (cor_de t) u"
      "preta (cor_de t) l" "preta (cor_de t) r" "invc (cor_de t) l" "invc (cor_de t) r"
      "cinvc (cor_de t) (FD u p # FD w g # k)"
    and h: "invh (cor_de t) (plug (Nd w g (Nd u p (Nd l x r))) k)"
    and A: "A = insert (raiz t) (set (ends (plug (Nd w g (Nd u p (Nd l x r))) k)))"
  shows "\<exists>t' s'. insere_reparar (Suc (Suc f)) t x = Inr t' \<and> rep t' s' \<and>
        ends s' = ends (plug (Nd w g (Nd u p (Nd l x r))) k) \<and> invh (cor_de t') s' \<and> invc2 (cor_de t') s' \<and>
        mesmos A t t'"
proof -
  note x = rep_no[of t l x r "FD u p # FD w g # k", simplified, OF R]
  note p = rep_no[of t u p "Nd l x r" "FD w g # k", simplified, OF R]
  note g = rep_no[of t w g "Nd u p (Nd l x r)" k, simplified, OF R]
  note w = rep_tio[of t "Nd l x r" "FD u p" "FD w g" k g w, simplified, OF R]
  have "x \<noteq> topo (nil t) u" using topo_in[of "nil t" u] x p by auto
  moreover have "cor_de t (topo (nil t) w) = black" using c rep_cor_topo[OF R] by simp
  ultimately have "insere_reparar (Suc (Suc f)) t x = bindr (rd pai t x) (\<lambda>p.
           bindr (wr_cor t p black) (\<lambda>t.
           bindr (rd pai t p) (\<lambda>g.
           bindr (wr_cor t g red) (\<lambda>t.
           bindr (RodarEsquerda t g) (\<lambda>t.
           insere_reparar (Suc f) t x)))))"
    using x(1,2) p(1,2,3,4) g(1,3,4) w(2) w(4)[symmetric] c(2) by (simp add: campos insere_reparar.simps(2)[of "Suc f" t x] del: insere_reparar.simps(2))
  then show ?thesis
    using fim_dir[OF R c(1) _ c(4,3,5,6,7,8) _ _ _ c(2) h A, of f] c by auto
qed

lemma passo_ed:
  assumes R: "rep t (plug (Nd w g (Nd (Nd l x r) p u)) k)"
    and c: "cor_de t x = red" "cor_de t p = red" "preta (cor_de t) w" "preta (cor_de t) u"
      "preta (cor_de t) l" "preta (cor_de t) r" "invc (cor_de t) l" "invc (cor_de t) r"
      "cinvc (cor_de t) (FE p u # FD w g # k)"
    and h: "invh (cor_de t) (plug (Nd w g (Nd (Nd l x r) p u)) k)"
    and A: "A = insert (raiz t) (set (ends (plug (Nd w g (Nd (Nd l x r) p u)) k)))"
  shows "\<exists>t' s'. insere_reparar (Suc (Suc f)) t x = Inr t' \<and> rep t' s' \<and>
        ends s' = ends (plug (Nd w g (Nd (Nd l x r) p u)) k) \<and> invh (cor_de t') s' \<and> invc2 (cor_de t') s' \<and>
        mesmos A t t'"
proof -
  note x = rep_no[of t l x r "FE p u # FD w g # k", simplified, OF R]
  note p = rep_no[of t "Nd l x r" p u "FD w g # k", simplified, OF R]
  note g = rep_no[of t w g "Nd (Nd l x r) p u" k, simplified, OF R]
  note w = rep_tio[of t "Nd l x r" "FE p u" "FD w g" k g w, simplified, OF R]
  have Rp: "rep t (plug (Nd (Nd l x r) p u) (FD w g # k))" using R by simp
  obtain t1 where t1: "RodarDireita t p = Inr t1" "rep t1 (plug (Nd w g (Nd l x (Nd r p u))) k)"
    "mesmos A t t1" "cor_de t1 = cor_de t"
    using RodarDireita_rep[OF Rp] A by auto
  have wb: "cor_de t (topo (nil t) w) = black" using c rep_cor_topo[OF R] by simp
  have eq: "insere_reparar (Suc (Suc f)) t x = bindr (rd pai t1 p) (\<lambda>p'.
           bindr (wr_cor t1 p' black) (\<lambda>t.
           bindr (rd pai t p') (\<lambda>g.
           bindr (wr_cor t g red) (\<lambda>t.
           bindr (RodarEsquerda t g) (\<lambda>t.
           insere_reparar (Suc f) t p)))))"
    using x(1,2) p(1,2,3,4) g(1,3,4) w(2) w(4)[symmetric] c(2) wb t1(1) by (simp add: campos insere_reparar.simps(2)[of "Suc f" t x] del: insere_reparar.simps(2))
  have h1: "invh (cor_de t) (plug (Nd w g (Nd l x (Nd r p u))) k)"
    using h c by (auto simp: invh_plug)
  have A1: "A = insert (raiz t1) (set (ends (plug (Nd w g (Nd l x (Nd r p u))) k)))"
    using A mesmosD(1)[OF t1(3)] by auto
  show ?thesis
    using fim_dir[OF t1(2), unfolded t1(4), OF c(2) _ c(5,3,6,4) c(8) _ c(7) _ _ c(1) h1 A1, of f] c mesmos_trans[OF t1(3)]
    unfolding eq by auto
qed

lemma sobe_dois:
  assumes R: "rep t (plug (Nd l x r) (q # q' # k))"
    and q: "q = FE p u \<or> q = FD u p" and q': "q' = FE g (Nd a y b) \<or> q' = FD (Nd a y b) g"
    and c: "cor_de t x = red" "preta (cor_de t) l" "preta (cor_de t) r" "invc (cor_de t) l" "invc (cor_de t) r"
      "cinvc (cor_de t) (q # q' # k)" "cbase (cor_de t) (q # q' # k)"
    and h: "invh (cor_de t) (plug (Nd l x r) (q # q' # k))"
    and A: "A = insert (raiz t) (set (ends (plug (Nd l x r) (q # q' # k))))"
    and pr: "cor_de t p = red" and yr: "cor_de t y = red" and ih: "insere_ok f" and f: "length k < f"
  shows "\<exists>t' s'. insere_reparar (Suc f) t x = Inr t' \<and> rep t' s' \<and>
        ends s' = ends (plug (Nd l x r) (q # q' # k)) \<and> invh (cor_de t') s' \<and>
        invc2 (cor_de t') s' \<and> mesmos A t t'"
proof -
  have np: "no_q q = p" "no_q q' = g" using q q' by auto
  note x = rep_no[OF R, unfolded cpai_no_q np]
  note p = rep_quadro[OF R, unfolded cpai_no_q np]
  have "rep t (plug (plug (Nd l x r) [q]) (q' # k))" using R rep_plug2 by blast
  note g = rep_quadro[OF this, unfolded np]
  note v = x(1,2) p(1-4,6) g(1-3)
  note tio = rep_tio[OF R q', unfolded np topo.simps]
  have "rep t (plug (Nd a y b) (FD (plug (Nd l x r) [q]) g # k)) \<or> rep t (plug (Nd a y b) (FE g (plug (Nd l x r) [q]) # k))"
    using q' R rep_plug2[of t "Nd l x r" q "q' # k"] by auto
  then have "y \<noteq> nil t" using rep_no(5) by blast
  note y = tio(2-5) this
  have gf: "esq_de t g = p \<and> dir_de t g = y \<or> esq_de t g = y \<and> dir_de t g = p"
    using tio(1) by auto
  obtain L D where L0: "plug (Nd l x r) [q, q'] = Nd L g D" using q q' by auto
  then have LD: "plug (Nd l x r) (q # q' # k) = plug (Nd L g D) k" using q q' by auto
  have d: "distinct (ends (plug (Nd l x r) (q # q' # k)))" using R by (simp add: rep_def)
  let ?t1 = "poe_cor (poe_cor (poe_cor t p black) y black) g red"
  have R1: "rep ?t1 (plug (Nd L g D) k)" "p \<in> A" "y \<in> A" "g \<in> A"
    using R v y q q' A by (auto simp add: rep_poe_cor campos LD[symmetric] simp del: plug.simps)
  have C: "cor_de ?t1 = (cor_de t)(p := black, y := black, g := red)" by (simp add: campos)
  have m: "mesmos A t ?t1"
    by (intro mesmos_trans[OF mesmos_trans[OF mesmos_poe_cor mesmos_poe_cor] mesmos_poe_cor])
      (simp_all add: campos v y R1)
  have gb: "cor_de t g = black" using c(6) pr q q' by auto
  have "\<exists>t' s'. insere_reparar f ?t1 g = Inr t' \<and> rep t' s' \<and>
        ends s' = ends (plug (Nd L g D) k) \<and> invh (cor_de t') s' \<and>
        invc2 (cor_de t') s' \<and> mesmos A ?t1 t'"
  proof (rule ih[unfolded insere_ok_def, rule_format, OF R1(1)])
    show "preta (cor_de ?t1) L" "preta (cor_de ?t1) D" "invc (cor_de ?t1) L" "invc (cor_de ?t1) D"
      "cinvc (cor_de ?t1) k" "cbase (cor_de ?t1) k" 
      using q q' L0 c d unfolding C by (elim disjE; clarsimp simp: cores_fora split: if_splits)+
    show "invh (cor_de ?t1) (plug (Nd L g D) k)"
      using q q' L0 c d h gb pr yr unfolding C by (elim disjE; clarsimp simp: cores_fora invh_plug)
  qed (use A f LD in \<open>simp_all add: campos\<close>)
  moreover have "insere_reparar (Suc f) t x = insere_reparar f ?t1 g"
    using gf v y pr yr by (auto simp add: campos)
  ultimately show ?thesis using mesmos_trans[OF m] LD by metis
qed

lemma insere_reparar_ok: "insere_ok f"
proof (induction f)
  case 0
  then show ?case by (simp add: insere_ok_def)
next
  case (Suc f)
  show ?case unfolding insere_ok_def
  proof (intro allI impI)
    fix t l x r k A
    assume R: "rep t (plug (Nd l x r) k)" 
      and c: "cor_de t x = red" "preta (cor_de t) l" "preta (cor_de t) r" "invc (cor_de t) l" "invc (cor_de t) r"
        "cinvc (cor_de t) k" "cbase (cor_de t) k"
      and h: "invh (cor_de t) (plug (Nd l x r) k)"
      and A: "A = insert (raiz t) (set (ends (plug (Nd l x r) k)))" and f: "length k < Suc f"
    note x = rep_no[OF R]
    note s = rep_sent[OF R]
    let ?C = "cor_de t"
    show "\<exists>t' s'. insere_reparar (Suc f) t x = Inr t' \<and> rep t' s' \<and> ends s' = ends (plug (Nd l x r) k) \<and>
        invh (cor_de t') s' \<and> invc2 (cor_de t') s' \<and> mesmos A t t'"
    proof (cases "cpreta ?C k")
      case True
      then have "?C (cpai (raiz t) k) = black" using cpreta_cpai s by blast
      moreover have "invc2 ?C (plug (Nd l x r) k)"
        using True c by (cases "k = []") (auto simp: invc_plug intro!: invc2I)
      ultimately show ?thesis using R x h by (intro exI[of _ t] exI[of _ "plug (Nd l x r) k"]) (simp add: campos)
    next
      case False
      then obtain q q' k' where k: "k = q # q' # k'" using dois_quadros c(7) by blast
      obtain u p where q: "q = FE p u \<or> q = FD u p" by (cases q) auto
      obtain w g where q': "q' = FE g w \<or> q' = FD w g" by (cases q') auto
      have pr: "?C p = red" using False k q by auto
      have f': "length k' < f" using f k by simp
      then obtain f0 where f0: "f = Suc f0" by (cases f) auto
      show ?thesis
      proof (cases "preta ?C w")
        case False
        then obtain a y b where w: "w = Nd a y b" "?C y = red" by (cases w) auto
        show ?thesis
          unfolding k by (rule sobe_dois[OF R[unfolded k] q q'[unfolded w] c(1-5) c(6-7)[unfolded k] h[unfolded k] A[unfolded k] pr w(2) Suc f'])
      next
        case True
        consider "q = FE p u" "q' = FE g w" | "q = FD u p" "q' = FE g w" | "q = FE p u" "q' = FD w g" | "q = FD u p" "q' = FD w g"
          using q q' by blast
        then show ?thesis
        proof cases
          case 1
          note u = R[unfolded k 1 plug.simps] h[unfolded k 1 plug.simps] A[unfolded k 1 plug.simps] c(6)[unfolded k 1]
          have "preta ?C u" using u(4) pr by auto
          then show ?thesis
            unfolding k 1 f0 plug.simps by (intro passo_ee[OF u(1) c(1) pr True _ c(2-5) u(4) u(2,3)])
        next
          case 2
          note u = R[unfolded k 2 plug.simps] h[unfolded k 2 plug.simps] A[unfolded k 2 plug.simps] c(6)[unfolded k 2]
          have "preta ?C u" using u(4) pr by auto
          then show ?thesis
            unfolding k 2 f0 plug.simps by (intro passo_de[OF u(1) c(1) pr True _ c(2-5) u(4) u(2,3)])
        next
          case 3
          note u = R[unfolded k 3 plug.simps] h[unfolded k 3 plug.simps] A[unfolded k 3 plug.simps] c(6)[unfolded k 3]
          have "preta ?C u" using u(4) pr by auto
          then show ?thesis
            unfolding k 3 f0 plug.simps by (intro passo_ed[OF u(1) c(1) pr True _ c(2-5) u(4) u(2,3)])
        next
          case 4
          note u = R[unfolded k 4 plug.simps] h[unfolded k 4 plug.simps] A[unfolded k 4 plug.simps] c(6)[unfolded k 4]
          have "preta ?C u" using u(4) pr by auto
          then show ?thesis
            unfolding k 4 f0 plug.simps by (intro passo_dd[OF u(1) c(1) pr True _ c(2-5) u(4) u(2,3)])
        qed
      qed
    qed
  qed
qed
section \<open>Well-formed trees\<close>

text \<open>
  The abstract view of a tree is the list of its items (key, thread id, thread) in key order;
  a new item goes behind all items with the same or a smaller key.
\<close>

fun fila_insere :: "int \<times> int \<times> addr \<Rightarrow> (int \<times> int \<times> addr) list \<Rightarrow> (int \<times> int \<times> addr) list" where
  "fila_insere x [] = [x]"
| "fila_insere x (y # ys) = (if fst y \<le> fst x then y # fila_insere x ys else x # y # ys)"

definition item :: "arvore_rb \<Rightarrow> addr \<Rightarrow> int \<times> int \<times> addr" where
  "item t a = (chave_de t a, tid_de t a, elem_de t a)"

definition itens :: "arvore_rb \<Rightarrow> forma \<Rightarrow> (int \<times> int \<times> addr) list" where
  "itens t s = map (item t) (ends s)"

definition rb :: "arvore_rb \<Rightarrow> forma \<Rightarrow> bool" where
  "rb t s \<longleftrightarrow>
     rep t s \<and> invh (cor_de t) s \<and> invc (cor_de t) s \<and> preta (cor_de t) s \<and>
     sorted (map (chave_de t) (ends s)) \<and> (\<forall>a \<in> set (ends s). chave_de t a \<noteq> -1) \<and>
     (if s = Lf then minimo t = NULL \<or> minimo t = raiz t else minimo t = hd (ends s))"

lemma comparar_1 [simp]: "comparar a b = 1 \<longleftrightarrow> a > b \<or> a = -1"
  by (simp add: comparar_def)

lemma nos_prox:
  assumes "rep t s"
  shows "length (ends s) + 2 < prox t"
proof -
  have sub: "set (nil t # raiz t # ends s) \<subseteq> vivos t"
    using assms arv_vivos rep_sent(2,3)[OF assms] by (auto simp: rep_def)
  moreover have "vivos t \<subseteq> {0<..<prox t}"
    using rep_sent(1)[OF assms] by (auto simp: sentinelas_def NULL_def)
  ultimately have "set (nil t # raiz t # ends s) \<subseteq> {0<..<prox t}" by blast
  then have "card (set (nil t # raiz t # ends s)) \<le> prox t - 1"
    using card_mono[of "{0<..<prox t}" "set (nil t # raiz t # ends s)"] by simp
  moreover have "distinct (nil t # raiz t # ends s)" using assms by (simp add: rep_def)
  then have "card (set (nil t # raiz t # ends s)) = length (ends s) + 2" by (simp add: distinct_card)
  moreover have "0 < prox t" using rep_sent(3,14)[OF assms] by force
  ultimately show ?thesis by simp
qed

lemma desce_ok:
  assumes "rep t (plug s k)" "length (ends s) < f" 
    and "\<forall>a \<in> set (ends s). chave_de t a \<noteq> -1" "sorted (map (chave_de t) (ends s))"
    and "\<forall>a \<in> set (esqs k). chave_de t a \<le> z" "\<forall>a \<in> set (dirs k). z < chave_de t a"
  shows "\<exists>k'. desce f t z (cpai (raiz t) k) (topo (nil t) s) = Inr (cpai (raiz t) k') \<and>
     plug Lf k' = plug s k \<and>
     (\<forall>a \<in> set (esqs k'). chave_de t a \<le> z) \<and> (\<forall>a \<in> set (dirs k'). z < chave_de t a)"
  using assms
proof (induction s arbitrary: k f)
  case Lf
  then obtain f' where "f = Suc f'" by (cases f) auto
  then show ?case using Lf by (intro exI[of _ k]) simp
next
  case (Nd l a r)
  then obtain f' where f: "f = Suc f'" by (cases f) auto
  note a = rep_no[OF Nd.prems(1)]
  show ?case
  proof (cases "z < chave_de t a")
    case True
    have "\<exists>k'. desce f' t z (cpai (raiz t) (FE a r # k)) (topo (nil t) l) = Inr (cpai (raiz t) k') \<and>
       plug Lf k' = plug l (FE a r # k) \<and>
       (\<forall>a \<in> set (esqs k'). chave_de t a \<le> z) \<and> (\<forall>a \<in> set (dirs k'). z < chave_de t a)"
      using Nd.prems True f by (intro Nd.IH(1)) (fastforce simp: sorted_append)+
    then show ?thesis using a True by (simp add: f campos)
  next
    case False
    have "\<exists>k'. desce f' t z (cpai (raiz t) (FD l a # k)) (topo (nil t) r) = Inr (cpai (raiz t) k') \<and>
       plug Lf k' = plug r (FD l a # k) \<and>
       (\<forall>a \<in> set (esqs k'). chave_de t a \<le> z) \<and> (\<forall>a \<in> set (dirs k'). z < chave_de t a)"
      using Nd.prems False f by (intro Nd.IH(2)) (fastforce simp: sorted_append)+
    then show ?thesis using a False Nd.prems(3) by (simp add: f campos)
  qed
qed

lemma ctx_liga:
  assumes "ctx t n k" "distinct (raiz t # esqs k @ dirs k)"
  shows "k = [] \<or> (\<exists>a r k'. k = FE a r # k') \<Longrightarrow> ctx (poe_esq t (cpai (raiz t) k) z) z k"
    "k = FD l a # k' \<Longrightarrow> ctx (poe_dir t (cpai (raiz t) k) z) z k"
  using assms by (auto simp: campos)

lemma InserirNoAux_ok:
  assumes R: "rep t s" and z: "z \<in> vivos t" "z \<notin> set (ends s)" "z \<noteq> nil t" "z \<noteq> raiz t"
    and "\<forall>a \<in> set (ends s). chave_de t a \<noteq> -1" "sorted (map (chave_de t) (ends s))"
  shows "\<exists>t' k. InserirNoAux t z = Inr t' \<and> rep t' (plug (Nd Lf z Lf) k) \<and> plug Lf k = s \<and>
     (\<forall>a \<in> set (esqs k). chave_de t a \<le> chave_de t z) \<and> (\<forall>a \<in> set (dirs k). chave_de t z < chave_de t a) \<and>
     mesmos (insert (raiz t) (insert z (set (ends s)))) t t' \<and> cor_de t' = cor_de t"
proof -
  let ?t1 = "poe_esq (poe_dir t z (nil t)) z (nil t)"
  have d: "distinct (nil t # raiz t # ends s)" using R by (simp add: rep_def)
  have R1: "rep ?t1 s"
    using R z by (simp add: rep_def sentinelas_def campos insert_absorb)
  have "length (ends s) < prox ?t1" using nos_prox[OF R1] by simp
  then obtain k where k: "desce (prox ?t1) ?t1 (chave_de t z) (raiz t) (topo (nil t) s) = Inr (cpai (raiz t) k)"
     "plug Lf k = s" "\<forall>a \<in> set (esqs k). chave_de t a \<le> chave_de t z" "\<forall>a \<in> set (dirs k). chave_de t z < chave_de t a"
    using desce_ok[of ?t1 s "[]" "prox ?t1" "chave_de t z"] R1 assms(6,7) by (auto simp: campos)
  have Rk: "rep ?t1 (plug Lf k)" using R1 k by simp
  define p where "p = cpai (raiz t) k"
  have s: "ends s = esqs k @ dirs k" using k(2) by (metis append_Nil ends.simps(1) ends_plug)
  have p: "p \<in> vivos t" "p \<noteq> z" "p \<in> insert (raiz t) (set (ends s))" "p \<noteq> nil t"
    using Rk z s d cpai_cases[of "raiz t" k] cpai_viva[of ?t1 "nil t" k]
    by (auto simp: p_def rep_plug campos insert_absorb)
  let ?t2 = "poe_pai ?t1 z p"
  let ?t3 = "if p = raiz t \<or> chave_de t p > chave_de t z \<or> chave_de t p = -1 then poe_esq ?t2 p z else poe_dir ?t2 p z"
  have r: "raiz t \<in> vivos t" "esq_de t (raiz t) = topo (nil t) s" using rep_sent[OF R] by auto
  have 1: "InserirNoAux t z = Inr ?t3"
    using k(1) by (simp add: InserirNoAux_def campos z z(4)[symmetric] r p(1,2) p(2)[symmetric] p_def[symmetric])
  have c2: "ctx ?t2 (nil t) k"
    using Rk z s d by (simp add: rep_plug campos)
  have dk: "distinct (raiz t # esqs k @ dirs k)" using s d by auto
  have rc: "chave_de t (raiz t) = -1" using rep_sent(1)[OF R] by (simp add: sentinelas_def)
  have c3: "ctx ?t3 z k"
  proof (cases "k = [] \<or> (\<exists>a r k'. k = FE a r # k')")
    case True
    then have "p = raiz t \<or> chave_de t p > chave_de t z" using k(4) p_def by auto
    then show ?thesis using ctx_liga(1)[of ?t2 "nil t" k z, OF c2 _ True] dk p_def by (auto simp: campos)
  next
    case False
    then obtain a l k' where kk: "k = FD l a # k'" by (metis neq_Nil_conv quadro.exhaust)
    then have "p \<in> set (ends s)" "\<not> chave_de t p > chave_de t z" using k(3) p_def s by auto
    then have "\<not> (p = raiz t \<or> chave_de t p > chave_de t z \<or> chave_de t p = -1)" using d assms(6) by auto
    then show ?thesis using ctx_liga(2)[of ?t2 "nil t" k l a k' z, OF c2 _ kk] dk p_def by (simp add: campos)
  qed
  have "arv ?t3 p (Nd Lf z Lf)" using z p by (simp add: campos)
  moreover have "sentinelas ?t3"
    using rep_sent(1)[OF R] z p c2 k(4) 
    by (cases k) (simp_all add: sentinelas_def campos insert_absorb p_def)
  ultimately have 2: "rep ?t3 (plug (Nd Lf z Lf) k)"
    using c3 dk z s d by (auto simp: rep_plug p_def campos)
  have 3: "mesmos (insert (raiz t) (insert z (set (ends s)))) t ?t3"
    using p z by (auto simp: mesmos_def campos insert_absorb)
  have 4: "cor_de ?t3 = cor_de t" by (auto simp: campos)
  show ?thesis using 1 2 3 4 k by blast
qed


lemma rep_CriarNo:
  assumes R: "rep t s" and a: "CriarNo t k e i c E D p = (a, t')"
  shows "rep t' s" "a = prox t" "a \<in> vivos t'" "a \<notin> set (ends s)" "a \<noteq> nil t'" "a \<noteq> raiz t'" "a \<notin> vivos t"
    "item t' a = (k, i, e)" "cor_de t' a = c" "\<And>b. b \<noteq> a \<Longrightarrow> cells t' b = cells t b" "raiz t' = raiz t"
    "nil t' = nil t" "minimo t' = minimo t" "libertados t' = libertados t" "prox t' = Suc (prox t)"
proof -
  note s = rep_sent[OF R]
  have t': "t' = t\<lparr>cells := (cells t)(prox t \<mapsto> \<lparr>chave = k, elem = e, tid = i, cor = c, pai = p, esq = E, dir = D\<rparr>),
      prox := Suc (prox t)\<rparr>" and a': "a = prox t"
    using a by (auto simp: CriarNo_def Let_def)
  have nv: "prox t \<notin> vivos t" using s(14) by blast
  have "NULL < prox t" using s(2,14) by (force simp: NULL_def)
  note nv = nv this
  have nr: "nil t' = nil t" "raiz t' = raiz t" "prox t' = Suc (prox t)" by (simp_all add: t')
  have v: "vivos t' = insert (prox t) (vivos t)" by (auto simp: vivos_def t')
  have fs: "chave_de t' b = chave_de t b" "elem_de t' b = elem_de t b" "cor_de t' b = cor_de t b" 
    "pai_de t' b = pai_de t b" "esq_de t' b = esq_de t b" "dir_de t' b = dir_de t b" if "b \<in> vivos t" for b
    using that nv by (auto simp: chave_de_def elem_de_def cor_de_def pai_de_def esq_de_def dir_de_def t')
  have arv: "arv t' q s = arv t q s" if "set (ends s) \<subseteq> vivos t" for q s
    using that by (induction s arbitrary: q) (auto simp: fs v nr)
  have "set (ends s) \<subseteq> vivos t" using R arv_vivos by (auto simp: rep_def)
  then show "rep t' s" "a \<notin> set (ends s)"
    using R fs s nv arv by (auto simp: rep_def sentinelas_def v a' nr less_Suc_eq)
  show "a = prox t" "a \<in> vivos t'" "a \<noteq> nil t'" "a \<noteq> raiz t'" "a \<notin> vivos t"
    "item t' a = (k, i, e)" "cor_de t' a = c" "\<And>b. b \<noteq> a \<Longrightarrow> cells t' b = cells t b" "raiz t' = raiz t"
    "nil t' = nil t" "minimo t' = minimo t" "libertados t' = libertados t" "prox t' = Suc (prox t)"
    using s(2,3) nv by (simp_all add: v a' nr) (auto simp: t' item_def chave_de_def tid_de_def elem_de_def cor_de_def)
qed

lemma fila_insere_meio:
  assumes "\<forall>y \<in> set xs. fst y \<le> fst x" "\<forall>y \<in> set ys. fst x < fst y"
  shows "fila_insere x (xs @ ys) = xs @ x # ys"
  using assms by (induction xs) (cases ys; auto)+

lemma length_ctx: "length k \<le> length (esqs k @ dirs k)"
  by (induction k rule: esqs.induct) auto

lemma pinta_raiz:
  assumes "invc2 C s" "invh C s" "distinct (ends s)"
  shows "invc (C(topo n s := black)) s" "invh (C(topo n s := black)) s" "preta (C(topo n s := black)) s"
  using assms by (cases s; auto simp: cores_fora)+

lemma cor_CriarNo:
  assumes "rep t s" "CriarNo t k e i c E D p = (a, t')"
  shows "cor_de t' = (cor_de t)(a := c)"
proof
  fix b
  have "cells t' b = cells t b" if "b \<noteq> a" using that by (intro rep_CriarNo(10)[OF assms])
  then show "cor_de t' b = ((cor_de t)(a := c)) b"
    using rep_CriarNo(9)[OF assms] by (simp add: cor_de_def)
qed

lemma item_cong: "mesmos A t t' \<Longrightarrow> item t' a = item t a"
  by (simp add: mesmos_def item_def)

lemma topo_mem: "s \<noteq> Lf \<Longrightarrow> topo n s \<in> set (ends s)"
  by (cases s) auto

lemma muda_minimo [simp]:
  "vivos (t\<lparr>minimo := m\<rparr>) = vivos t" "chave_de (t\<lparr>minimo := m\<rparr>) = chave_de t"
  "cor_de (t\<lparr>minimo := m\<rparr>) = cor_de t" "item (t\<lparr>minimo := m\<rparr>) = item t"
  "rep (t\<lparr>minimo := m\<rparr>) s = rep t s" "itens (t\<lparr>minimo := m\<rparr>) s = itens t s"
proof -
  show f: "vivos (t\<lparr>minimo := m\<rparr>) = vivos t" "chave_de (t\<lparr>minimo := m\<rparr>) = chave_de t"
    "cor_de (t\<lparr>minimo := m\<rparr>) = cor_de t" "item (t\<lparr>minimo := m\<rparr>) = item t"
    by (auto simp: vivos_def chave_de_def cor_de_def item_def tid_de_def elem_de_def fun_eq_iff)
  have g: "pai_de (t\<lparr>minimo := m\<rparr>) = pai_de t" "esq_de (t\<lparr>minimo := m\<rparr>) = esq_de t"
     "dir_de (t\<lparr>minimo := m\<rparr>) = dir_de t" "elem_de (t\<lparr>minimo := m\<rparr>) = elem_de t"
    by (auto simp: pai_de_def esq_de_def dir_de_def elem_de_def fun_eq_iff)
  have "arv (t\<lparr>minimo := m\<rparr>) p s = arv t p s" for p
    by (rule arv_cong) (simp_all add: f g)
  then show "rep (t\<lparr>minimo := m\<rparr>) s = rep t s" by (simp add: rep_def sentinelas_def f g)
  show "itens (t\<lparr>minimo := m\<rparr>) s = itens t s" by (simp add: itens_def f)
qed

lemma RBInserirNo_ok:
  assumes RB: "rb t s" and k: "k \<noteq> -1"
  shows "\<exists>t' s'. RBInserirNo t k i e = Inr t' \<and> rb t' s' \<and>
     itens t' s' = fila_insere (k, i, e) (itens t s) \<and> libertados t' = libertados t"
proof -
  have R: "rep t s" and h: "invh (cor_de t) s" and c: "invc (cor_de t) s" "preta (cor_de t) s"
    and o: "sorted (map (chave_de t) (ends s))" "\<forall>a \<in> set (ends s). chave_de t a \<noteq> -1"
    using RB by (auto simp: rb_def)
  obtain z t1 where z: "CriarNo t k e i red NULL NULL NULL = (z, t1)" by fastforce
  note n = rep_CriarNo[OF R z]
  have same: "item t1 b = item t b" "cor_de t1 b = cor_de t b" "chave_de t1 b = chave_de t b" if "b \<in> set (ends s)" for b
  proof -
    have "cells t1 b = cells t b" using n(4) that by (intro n(10)) auto
    then show "item t1 b = item t b" "cor_de t1 b = cor_de t b" "chave_de t1 b = chave_de t b"
      by (simp_all add: item_def chave_de_def tid_de_def elem_de_def cor_de_def)
  qed
  have zk: "chave_de t1 z = k" using n(8) by (simp add: item_def)
  have ks: "map (chave_de t1) (ends s) = map (chave_de t) (ends s)" using same by auto
  obtain t2 K where t2: "InserirNoAux t1 z = Inr t2" "rep t2 (plug (Nd Lf z Lf) K)" "plug Lf K = s"
    "\<forall>a \<in> set (esqs K). chave_de t1 a \<le> k" "\<forall>a \<in> set (dirs K). k < chave_de t1 a"
    "mesmos (insert (raiz t) (insert z (set (ends s)))) t1 t2" "cor_de t2 = cor_de t1"
    using InserirNoAux_ok[OF n(1,3,4,5,6)] o ks same zk n(11) by auto
  have e: "ends s = esqs K @ dirs K" using t2(3) by (metis append_Nil ends.simps(1) ends_plug)
  have zn: "z \<notin> set (esqs K)" "z \<notin> set (dirs K)" using n(4) e by auto
  have C2: "cor_de t2 = (cor_de t)(z := red)" using t2(7) cor_CriarNo[OF R z] by simp
  have cK: "cinvc (cor_de t) K" "cbase (cor_de t) K" "cinvh (cor_de t) 0 K"
    using c h t2(3) invc_plug[of "cor_de t" Lf K] invh_plug[of "cor_de t" Lf K] preta_plug[of "cor_de t" Lf K]
    by (auto split: if_splits)
  have px: "prox t2 = prox t1" "minimo t2 = minimo t1" "raiz t2 = raiz t1" "nil t2 = nil t1"
    using mesmosD(1-4)[OF t2(6)] by simp_all
  have "length K < prox t2" using nos_prox[OF n(1)] length_ctx[of K] e px by simp
  then obtain t3 s3 where t3: "insere_reparar (prox t2) t2 z = Inr t3" "rep t3 s3"
    "ends s3 = ends (plug (Nd Lf z Lf) K)" "invh (cor_de t3) s3" "invc2 (cor_de t3) s3"
    "mesmos (insert (raiz t2) (set (ends (plug (Nd Lf z Lf) K)))) t2 t3"
    using insere_reparar_ok[of "prox t2", unfolded insere_ok_def, rule_format, OF t2(2)] cK zn
    by (auto simp: C2 cores_fora invh_plug)
  have e3: "ends s3 = esqs K @ z # dirs K" using t3(3) by simp
  define r where "r = topo (nil t3) s3"
  have n3: "s3 \<noteq> Lf" by (rule notI) (use e3 in simp)
  have r: "r \<in> set (ends s3)" using topo_mem[OF n3] by (simp add: r_def)
  have rv: "r \<in> vivos t3" "r \<noteq> nil t3" "r \<noteq> raiz t3"
    using t3(2) r arv_vivos by (auto simp: rep_def)
  let ?t4 = "poe_cor t3 r black"
  have R4: "rep ?t4 s3" using t3(2) rv by (simp add: rep_poe_cor)
  have C4: "cor_de ?t4 = (cor_de t3)(r := black)" by (simp add: campos)
  have cores: "invc (cor_de ?t4) s3" "invh (cor_de ?t4) s3" "preta (cor_de ?t4) s3"
    using pinta_raiz[OF t3(5,4) rep_sent(9)[OF t3(2)], of "nil t3"] by (simp_all only: C4 r_def[symmetric])
  have it: "item ?t4 b = item t1 b" for b
    using item_cong[OF t2(6)] item_cong[OF t3(6)] by (simp add: item_def campos)
  then have ch: "chave_de ?t4 b = chave_de t1 b" for b by (simp add: item_def)
  have mi: "minimo ?t4 = minimo t" "raiz ?t4 = raiz t" "nil ?t4 = nil t" "libertados ?t4 = libertados t"
    using mesmosD(1-5)[OF t2(6)] mesmosD(1-5)[OF t3(6)] n(11-14) by (simp_all add: campos)
  have "rd esq t3 (raiz t3) = Inr r" using rep_sent(2,10)[OF t3(2)] by (simp add: r_def campos)
  then have run: "RBInserirNo t k i e =
      (if minimo ?t4 = NULL then Inr (?t4\<lparr>minimo := z\<rparr>)
       else bindr (rd chave ?t4 (minimo ?t4)) (\<lambda>km. bindr (rd chave ?t4 z) (\<lambda>kn.
           if comparar km kn = 1 then Inr (?t4\<lparr>minimo := z\<rparr>) else Inr ?t4)))"
    using z t2(1) t3(1) rv by (simp add: RBInserirNo_def campos)
  have ord: "sorted (map (chave_de ?t4) (ends s3))" "\<forall>a \<in> set (ends s3). chave_de ?t4 a \<noteq> -1"
    using o[folded ks] t2(4,5) zk k same unfolding e3 ch by (simp_all add: e sorted_append ball_Un less_imp_le)
  have fi: "fst (item t1 b) = chave_de t1 b" for b by (simp add: item_def)
  have it1: "map (item t1) (ends s) = map (item t) (ends s)" using same by auto
  have "itens ?t4 s3 = map (item t1) (esqs K) @ (k, i, e) # map (item t1) (dirs K)"
    by (simp add: itens_def e3 it n(8))
  also have "\<dots> = fila_insere (k, i, e) (map (item t1) (esqs K) @ map (item t1) (dirs K))"
    using t2(4,5) by (intro fila_insere_meio[symmetric]) (auto simp: fi)
  also have "\<dots> = fila_insere (k, i, e) (itens t s)"
    by (simp only: itens_def it1[symmetric] map_append[symmetric] e[symmetric])
  finally have itens: "itens ?t4 s3 = fila_insere (k, i, e) (itens t s)" .
  let ?res = "\<lambda>t'. rb t' s3 \<and> itens t' s3 = fila_insere (k, i, e) (itens t s) \<and> libertados t' = libertados t"
  have novo: "?res (?t4\<lparr>minimo := z\<rparr>)" if "esqs K = []"
    using that R4 cores ord itens mi n3 by (simp add: rb_def e3)
  have velho: "?res ?t4" if "esqs K \<noteq> []"
  proof -
    have "s \<noteq> Lf" using that e by auto
    then have "minimo t = hd (ends s3)" using RB that by (simp add: rb_def e e3)
    then show ?thesis using R4 cores ord itens mi n3 by (simp add: rb_def)
  qed
  have rdk: "rd chave ?t4 z = Inr k" "\<And>b. b \<in> vivos ?t4 \<Longrightarrow> rd chave ?t4 b = Inr (chave_de t1 b)"
    using arv_vivos[of ?t4 _ s3 z] R4 zk e3 by (auto simp: rep_def rd_campo ch)
  show ?thesis
  proof (cases "s = Lf")
    case True
    then have "esqs K = []" using e by simp
    moreover have "chave_de t1 (raiz t) = -1" "raiz t \<in> vivos ?t4"
      using rep_sent(1)[OF R4] mi ch by (simp_all add: sentinelas_def)
    ultimately have "RBInserirNo t k i e = Inr (?t4\<lparr>minimo := z\<rparr>)"
      unfolding run mi using RB True rdk by (auto simp: rb_def)
    then show ?thesis using novo[OF \<open>esqs K = []\<close>] by blast
  next
    case False
    define h where "h = hd (ends s)"
    have h: "minimo t = h" "h \<in> set (ends s)" "h \<in> vivos t"
    proof -
      have "ends s \<noteq> []" using False by (cases s) simp_all
      then show "h \<in> set (ends s)" by (simp add: h_def)
      then show "h \<in> vivos t" using R arv_vivos by (auto simp: rep_def)
      show "minimo t = h" using RB False by (simp add: rb_def h_def)
    qed
    then have hk: "chave_de t1 h \<noteq> -1" "h \<in> vivos ?t4" "h \<noteq> NULL"
      using o(2) same rep_sent(13)[OF R] arv_vivos[of ?t4 _ s3 h] R4 e e3 by (auto simp: rep_def)
    then have run2: "RBInserirNo t k i e = (if chave_de t1 h > k then Inr (?t4\<lparr>minimo := z\<rparr>) else Inr ?t4)"
      unfolding run mi h(1) by (simp add: rdk)
    show ?thesis
    proof (cases "esqs K")
      case Nil
      then have "h \<in> set (dirs K)" using h(2) e by simp
      then show ?thesis using t2(5) novo[OF Nil] run2 by auto
    next
      case (Cons a as)
      then have "h = a" using e by (simp add: h_def)
      then have "chave_de t1 h \<le> k" using t2(4) Cons by simp
      then show ?thesis using velho Cons run2 by auto
    qed
  qed
qed

section \<open>The tree as a container\<close>

lemma rb_nova: "rb RBNovaArvore Lf"
  by (simp add: rb_def rep_def sentinelas_def RBNovaArvore_def CriarNo_def memoria_vazia_def NULL_def
      vivos_def cor_de_def esq_de_def dir_de_def pai_de_def chave_de_def elem_de_def)

definition tem_itens :: "arvore_rb \<Rightarrow> (int \<times> int \<times> addr) list \<Rightarrow> bool" where
  "tem_itens t xs \<longleftrightarrow> (\<exists>s. rb t s \<and> itens t s = xs)"

lemma tem_itens_nova: "tem_itens RBNovaArvore []"
  using rb_nova by (auto simp: tem_itens_def itens_def)

interpretation arvore: deposito tem_itens "\<lambda>t (k, i, e). RBInserirNo t k i e" fila_insere "\<lambda>x _. fst x \<noteq> -1"
  by unfold_locales (use RBInserirNo_ok in \<open>fastforce simp: tem_itens_def\<close>)

end
