(* ===== verification/RedBlackLeitura.thy ===== *)
theory RedBlackLeitura
  imports RedBlackInsere "HOL-Library.Multiset"
begin

text \<open>
  The operations of redblack.c that only read a well-formed tree: the test for emptiness, the
  smallest key, the search by key and the search by thread id, each against the list of items.
\<close>

lemma rep_topo_vivo: "rep t (plug s k) \<Longrightarrow> topo (nil t) s \<in> vivos t"
  by (cases s) (auto simp: rep_plug sentinelas_def)

lemma rbD:
  assumes "rb t s"
  shows "rep t s" "sorted (map (chave_de t) (ends s))" "\<And>a. a \<in> set (ends s) \<Longrightarrow> chave_de t a \<noteq> -1"
    "s \<noteq> Lf \<Longrightarrow> minimo t = hd (ends s)" "s = Lf \<Longrightarrow> minimo t = NULL \<or> minimo t = raiz t"
  using assms by (auto simp: rb_def)

lemma itens_vazio: "itens t s = [] \<longleftrightarrow> s = Lf"
  by (cases s) (auto simp: itens_def)

lemma rep_raiz_topo: "rep t s \<Longrightarrow> rd esq t (raiz t) = Inr (topo (nil t) s)"
  using rep_sent(2,10)[of t s] by (simp add: campos)

lemma topo_nil: "rep t s \<Longrightarrow> topo (nil t) s = nil t \<longleftrightarrow> s = Lf"
  by (rule topo_notin) (auto simp: rep_def)

lemma RBArvoreVazia_ok: "rb t s \<Longrightarrow> RBArvoreVazia t = Inr (itens t s = [])"
  using rep_raiz_topo[of t s] topo_nil[of t s] rbD(1)[of t s] by (simp add: RBArvoreVazia_def itens_vazio)

lemma RBMenorChave_ok:
  assumes "rb t s"
  shows "RBMenorChave t = Inr (if itens t s \<noteq> [] then fst (hd (itens t s)) else if minimo t = NULL then 0 else -1)"
proof (cases s)
  case Lf
  then have "minimo t = NULL \<or> minimo t = raiz t" using rbD(5)[OF assms] by simp
  moreover have "raiz t \<in> vivos t" "raiz t \<noteq> NULL" "chave_de t (raiz t) = -1"
    using rep_sent(1)[OF rbD(1)[OF assms]] by (auto simp: sentinelas_def)
  ultimately show ?thesis using Lf by (auto simp: RBMenorChave_def RBMinimoArvore_def itens_def campos)
next
  case (Nd l a r)
  let ?m = "hd (ends s)"
  have m: "?m \<in> set (ends s)" by (rule hd_in_set) (simp add: Nd)
  have v: "?m \<in> vivos t" using rbD(1)[OF assms] m arv_vivos by (auto simp: rep_def)
  have n: "minimo t = ?m" using rbD(4)[OF assms] Nd by simp
  have "?m \<noteq> NULL" using v rep_sent(1)[OF rbD(1)[OF assms]] by (auto simp: sentinelas_def)
  moreover have "ends s \<noteq> []" by (simp add: Nd)
  then have "itens t s \<noteq> []" "fst (hd (itens t s)) = chave_de t ?m"
    by (simp_all add: itens_def hd_map item_def)
  ultimately show ?thesis using v n by (simp add: RBMenorChave_def RBMinimoArvore_def campos)
qed

text \<open>The search goes down one path.\<close>

definition achado :: "arvore_rb \<Rightarrow> int \<Rightarrow> addr set \<Rightarrow> addr \<Rightarrow> bool" where
  "achado t q A x \<longleftrightarrow> (if \<exists>a \<in> A. chave_de t a = q then x \<in> A \<and> chave_de t x = q else x = NULL)"

lemma achado_menos: "achado t q A x \<Longrightarrow> A \<subseteq> B \<Longrightarrow> (\<And>b. b \<in> B \<Longrightarrow> b \<notin> A \<Longrightarrow> chave_de t b \<noteq> q) \<Longrightarrow> achado t q B x"
  unfolding achado_def by (smt (verit, best) subset_iff)

lemma pesquisa_ok:
  assumes "rep t (plug s k)" "s \<noteq> Lf" "length (ends s) \<le> f"
    and "\<forall>a \<in> set (ends s). chave_de t a \<noteq> -1" "sorted (map (chave_de t) (ends s))"
  shows "\<exists>x. pesquisa_desce f t q (topo (nil t) s) = Inr x \<and> achado t q (set (ends s)) x"
  using assms
proof (induction s arbitrary: k f)
  case Lf
  then show ?case by simp
next
  case (Nd l a r)
  then obtain f' where f: "f = Suc f'" by (cases f) auto
  note a = rep_no[OF Nd.prems(1)]
  have nl: "topo (nil t) l = nil t \<longleftrightarrow> l = Lf" "topo (nil t) r = nil t \<longleftrightarrow> r = Lf"
    using Nd.prems(1) by (auto simp: rep_plug intro!: topo_notin)
  have so: "\<forall>b \<in> set (ends l). chave_de t b \<le> chave_de t a" "\<forall>b \<in> set (ends r). chave_de t a \<le> chave_de t b"
    using Nd.prems(5) by (auto simp: sorted_append)
  have ka: "chave_de t a \<noteq> -1" using Nd.prems(4) by simp
  consider (e) "chave_de t a = q" | (m) "chave_de t a > q" | (d) "chave_de t a < q" by linarith
  then show ?case
  proof cases
    case e
    then have "achado t q (set (ends (Nd l a r))) a" by (auto simp: achado_def)
    moreover have "pesquisa_desce f t q a = Inr a" using a e ka by (simp add: f campos comparar_def)
    ultimately show ?thesis by auto
  next
    case m
    have p: "pesquisa_desce f t q a = (if l = Lf then Inr NULL else pesquisa_desce f' t q (topo (nil t) l))"
      using a m nl by (simp add: f campos comparar_def)
    have "\<exists>x. (if l = Lf then Inr NULL else pesquisa_desce f' t q (topo (nil t) l)) = Inr x \<and> achado t q (set (ends l)) x"
    proof (cases "l = Lf")
      case False
      then show ?thesis
        using Nd.prems f Nd.IH(1)[of "FE a r # k" f'] by (simp add: sorted_append)
    qed (simp add: achado_def)
    then obtain x where "pesquisa_desce f t q a = Inr x" "achado t q (set (ends l)) x" using p by auto
    moreover then have "achado t q (set (ends (Nd l a r))) x"
      by (rule_tac achado_menos) (use so m in auto)
    ultimately show ?thesis by auto
  next
    case d
    have p: "pesquisa_desce f t q a = (if r = Lf then Inr NULL else pesquisa_desce f' t q (topo (nil t) r))"
      using a d nl ka by (simp add: f campos comparar_def)
    have "\<exists>x. (if r = Lf then Inr NULL else pesquisa_desce f' t q (topo (nil t) r)) = Inr x \<and> achado t q (set (ends r)) x"
    proof (cases "r = Lf")
      case False
      then show ?thesis
        using Nd.prems f Nd.IH(2)[of "FD l a # k" f'] by (simp add: sorted_append)
    qed (simp add: achado_def)
    then obtain x where "pesquisa_desce f t q a = Inr x" "achado t q (set (ends r)) x" using p by auto
    moreover then have "achado t q (set (ends (Nd l a r))) x"
      by (rule_tac achado_menos) (use so d in auto)
    ultimately show ?thesis by auto
  qed
qed

lemma PesquisaRB_ok:
  assumes "rb t s"
  shows "\<exists>x. PesquisaRB t q = Inr x \<and>
    (if q \<in> fst ` set (itens t s) then x \<in> set (ends s) \<and> chave_de t x = q else x = NULL)"
proof (cases "s = Lf")
  case True
  then show ?thesis using rep_raiz_topo[OF rbD(1)[OF assms]] by (simp add: PesquisaRB_def itens_def)
next
  case False
  have "length (ends s) \<le> prox t" using nos_prox[OF rbD(1)[OF assms]] by simp
  then obtain x where x: "pesquisa_desce (prox t) t q (topo (nil t) s) = Inr x" "achado t q (set (ends s)) x"
    using pesquisa_ok[of t s "[]" "prox t" q] rbD[OF assms] False by auto
  have "(q \<in> fst ` set (itens t s)) = (\<exists>a \<in> set (ends s). chave_de t a = q)"
    by (auto simp: itens_def item_def image_iff)
  then show ?thesis
    using x rep_raiz_topo[OF rbD(1)[OF assms]] topo_nil[OF rbD(1)[OF assms]] False
    by (simp add: PesquisaRB_def achado_def)
qed

lemma tid_aux_ok:
  assumes "rep t (plug s k)" "length (ends s) < f"
  shows "RBSearchTIDAUX f t (topo (nil t) s) i = Inr (i \<in> tid_de t ` set (ends s))"
  using assms
proof (induction s arbitrary: k f)
  case Lf
  then show ?case by (cases f) auto
next
  case (Nd l a r)
  then obtain f' where f: "f = Suc f'" by (cases f) auto
  note a = rep_no[OF Nd.prems(1)]
  have an: "a \<noteq> NULL" "a \<noteq> nil t" using a Nd.prems(1) by (auto simp: rep_plug sentinelas_def)
  have "RBSearchTIDAUX f' t (topo (nil t) l) i = Inr (i \<in> tid_de t ` set (ends l))"
    using Nd.prems f by (intro Nd.IH(1)[of "FE a r # k"]) auto
  moreover have "RBSearchTIDAUX f' t (topo (nil t) r) i = Inr (i \<in> tid_de t ` set (ends r))"
    using Nd.prems f by (intro Nd.IH(2)[of "FD l a # k"]) auto
  ultimately show ?case using a an by (auto simp: f campos)
qed

lemma RBSearchTID_ok:
  assumes "rb t s"
  shows "RBSearchTID t i = Inr (i \<in> (fst \<circ> snd) ` set (itens t s))"
proof -
  have "length (ends s) < prox t" using nos_prox[OF rbD(1)[OF assms]] by simp
  moreover have "(fst \<circ> snd) ` set (itens t s) = tid_de t ` set (ends s)"
    by (auto simp: itens_def item_def image_iff)
  ultimately show ?thesis
    using tid_aux_ok[of t s "[]" "prox t" i] rep_raiz_topo[OF rbD(1)[OF assms]] rbD(1)[OF assms]
    by (simp add: RBSearchTID_def)
qed

section \<open>Many insertions\<close>

text \<open>\<open>fila_insere\<close> puts an item behind the equal ones: it is one step of a stable sort by key.\<close>

lemma fila_insere_set: "set (fila_insere x xs) = insert x (set xs)"
  by (induction xs) auto

lemma fila_insere_ordem: "sorted (map fst xs) \<Longrightarrow> sorted (map fst (fila_insere x xs))"
  by (induction xs) (auto simp: fila_insere_set)

lemma fila_insere_filtro:
  "sorted (map fst xs) \<Longrightarrow> filter (\<lambda>y. fst y = k) (fila_insere x xs) =
     filter (\<lambda>y. fst y = k) xs @ (if fst x = k then [x] else [])"
proof (induction xs)
  case (Cons a xs)
  show ?case
  proof (cases "fst a \<le> fst x")
    case False
    then have "filter (\<lambda>y. fst y = fst x) (a # xs) = []" using Cons.prems by (auto simp: filter_empty_conv)
    then show ?thesis using False by auto
  qed (use Cons in auto)
qed simp

lemma fila_insere_mset: "mset (fila_insere x xs) = add_mset x (mset xs)"
  by (induction xs) auto

lemma fila_insere_sort_aux:
  "sorted (map fst xs) \<Longrightarrow> sorted (map fst (fold fila_insere zs xs)) \<and>
     mset (fold fila_insere zs xs) = mset xs + mset zs \<and>
     (\<forall>k. filter (\<lambda>y. fst y = k) (fold fila_insere zs xs) =
           filter (\<lambda>y. fst y = k) xs @ filter (\<lambda>y. fst y = k) zs)"
  by (induction zs arbitrary: xs) (auto simp: fila_insere_ordem fila_insere_filtro fila_insere_mset)

lemma fila_insere_sort: "fold fila_insere zs [] = sort_key fst zs"
proof (rule properties_for_sort_key[symmetric])
  show "mset (fold fila_insere zs []) = mset zs" using fila_insere_sort_aux[of "[]" zs] by simp
  show "sorted (map fst (fold fila_insere zs []))" using fila_insere_sort_aux[of "[]" zs] by simp
  fix y assume "y \<in> set (fold fila_insere zs [])"
  show "filter (\<lambda>x. fst y = fst x) (fold fila_insere zs []) = filter (\<lambda>x. fst y = fst x) zs"
    using fila_insere_sort_aux[of "[]" zs] by (simp add: eq_commute[of "fst y"])
qed

end
