(* ===== verification/RedBlackElimina.thy ===== *)
theory RedBlackElimina
  imports RedBlackLeitura
begin

text \<open>
  The repair loop of RBRemoverNo (\<open>elimina_reparar\<close>): a subtree that lacks one black node, the
  four cases of its sibling, and the end of the loop.  The path above the subtree is turned to
  the left, which is the case of the leftmost node; the mirror case is the same code with the
  sides exchanged and is not needed for RBExtraiMininimo.
\<close>

section \<open>The four cases\<close>

lemma pai_topo:
  assumes m: "mesmos A t t'" "nil t \<notin> A" and R: "rep t (plug s k)" "pai_de t (topo (nil t) s) = p"
    and R': "rep t' (plug s (q # k'))" "no_q q = p"
  shows "pai_de t' (topo (nil t) s) = p"
proof (cases s)
  case Lf
  have "cells t' (nil t) = cells t (nil t)" using mesmosD(10)[OF m] by blast
  then show ?thesis using R Lf by (simp add: pai_de_def)
next
  case (Nd l y d)
  then show ?thesis using R' rep_no(2)[of t' l y d "q # k'"] by (simp add: cpai_no_q)
qed

lemma passo1_esq:
  assumes R: "rep t (plug s (FE p (Nd a w b) # k))" and x: "x = topo (nil t) s" "cor_de t x = black"
      "pai_de t x = p" "r \<noteq> x"
    and w: "cor_de t w = red" "preta (cor_de t) a"
    and A: "A = insert (raiz t) (set (ends (plug s (FE p (Nd a w b) # k))))"
  shows "\<exists>t1. elimina_reparar (Suc f) t r x = elimina_reparar (Suc f) t1 r x \<and>
    rep t1 (plug s (FE p a # FE w b # k)) \<and> mesmos A t t1 \<and> pai_de t1 x = p \<and>
    cor_de t1 = (cor_de t)(w := black, p := red)"
proof -
  have R': "rep t (plug (Nd s p (Nd a w b)) k)" and Rw: "rep t (plug (Nd a w b) (FD s p # k))" using R by simp_all
  note p = rep_no[OF R'] and w' = rep_no[OF Rw, simplified]
  note s = rep_sent[OF R]
  let ?t1 = "poe_cor (poe_cor t w black) p red"
  have R1: "rep ?t1 (plug (Nd s p (Nd a w b)) k)"
    using R p w' by (simp add: rep_poe_cor campos)
  obtain t1 where t1: "RodarEsquerda ?t1 p = Inr t1" "rep t1 (plug (Nd (Nd s p a) w b) k)" 
    "mesmos A ?t1 t1" "cor_de t1 = cor_de ?t1"
    using RodarEsquerda_rep[OF R1] A by (auto simp: campos)
  have m: "mesmos A t ?t1" by (rule mesmos_trans[OF mesmos_poe_cor mesmos_poe_cor]) (use p w' A in \<open>auto simp: campos\<close>)
  have m1: "mesmos A t t1" by (rule mesmos_trans[OF m t1(3)])
  have nr: "nil t1 = nil t" "raiz t1 = raiz t" using mesmosD[OF m1] by auto
  have R2: "rep t1 (plug s (FE p a # FE w b # k))" using t1(2) by simp
  have px: "pai_de t1 x = p"
    using pai_topo[OF m1 _ R _ R2] s A x by auto
  have xv: "x \<in> vivos t" "x \<in> vivos t1" using rep_topo_vivo[OF R] rep_topo_vivo[OF R2] x nr by auto
  have C1: "cor_de t1 = (cor_de t)(w := black, p := red)" using t1(4) by (simp add: campos)
  have "rep t1 (plug (Nd s p a) (FE w b # k))" using t1(2) by simp
  note p1 = rep_no[OF this]
  have aw: "topo (nil t) a \<in> vivos t1" using rep_topo_vivo[of t1 a "FD s p # FE w b # k"] t1(2) nr by simp
  have d: "x \<noteq> w" "x \<noteq> p" "topo (nil t) a \<noteq> w" "topo (nil t) a \<noteq> p" "w \<noteq> p"
    using x w' p topo_in[of "nil t" s] topo_in[of "nil t" a] by auto
  have "cor_de t1 (topo (nil t) a) = black"
    using d w(2) rep_cor_topo[OF R, of a] by (simp add: C1)
  moreover have "cor_de t1 x = black" using x d C1 by simp
  ultimately have "elimina_reparar (Suc f) t r x = elimina_reparar (Suc f) t1 r x"
    using d x p(1-4) w'(1) xv px p1(1-4) nr aw w(1) t1(1) R2
    by (simp add: campos del: plug.simps)
  then show ?thesis using R2 m1 px C1 by blast
qed

lemma passo2_esq:
  assumes R: "rep t (plug s (FE p (Nd a w b) # k))" and x: "x = topo (nil t) s" "cor_de t x = black"
      "pai_de t x = p" "r \<noteq> x"
    and w: "cor_de t w = black" "preta (cor_de t) a" "preta (cor_de t) b"
    and A: "A = insert (raiz t) (set (ends (plug s (FE p (Nd a w b) # k))))"
  shows "elimina_reparar (Suc f) t r x = elimina_reparar f (poe_cor t w red) r p"
    "rep (poe_cor t w red) (plug (Nd s p (Nd a w b)) k)" "mesmos A t (poe_cor t w red)"
proof -
  have R': "rep t (plug (Nd s p (Nd a w b)) k)" and Rw: "rep t (plug (Nd a w b) (FD s p # k))" using R by simp_all
  note p = rep_no[OF R'] and w' = rep_no[OF Rw, simplified]
  show "rep (poe_cor t w red) (plug (Nd s p (Nd a w b)) k)" using R w' by (simp add: rep_poe_cor)
  show "mesmos A t (poe_cor t w red)" using w' A by (intro mesmos_poe_cor) auto
  have v: "x \<in> vivos t" "topo (nil t) a \<in> vivos t" "topo (nil t) b \<in> vivos t"
    using rep_topo_vivo[OF R] rep_topo_vivo[of t a "FE w b # FD s p # k"] rep_topo_vivo[of t b "FD a w # FD s p # k"] R x by simp_all
  have "cor_de t (topo (nil t) a) = black" "cor_de t (topo (nil t) b) = black"
    using w rep_cor_topo[OF R] by simp_all
  then show "elimina_reparar (Suc f) t r x = elimina_reparar f (poe_cor t w red) r p"
    using x p(1-4) w'(1-4) v w(1) by (simp add: campos del: plug.simps)
qed

lemma passo3_esq:
  assumes R: "rep t (plug s (FE p (Nd (Nd a v c) w b) # k))" and x: "x = topo (nil t) s" "cor_de t x = black"
      "pai_de t x = p" "r \<noteq> x"
    and w: "cor_de t w = black" "preta (cor_de t) b" "cor_de t v = red"
    and A: "A = insert (raiz t) (set (ends (plug s (FE p (Nd (Nd a v c) w b) # k))))"
  shows "\<exists>t1. elimina_reparar (Suc f) t r x = elimina_reparar (Suc f) t1 r x \<and>
    rep t1 (plug s (FE p (Nd a v (Nd c w b)) # k)) \<and> mesmos A t t1 \<and> pai_de t1 x = p \<and>
    cor_de t1 = (cor_de t)(v := black, w := red)"
proof -
  have Rp: "rep t (plug (Nd s p (Nd (Nd a v c) w b)) k)" and Rw: "rep t (plug (Nd (Nd a v c) w b) (FD s p # k))"
    and Rv: "rep t (plug (Nd a v c) (FE w b # FD s p # k))" and Rb: "rep t (plug b (FD (Nd a v c) w # FD s p # k))" using R by simp_all
  note p = rep_no[OF Rp] and w' = rep_no[OF Rw, simplified] and v' = rep_no[OF Rv, simplified] 
  note s = rep_sent[OF R]
  let ?t1 = "poe_cor (poe_cor t v black) w red"
  have R1: "rep ?t1 (plug (Nd (Nd a v c) w b) (FD s p # k))"
    using R v' w' by (simp add: rep_poe_cor campos)
  obtain t1 where t1: "RodarDireita ?t1 w = Inr t1" "rep t1 (plug (Nd a v (Nd c w b)) (FD s p # k))" 
    "mesmos A ?t1 t1" "cor_de t1 = cor_de ?t1"
    using RodarDireita_rep[OF R1] A by (auto simp: campos)
  have m: "mesmos A t ?t1" by (rule mesmos_trans[OF mesmos_poe_cor mesmos_poe_cor]) (use v' w' A in \<open>auto simp: campos\<close>)
  have m1: "mesmos A t t1" by (rule mesmos_trans[OF m t1(3)])
  have nr: "nil t1 = nil t" "raiz t1 = raiz t" using mesmosD[OF m1] by auto
  have R2: "rep t1 (plug s (FE p (Nd a v (Nd c w b)) # k))" using t1(2) by simp
  have px: "pai_de t1 x = p"
    using pai_topo[OF m1 _ R _ R2] s A x by auto
  have xv: "x \<in> vivos t" "x \<in> vivos t1" "topo (nil t) b \<in> vivos t"
    using rep_topo_vivo[OF R] rep_topo_vivo[OF R2] rep_topo_vivo[OF Rb] x nr by auto
  have C1: "cor_de t1 = (cor_de t)(v := black, w := red)" using t1(4) by (simp add: campos)
  have "rep t1 (plug (Nd s p (Nd a v (Nd c w b))) k)" "rep t1 (plug (Nd c w b) (FD a v # FD s p # k))" using t1(2) by simp_all
  note p1 = rep_no[OF this(1)] and w1 = rep_no[OF this(2), simplified] and v1 = rep_no[OF t1(2), simplified]
  have aw: "topo (nil t) a \<in> vivos t1" using rep_topo_vivo[of t1 a "FE v (Nd c w b) # FD s p # k"] t1(2) nr by simp
  have d: "x \<noteq> w" "x \<noteq> v" "w \<noteq> v" "topo (nil t) a \<noteq> v" "topo (nil t) a \<noteq> w"
    using x w' v' topo_in[of "nil t" s] topo_in[of "nil t" a] by auto
  have "cor_de t (topo (nil t) b) = black" using w rep_cor_topo[OF R] by simp
  moreover have "cor_de t1 x = black" "cor_de t1 v = black" "cor_de t1 w = red" using x d C1 by simp_all
  ultimately have "elimina_reparar (Suc f) t r x = elimina_reparar (Suc f) t1 r x"
    using d x p(1-4) w'(1-4) v'(1) xv px p1(1-4) v1(1-4) w1(1) nr w t1(1) aw
    by (simp add: campos del: plug.simps)
  then show ?thesis using R2 m1 px C1 by blast
qed

lemma passo4_esq:
  assumes R: "rep t (plug s (FE p (Nd a w (Nd b u c)) # k))" and x: "x = topo (nil t) s" "cor_de t x = black"
      "pai_de t x = p" "r \<noteq> x"
    and w: "cor_de t w = black" "cor_de t u = red"
    and A: "A = insert (raiz t) (set (ends (plug s (FE p (Nd a w (Nd b u c)) # k))))"
  shows "\<exists>t1. elimina_reparar (Suc f) t r x = elimina_reparar f t1 r r \<and>
    rep t1 (plug (Nd (Nd s p a) w (Nd b u c)) k) \<and> mesmos A t t1 \<and>
    cor_de t1 = (cor_de t)(w := cor_de t p, p := black, u := black)"
proof -
  have Rp: "rep t (plug (Nd s p (Nd a w (Nd b u c))) k)" and Rw: "rep t (plug (Nd a w (Nd b u c)) (FD s p # k))"
    and Ru: "rep t (plug (Nd b u c) (FD a w # FD s p # k))" and Ra: "rep t (plug a (FE w (Nd b u c) # FD s p # k))" using R by simp_all
  note p = rep_no[OF Rp] and w' = rep_no[OF Rw, simplified] and u' = rep_no[OF Ru, simplified] 
  let ?t1 = "poe_cor (poe_cor (poe_cor t w (cor_de t p)) p black) u black"
  have R1: "rep ?t1 (plug (Nd s p (Nd a w (Nd b u c))) k)"
    using R p w' u' by (simp add: rep_poe_cor campos)
  obtain t1 where t1: "RodarEsquerda ?t1 p = Inr t1" "rep t1 (plug (Nd (Nd s p a) w (Nd b u c)) k)" 
    "mesmos A ?t1 t1" "cor_de t1 = cor_de ?t1"
    using RodarEsquerda_rep[OF R1] A by (auto simp: campos)
  have m: "mesmos A t ?t1" by (rule mesmos_trans[OF mesmos_trans[OF mesmos_poe_cor mesmos_poe_cor] mesmos_poe_cor])
     (use p u' w' A in \<open>auto simp: campos\<close>)
  have m1: "mesmos A t t1" by (rule mesmos_trans[OF m t1(3)])
  have xv: "x \<in> vivos t" "topo (nil t) a \<in> vivos t"
    using rep_topo_vivo[OF R] rep_topo_vivo[OF Ra] x by auto
  have C1: "cor_de t1 = (cor_de t)(w := cor_de t p, p := black, u := black)" using t1(4) by (simp add: campos)
  have d: "p \<noteq> w" "p \<noteq> u" "w \<noteq> u" using p w' u' by auto
  have "elimina_reparar (Suc f) t r x = elimina_reparar f t1 r r"
    using d d[symmetric] x p(1-4) w'(1-4) u'(1) xv w t1(1)
    by (simp add: campos del: plug.simps)
  then show ?thesis using t1(2) m1 C1 by blast
qed
declare elimina_reparar.simps(2) [simp del]

section \<open>Congruence of the colour invariants\<close>

lemma cores_igual:
  assumes "\<And>y. y \<in> set (ends s) \<Longrightarrow> C' y = C y"
  shows "preta C' s = preta C s" "bh C' s = bh C s" "invh C' s = invh C s" "invc C' s = invc C s"
proof -
  show "preta C' s = preta C s" using assms by (cases s) auto
  have p: "preta C' u = preta C u" if "\<And>y. y \<in> set (ends u) \<Longrightarrow> C' y = C y" for u using that by (cases u) auto
  show "bh C' s = bh C s" using assms by (induction s) auto
  have b: "bh C' u = bh C u" if "\<And>y. y \<in> set (ends u) \<Longrightarrow> C' y = C y" for u using that by (induction u) auto
  show "invh C' s = invh C s" using assms by (induction s) (auto simp: b)
  show "invc C' s = invc C s" using assms by (induction s) (auto simp: p)
qed

lemma ctx_igual:
  assumes "\<And>y. y \<in> set (esqs k) \<union> set (dirs k) \<Longrightarrow> C' y = C y"
  shows "cinvh C' n k = cinvh C n k" "cpreta C' k = cpreta C k" "cinvc C' k = cinvc C k" "cbase C' k = cbase C k"
proof -
  note c = cores_igual[of _ C' C]
  show "cinvh C' n k = cinvh C n k" using assms
  proof (induction k arbitrary: n)
    case (Cons q k)
    have "cinvh C' m k = cinvh C m k" for m using Cons by (cases q) auto
    then show ?case using Cons.prems by (cases q) (simp_all add: c)
  qed simp
  have p: "cpreta C' j = cpreta C j" if "\<And>y. y \<in> set (esqs j) \<union> set (dirs j) \<Longrightarrow> C' y = C y" for j
    using that by (cases "(C, j)" rule: cpreta.cases) auto
  show "cpreta C' k = cpreta C k" using p assms by blast
  show "cinvc C' k = cinvc C k" using assms
  proof (induction k)
    case (Cons q k)
    have "cinvc C' k = cinvc C k" "cpreta C' k = cpreta C k" using Cons p[of k] by (cases q; auto)+
    then show ?case using Cons.prems by (cases q) (simp_all add: c)
  qed simp
  show "cbase C' k = cbase C k" using assms
  proof (induction k)
    case (Cons q k)
    then show ?case by (cases q) auto
  qed simp
qed

lemma topo_plug: "k \<noteq> [] \<Longrightarrow> topo n (plug s k) = no_q (last k)"
proof (induction k arbitrary: s)
  case (Cons q k)
  then show ?case by (cases q; cases k) auto
qed simp

lemma no_q_in: "q \<in> set k \<Longrightarrow> no_q q \<in> set (esqs k) \<union> set (dirs k)"
proof (induction k)
  case (Cons q' k)
  then show ?case by (cases q') auto
qed simp

section \<open>The end of the loop\<close>

definition fim_el :: "arvore_rb \<Rightarrow> addr set \<Rightarrow> addr list \<Rightarrow> (addr \<times> arvore_rb) res \<Rightarrow> bool" where
  "fim_el t A E m \<longleftrightarrow> (\<exists>t' x s'. m = Inr (x, t') \<and> rep t' s' \<and> ends s' = E \<and> mesmos A t t' \<and>
     x \<in> insert (nil t') (set E) \<and> invh ((cor_de t')(x := black)) s' \<and> invc ((cor_de t')(x := black)) s' \<and>
     preta ((cor_de t')(x := black)) s')"

lemma fim_elI:
  assumes "m = Inr (x, t')" "rep t' s'" "ends s' = E" "mesmos A t t'" "x \<in> insert (nil t') (set E)"
    "invh ((cor_de t')(x := black)) s'" "invc ((cor_de t')(x := black)) s'" "preta ((cor_de t')(x := black)) s'"
  shows "fim_el t A E m"
  using assms unfolding fim_el_def by blast

lemma para: "cor_de t x = red \<or> r = x \<Longrightarrow> x \<in> vivos t \<Longrightarrow> elimina_reparar (Suc f) t r x = Inr (x, t)"
  by (auto simp: campos elimina_reparar.simps(2))

text \<open>The node is red: painting it pays the missing black.\<close>

lemma fim_vermelho:
  assumes R: "rep t (plug s k)" "x = topo (nil t) s" "cor_de t x = red"
    and i: "invh (cor_de t) s" "cinvh (cor_de t) (Suc (bh (cor_de t) s)) k"
      "invc ((cor_de t)(x := black)) s" "cinvc (cor_de t) k" "cbase (cor_de t) k"
    and m: "mesmos A t0 t" "f > 0"
  shows "fim_el t0 A (ends (plug s k)) (elimina_reparar f t r x)"
proof -
  obtain g where f: "f = Suc g" using m(2) gr0_implies_Suc by blast
  have "s \<noteq> Lf" using R rep_sent(5)[OF R(1)] by auto
  then obtain a b where s: "s = Nd a x b" using R(2) by (cases s) auto
  note n = rep_no[OF R(1)[unfolded s]]
  let ?C = "(cor_de t)(x := black)"
  have d: "x \<notin> set (ends a)" "x \<notin> set (ends b)" "x \<notin> set (esqs k)" "x \<notin> set (dirs k)" using n by auto
  show ?thesis
  proof (rule fim_elI[OF _ R(1) refl m(1)])
    show "elimina_reparar f t r x = Inr (x, t)" using para n(1) R(3) f by blast
    show "invh ?C (plug s k)" using i(1,2) d R(3) s by (auto simp: invh_plug cores_fora)
    show "invc ?C (plug s k)" using i(3,4) d s by (auto simp: invc_plug cores_fora)
    show "preta ?C (plug s k)" using i(5) d s by (auto simp: preta_plug cores_fora)
  qed (use s in auto)
qed

text \<open>The node is the root: the missing black is missing on every path.\<close>

lemma fim_raiz:
  assumes R: "rep t s" "x = topo (nil t) s"
    and i: "invh (cor_de t) s" "invc ((cor_de t)(x := black)) s"
    and m: "mesmos A t0 t" "f > 0"
  shows "fim_el t0 A (ends s) (elimina_reparar f t x x)"
proof -
  obtain g where f: "f = Suc g" using m(2) gr0_implies_Suc by blast
  have v: "x \<in> vivos t" "x \<in> insert (nil t) (set (ends s))" using rep_topo_vivo[of t s "[]"] R by (auto, cases s) auto
  have d: "distinct (ends s)" using R rep_sent by blast
  show ?thesis
  proof (rule fim_elI[OF _ R(1) refl m(1) v(2) _ i(2)])
    show "elimina_reparar f t x x = Inr (x, t)" using para v f by blast
    show "invh ((cor_de t)(x := black)) s" "preta ((cor_de t)(x := black)) s" using i R(2) d by (cases s; auto simp: cores_fora)+
  qed
qed

section \<open>One round with a black sibling\<close>

definition sobe_el :: "arvore_rb \<Rightarrow> addr set \<Rightarrow> nat \<Rightarrow> addr \<Rightarrow> addr \<Rightarrow> forma \<Rightarrow> addr \<Rightarrow> forma \<Rightarrow> addr \<Rightarrow> forma \<Rightarrow> quadro list \<Rightarrow> bool" where
  "sobe_el t A f r x s p a w b k \<longleftrightarrow> (\<exists>t1. elimina_reparar (Suc f) t r x = elimina_reparar f t1 r p \<and>
     rep t1 (plug (Nd s p (Nd a w b)) k) \<and> mesmos A t t1 \<and> cor_de t1 = (cor_de t)(w := red) \<and>
     preta (cor_de t) a \<and> preta (cor_de t) b)"

definition fecha_el :: "arvore_rb \<Rightarrow> addr set \<Rightarrow> nat \<Rightarrow> addr \<Rightarrow> addr \<Rightarrow> forma \<Rightarrow> addr \<Rightarrow> forma \<Rightarrow> quadro list \<Rightarrow> bool" where
  "fecha_el t A f r x s p u k \<longleftrightarrow> (\<exists>t1 l1 w1 r1. elimina_reparar (Suc f) t r x = elimina_reparar f t1 r r \<and>
     rep t1 (plug (Nd l1 w1 r1) k) \<and> mesmos A t t1 \<and> ends (Nd l1 w1 r1) = ends s @ p # ends u \<and>
     cor_de t1 w1 = cor_de t p \<and> cor_de t1 p = black \<and> preta (cor_de t1) l1 \<and> preta (cor_de t1) r1 \<and>
     invc (cor_de t1) l1 \<and> invc (cor_de t1) r1 \<and> invh (cor_de t1) (Nd l1 w1 r1) \<and>
     bh (cor_de t1) l1 = Suc (bh (cor_de t) s) \<and>
     (\<forall>y. y \<notin> set (ends s @ p # ends u) \<longrightarrow> cor_de t1 y = cor_de t y))"

lemma caso4_esq:
  assumes R: "rep t (plug s (FE p (Nd a w (Nd b u c)) # k))" and x: "x = topo (nil t) s" "cor_de t x = black"
      "pai_de t x = p" "r \<noteq> x"
    and w: "cor_de t w = black" "cor_de t u = red"
    and i: "invh (cor_de t) s" "invh (cor_de t) (Nd a w (Nd b u c))" "bh (cor_de t) (Nd a w (Nd b u c)) = Suc (bh (cor_de t) s)"
      "invc (cor_de t) s" "invc (cor_de t) (Nd a w (Nd b u c))"
    and A: "A = insert (raiz t) (set (ends (plug s (FE p (Nd a w (Nd b u c)) # k))))"
  shows "fecha_el t A f r x s p (Nd a w (Nd b u c)) k"
proof -
  obtain t1 where t1: "elimina_reparar (Suc f) t r x = elimina_reparar f t1 r r"
    "rep t1 (plug (Nd (Nd s p a) w (Nd b u c)) k)" "mesmos A t t1"
    "cor_de t1 = (cor_de t)(w := cor_de t p, p := black, u := black)"
    using passo4_esq[OF R x w A] by blast
  have d: "distinct (ends s @ p # ends (Nd a w (Nd b u c)))" using rep_sent(9)[OF R] by auto
  show ?thesis unfolding fecha_el_def
    by (rule exI[of _ t1], rule exI[of _ "Nd s p a"], rule exI[of _ w], rule exI[of _ "Nd b u c"])
       (use t1 d i w in \<open>auto simp: cores_fora\<close>)
qed

lemma irmao_preto:
  assumes R: "rep t (plug s (FE p (Nd a w b) # k))" and x: "x = topo (nil t) s" "cor_de t x = black"
      "pai_de t x = p" "r \<noteq> x"
    and w: "cor_de t w = black"
    and i: "invh (cor_de t) s" "invh (cor_de t) (Nd a w b)" "bh (cor_de t) (Nd a w b) = Suc (bh (cor_de t) s)"
      "invc (cor_de t) s" "invc (cor_de t) (Nd a w b)"
    and A: "A = insert (raiz t) (set (ends (plug s (FE p (Nd a w b) # k))))"
  shows "sobe_el t A f r x s p a w b k \<or> fecha_el t A f r x s p (Nd a w b) k"
proof -
  consider "preta (cor_de t) a" "preta (cor_de t) b" | "\<not> preta (cor_de t) b" | "preta (cor_de t) b" "\<not> preta (cor_de t) a"
    by blast
  then show ?thesis
  proof cases
    case 1
    then show ?thesis using passo2_esq[OF R x w 1 A] by (auto simp: sobe_el_def campos)
  next
    case 2
    then obtain b1 u c1 where b: "b = Nd b1 u c1" "cor_de t u = red" by (cases b) auto
    show ?thesis using caso4_esq[OF R[unfolded b] x w b(2) i(1) i(2,3)[unfolded b] i(4) i(5)[unfolded b] A[unfolded b]] b(1) by simp
  next
    case 3
    then obtain a1 v c1 where a: "a = Nd a1 v c1" "cor_de t v = red" by (cases a) auto
    obtain t1 where t1: "elimina_reparar (Suc f) t r x = elimina_reparar (Suc f) t1 r x"
      "rep t1 (plug s (FE p (Nd a1 v (Nd c1 w b)) # k))" "mesmos A t t1" "pai_de t1 x = p"
      "cor_de t1 = (cor_de t)(v := black, w := red)"
      using passo3_esq[OF R[unfolded a] x w 3(1) a(2) A[unfolded a]] by blast
    have nr: "nil t1 = nil t" "raiz t1 = raiz t" using mesmosD[OF t1(3)] by auto
    have d: "distinct (ends s @ p # ends (Nd (Nd a1 v c1) w b))" using rep_sent(9)[OF R] a by auto
    have dx: "x \<noteq> v" "x \<noteq> w"
      using x(1) d rep_sent(6)[OF R] a by (cases s; auto)+
    let ?C = "cor_de t1"
    have "fecha_el t1 A f r x s p (Nd a1 v (Nd c1 w b)) k"
    proof (rule caso4_esq[OF t1(2)])
      show "x = topo (nil t1) s" "cor_de t1 x = black" "pai_de t1 x = p" "r \<noteq> x" "cor_de t1 v = black" "cor_de t1 w = red"
        using x nr t1(4,5) dx d by auto
      show "invh ?C s" "invc ?C s" using i d by (auto simp: t1(5) cores_fora)
      show "invh ?C (Nd a1 v (Nd c1 w b))" "invc ?C (Nd a1 v (Nd c1 w b))"
        "bh ?C (Nd a1 v (Nd c1 w b)) = Suc (bh ?C s)"
        using i d a 3 w by (auto simp: t1(5) cores_fora)
      show "A = insert (raiz t1) (set (ends (plug s (FE p (Nd a1 v (Nd c1 w b)) # k))))" using A a nr by auto
    qed
    moreover have "bh ?C s = bh (cor_de t) s" using d by (auto simp: t1(5) cores_fora)
    moreover have "?C p = cor_de t p" using d by (simp add: t1(5))
    moreover have "\<forall>y. y \<notin> set (ends s @ p # ends (Nd a w b)) \<longrightarrow> ?C y = cor_de t y" using a by (simp add: t1(5))
    ultimately have "fecha_el t A f r x s p (Nd a w b) k"
      using t1(1) mesmos_trans[OF t1(3)] a unfolding fecha_el_def by simp blast
    then show ?thesis by simp
  qed
qed


section \<open>The loop\<close>

text \<open>The rest of the path is turned to the left, as it is for the leftmost node.\<close>

definition so_esq :: "quadro list \<Rightarrow> bool" where
  "so_esq k \<longleftrightarrow> (\<forall>q \<in> set k. \<exists>a r. q = FE a r)"

lemma fecha_fim:
  assumes F: "fecha_el t A f r x s p u k"
    and k: "cinvh (cor_de t) (Suc (bh (cor_de t) s) + (if cor_de t p = black then 1 else 0)) k"
      "cinvc (cor_de t) k" "cbase (cor_de t) k" "cor_de t p = red \<longrightarrow> cpreta (cor_de t) k" "k = [] \<longrightarrow> cor_de t p = black"
    and r: "r = p \<or> r \<notin> set (ends s @ p # ends u) \<and> cor_de t r = black"
    and v: "r \<in> vivos t" "r \<in> set (ends (plug (Nd s p u) k))" and d: "distinct (ends (plug (Nd s p u) k))"
    and m: "mesmos A t0 t" "f > 0"
  shows "fim_el t0 A (ends (plug (Nd s p u) k)) (elimina_reparar (Suc f) t r x)"
proof -
  obtain t1 l1 w1 r1 where t1: "elimina_reparar (Suc f) t r x = elimina_reparar f t1 r r"
     "rep t1 (plug (Nd l1 w1 r1) k)" "mesmos A t t1" "ends (Nd l1 w1 r1) = ends s @ p # ends u"
     "cor_de t1 w1 = cor_de t p" "cor_de t1 p = black" "preta (cor_de t1) l1" "preta (cor_de t1) r1"
     "invc (cor_de t1) l1" "invc (cor_de t1) r1" "invh (cor_de t1) (Nd l1 w1 r1)"
     "bh (cor_de t1) l1 = Suc (bh (cor_de t) s)"
     "\<And>y. y \<notin> set (ends s @ p # ends u) \<Longrightarrow> cor_de t1 y = cor_de t y"
    using F unfolding fecha_el_def by blast
  let ?C = "cor_de t1"
  obtain g where f: "f = Suc g" using m(2) gr0_implies_Suc by blast
  have fora: "?C y = cor_de t y" if "y \<in> set (esqs k) \<union> set (dirs k)" for y
    using t1(13)[of y] that d by auto
  note kk = ctx_igual[of k ?C "cor_de t", OF fora]
  have rb: "?C r = black" using r t1(6,13) by auto
  have "?C(r := black) = ?C" using rb by (simp add: fun_upd_idem)
  moreover have "invh ?C (plug (Nd l1 w1 r1) k)" using t1(5,11,12) k(1) kk(1) by (auto simp: invh_plug)
  moreover have "invc ?C (plug (Nd l1 w1 r1) k)" using t1(5,7-10) k(2,4) kk(2,3) by (auto simp: invc_plug)
  moreover have "preta ?C (plug (Nd l1 w1 r1) k)" using t1(5) k(3,5) kk(4) by (auto simp: preta_plug)
  moreover have "ends (plug (Nd l1 w1 r1) k) = ends (plug (Nd s p u) k)" using t1(4) by simp
  moreover have "r \<in> vivos t1" "r \<in> set (ends (plug (Nd s p u) k))" using v mesmosD[OF t1(3)] by auto
  ultimately show ?thesis
    using para[of t1 r r g] t1(1) f by (intro fim_elI[OF _ t1(2) _ mesmos_trans[OF m(1) t1(3)], of _ r]) auto
qed

definition elimina_ok :: "nat \<Rightarrow> bool" where
  "elimina_ok f \<longleftrightarrow> (\<forall>t0 t s k x r A. rep t (plug s k) \<longrightarrow> x = topo (nil t) s \<longrightarrow> pai_de t x = cpai (raiz t) k \<longrightarrow>
     so_esq k \<longrightarrow> r = topo (nil t) (plug s k) \<longrightarrow> length k < f \<longrightarrow>
     invh (cor_de t) s \<longrightarrow> cinvh (cor_de t) (Suc (bh (cor_de t) s)) k \<longrightarrow>
     invc ((cor_de t)(x := black)) s \<longrightarrow> cinvc (cor_de t) k \<longrightarrow> cbase (cor_de t) k \<longrightarrow>
     A = insert (raiz t) (set (ends (plug s k))) \<longrightarrow> mesmos A t0 t \<longrightarrow>
     fim_el t0 A (ends (plug s k)) (elimina_reparar f t r x))"

lemma raiz_fora:
  assumes R: "rep t (plug s (FE p u # k))" and b: "cbase (cor_de t) (FE p u # k)" and r: "r = topo (nil t) (plug s (FE p u # k))"
  shows "r = p \<or> r \<notin> set (ends s @ p # ends u) \<and> cor_de t r = black"
    "r \<in> vivos t" "r \<in> set (ends (plug (Nd s p u) k))" "r \<noteq> topo (nil t) s" "k = [] \<longrightarrow> r = p"
    "k \<noteq> [] \<longrightarrow> r \<in> set (esqs k) \<union> set (dirs k) \<and> cor_de t r = black"
proof -
  have rl: "r = no_q (last (FE p u # k))" using r topo_plug by simp
  have k: "r \<in> set (esqs k) \<union> set (dirs k) \<and> cor_de t r = black" if "k \<noteq> []"
  proof -
    have "r = no_q (last k)" using rl that by simp
    moreover have "cbase (cor_de t) k" using b that by simp
    moreover have "cor_de t (no_q (last j)) = black" if "cbase (cor_de t) j" "j \<noteq> []" for j
      using that by (induction j) (auto split: if_splits)
    ultimately show ?thesis using no_q_in[of "last k" k] that by auto
  qed
  then show "k \<noteq> [] \<longrightarrow> r \<in> set (esqs k) \<union> set (dirs k) \<and> cor_de t r = black" by blast
  show k0: "k = [] \<longrightarrow> r = p" using rl by simp
  have d: "distinct (nil t # raiz t # esqs k @ ends (Nd s p u) @ dirs k)" using R by (simp add: rep_plug)
  show "r = p \<or> r \<notin> set (ends s @ p # ends u) \<and> cor_de t r = black" using k k0 d by (cases "k = []") auto
  show "r \<in> set (ends (plug (Nd s p u) k))" using k k0 by (cases "k = []") auto
  show "r \<noteq> topo (nil t) s" using k k0 d by (cases "k = []"; cases s; auto)
  show "r \<in> vivos t" using rep_topo_vivo[of t "plug s (FE p u # k)" "[]"] R r by simp
qed


lemma elimina_passo:
  assumes IH: "elimina_ok f" and R: "rep t (plug s (FE p u # k))" and x: "x = topo (nil t) s" "pai_de t x = p" "cor_de t x = black"
    and e: "so_esq (FE p u # k)" and r: "r = topo (nil t) (plug s (FE p u # k))" and l: "length (FE p u # k) < Suc f"
    and i: "invh (cor_de t) s" "cinvh (cor_de t) (Suc (bh (cor_de t) s)) (FE p u # k)"
      "invc (cor_de t) s" "cinvc (cor_de t) (FE p u # k)" "cbase (cor_de t) (FE p u # k)"
    and A: "A = insert (raiz t) (set (ends (plug s (FE p u # k))))" and m: "mesmos A t0 t"
  shows "fim_el t0 A (ends (plug s (FE p u # k))) (elimina_reparar (Suc f) t r x)"
proof -
  let ?C = "cor_de t"
  note rf = raiz_fora[OF R i(5) r]
  have rx: "r \<noteq> x" using rf(4) x by simp
  have d: "distinct (nil t # raiz t # esqs k @ ends (Nd s p u) @ dirs k)" using R by (simp add: rep_plug)
  have dd: "distinct (ends (plug (Nd s p u) k))" using rep_sent(9)[OF R] by simp
  have sp: "preta ?C s" using x rep_cor_topo[OF R, of s] by simp
  have fp: "f > 0" "length k < f" using l by auto
  have bu: "bh ?C u = Suc (bh ?C s)" "invh ?C u" "invc ?C u"
    "cinvh ?C (Suc (bh ?C s) + (if ?C p = black then 1 else 0)) k" "cinvc ?C k"
    "?C p = red \<longrightarrow> preta ?C u \<and> cpreta ?C k" using i by auto
  then obtain a w b where u: "u = Nd a w b" by (cases u) auto
  have kb: "k = [] \<longrightarrow> ?C p = black" "cbase ?C k" using i(5) by (auto split: if_splits)
  note Ru = R[unfolded u] and Au = A[unfolded u]
  show ?thesis
  proof (cases "?C w = black")
    case True
    from irmao_preto[OF Ru x(1,3,2) rx True i(1) bu(2)[unfolded u] bu(1)[unfolded u] i(3) bu(3)[unfolded u] Au, of f]
    show ?thesis
    proof
      assume "fecha_el t A f r x s p (Nd a w b) k"
      then show ?thesis
        using fecha_fim[of t A f r x s p u k t0] bu(4,5,6) kb rf(1,2,3) dd m fp u by (auto simp del: ends_plug)
    next
      assume "sobe_el t A f r x s p a w b k"
      then obtain t1 where t1: "elimina_reparar (Suc f) t r x = elimina_reparar f t1 r p" "rep t1 (plug (Nd s p (Nd a w b)) k)"
        "mesmos A t t1" "cor_de t1 = ?C(w := red)" "preta ?C a" "preta ?C b" unfolding sobe_el_def by blast
      have nr: "nil t1 = nil t" "raiz t1 = raiz t" using mesmosD[OF t1(3)] by auto
      have dw: "w \<notin> set (ends s)" "w \<notin> set (ends a)" "w \<notin> set (ends b)" "w \<noteq> p" "w \<notin> set (esqs k)" "w \<notin> set (dirs k)"
        "p \<notin> set (ends s)" "p \<notin> set (ends a)" "p \<notin> set (ends b)" using d u by auto
      have p1: "pai_de t1 p = cpai (raiz t1) k" using rep_no(2)[OF t1(2)] .
      have "fim_el t0 A (ends (plug (Nd s p (Nd a w b)) k)) (elimina_reparar f t1 r p)"
      proof (rule IH[unfolded elimina_ok_def, rule_format, OF t1(2) _ p1 _ _ fp(2)])
        show "p = topo (nil t1) (Nd s p (Nd a w b))" by simp
        show "so_esq k" using e by (simp add: so_esq_def)
        show "r = topo (nil t1) (plug (Nd s p (Nd a w b)) k)" using r nr u by simp
        show "invh (cor_de t1) (Nd s p (Nd a w b))" using bu(1,2) i(1) dw u True by (auto simp: t1(4) cores_fora)
        show "cinvh (cor_de t1) (Suc (bh (cor_de t1) (Nd s p (Nd a w b)))) k" using bu(4) dw by (auto simp: t1(4) cores_fora)
        show "invc ((cor_de t1)(p := black)) (Nd s p (Nd a w b))" using bu(3) i(3) t1(5,6) dw u by (auto simp: t1(4) cores_fora)
        show "cinvc (cor_de t1) k" "cbase (cor_de t1) k" using bu(5) kb(2) dw by (auto simp: t1(4) cores_fora)
        show "A = insert (raiz t1) (set (ends (plug (Nd s p (Nd a w b)) k)))" using A nr u by simp
        show "mesmos A t0 t1" by (rule mesmos_trans[OF m t1(3)])
      qed
      then show ?thesis using t1(1) u by simp
    qed
  next
    case False
    then have w: "?C w = red" by simp
    then have pb: "?C p = black" "preta ?C a" "preta ?C b" using bu(3,6) u by auto
    then obtain a1 w1 b1 where a: "a = Nd a1 w1 b1" "?C w1 = black" using bu(1) w u by (cases a) auto
    obtain t1 where t1: "elimina_reparar (Suc f) t r x = elimina_reparar (Suc f) t1 r x" "rep t1 (plug s (FE p a # FE w b # k))"
      "mesmos A t t1" "pai_de t1 x = p" "cor_de t1 = ?C(w := black, p := red)"
      using passo1_esq[OF Ru x(1,3,2) rx w pb(2) Au] by blast
    have nr: "nil t1 = nil t" "raiz t1 = raiz t" "vivos t1 = vivos t" using mesmosD[OF t1(3)] by auto
    let ?D = "cor_de t1"
    have dw: "w \<notin> set (ends s)" "w \<notin> set (ends a)" "w \<notin> set (ends b)" "w \<noteq> p" "w \<notin> set (esqs k)" "w \<notin> set (dirs k)"
      "p \<notin> set (ends s)" "p \<notin> set (ends a)" "p \<notin> set (ends b)" "p \<notin> set (esqs k)" "p \<notin> set (dirs k)" "w1 \<noteq> w" "w1 \<noteq> p"
      "distinct (ends a)" "w1 \<notin> set (ends s)" "w1 \<notin> set (ends b)" "w1 \<notin> set (esqs k)" "w1 \<notin> set (dirs k)"
      using d u a by auto
    have dx: "x \<noteq> w" "x \<noteq> p" using x(1) d u by (cases s; auto)+
    have D: "?D x = black" "?D w1 = black" "?D p = red" "?D w = black" using dx dw x a by (auto simp: t1(5))
    have bs: "bh ?D s = bh ?C s" using dw by (simp add: t1(5) cores_fora)
    have k1: "cinvh ?D (Suc (bh ?C s)) (FE w b # k)" "cinvc ?D (FE w b # k)" "cbase ?D (FE w b # k)" "cpreta ?D (FE w b # k)"
      using bu u w pb kb dw by (auto simp: t1(5) cores_fora)
    have A1: "A = insert (raiz t1) (set (ends (plug s (FE p (Nd a1 w1 b1) # FE w b # k))))" using A u a nr by auto
    have inv1: "invh ?D s" "invh ?D a" "bh ?D a = Suc (bh ?D s)" "invc ?D s" "invc ?D a"
      using bu u w pb i dw by (auto simp: t1(5) cores_fora)
    have m1: "mesmos A t0 t1" by (rule mesmos_trans[OF m t1(3)])
    have E: "ends (plug (Nd s p a) (FE w b # k)) = ends (plug s (FE p u # k))" using u by simp
    have dE: "distinct (ends (plug (Nd s p a) (FE w b # k)))" using E dd by simp
    have rr: "r = p \<or> r \<notin> set (ends s @ p # ends a) \<and> ?D r = black"
      using rf(1,6,5) u dw d by (cases "k = []") (auto simp: t1(5))
    from irmao_preto[OF t1(2)[unfolded a(1)] _ D(1) t1(4) rx D(2) inv1(1) inv1(2,3)[unfolded a(1)] inv1(4) inv1(5)[unfolded a(1)] A1, of f]
    have "sobe_el t1 A f r x s p a1 w1 b1 (FE w b # k) \<or> fecha_el t1 A f r x s p a (FE w b # k)"
      using x(1) nr a(1) by simp
    then show ?thesis
    proof
      assume "fecha_el t1 A f r x s p a (FE w b # k)"
      then have "fim_el t0 A (ends (plug (Nd s p a) (FE w b # k))) (elimina_reparar (Suc f) t1 r x)"
        by (rule fecha_fim[OF _ _ k1(2,3) _ _ rr _ _ dE m1 fp(1)]) (use k1 bs D rf(2,3) nr E in \<open>auto simp del: ends_plug\<close>)
      then show ?thesis using t1(1) by (simp only: E)
    next
      assume "sobe_el t1 A f r x s p a1 w1 b1 (FE w b # k)"
      then obtain t2 where t2: "elimina_reparar (Suc f) t1 r x = elimina_reparar f t2 r p"
        "rep t2 (plug (Nd s p (Nd a1 w1 b1)) (FE w b # k))" "mesmos A t1 t2" "cor_de t2 = ?D(w1 := red)"
        "preta ?D a1" "preta ?D b1" unfolding sobe_el_def by blast
      have d2: "w1 \<notin> set (ends a1)" "w1 \<notin> set (ends b1)" using dw a by auto
      have "fim_el t0 A (ends (plug (Nd s p (Nd a1 w1 b1)) (FE w b # k))) (elimina_reparar f t2 r p)"
      proof (rule fim_vermelho[OF t2(2) _ _ _ _ _ _ _ _ fp(1)])
        show "cor_de t2 p = red" using D dw by (simp add: t2(4))
        show "invh (cor_de t2) (Nd s p (Nd a1 w1 b1))" using inv1 a d2 dw D by (auto simp: t2(4) cores_fora)
        show "cinvh (cor_de t2) (Suc (bh (cor_de t2) (Nd s p (Nd a1 w1 b1)))) (FE w b # k)"
          using k1(1) bs dw D by (auto simp: t2(4) cores_fora)
        show "invc ((cor_de t2)(p := black)) (Nd s p (Nd a1 w1 b1))"
          using inv1 a d2 dw t2(5,6) by (auto simp: t2(4) cores_fora)
        show "cinvc (cor_de t2) (FE w b # k)" "cbase (cor_de t2) (FE w b # k)" using k1 dw by (auto simp: t2(4) cores_fora)
        show "mesmos A t0 t2" by (rule mesmos_trans[OF m1 t2(3)])
      qed simp
      then show ?thesis using t1(1) t2(1) by (simp only: E a(1)[symmetric])
    qed
  qed
qed

lemma elimina_reparar_ok: "elimina_ok f"
proof (induction f)
  case (Suc f)
  show ?case unfolding elimina_ok_def
  proof (intro allI impI)
    fix t0 t s k x r A
    assume H: "rep t (plug s k)" "x = topo (nil t) s" "pai_de t x = cpai (raiz t) k" "so_esq k" "r = topo (nil t) (plug s k)"
      "length k < Suc f" "invh (cor_de t) s" "cinvh (cor_de t) (Suc (bh (cor_de t) s)) k" "invc ((cor_de t)(x := black)) s"
      "cinvc (cor_de t) k" "cbase (cor_de t) k" "A = insert (raiz t) (set (ends (plug s k)))" "mesmos A t0 t"
    show "fim_el t0 A (ends (plug s k)) (elimina_reparar (Suc f) t r x)"
    proof (cases "cor_de t x = red")
      case True
      then show ?thesis using fim_vermelho[OF H(1,2) True H(7,8,9,10,11,13)] by simp
    next
      case False
      show ?thesis
      proof (cases k)
        case Nil
        then show ?thesis using fim_raiz[of t s x A t0 "Suc f"] H by simp
      next
        case (Cons q k')
        then obtain p u where q: "q = FE p u" using H(4) by (auto simp: so_esq_def)
        have "(cor_de t)(x := black) = cor_de t" using False by (simp add: fun_upd_idem)
        then show ?thesis using elimina_passo[OF Suc.IH, of t s p u k' x r A t0] H Cons q False by simp
      qed
    qed
  qed
qed (simp add: elimina_ok_def)

end
