(* ===== verification/RedBlackExtrai.thy ===== *)
theory RedBlackExtrai
  imports RedBlackElimina
begin

text \<open>
  RBExtraiMininimo: unlinking the leftmost node, repairing the tree, and the new minimum.  With
  the insertion this makes the tree an agenda: what a list sorted by key does, the tree does.
\<close>

section \<open>Taking the leftmost node out\<close>

lemma plug_append: "plug s (k @ k') = plug (plug s k) k'"
  by (induction s k rule: plug.induct) auto

lemma mais_esq: "s \<noteq> Lf \<Longrightarrow> \<exists>z b k. s = plug (Nd Lf z b) k \<and> so_esq k"
proof (induction s)
  case (Nd l a r)
  show ?case
  proof (cases "l = Lf")
    case True
    then have "Nd l a r = plug (Nd Lf a r) [] \<and> so_esq []" by (simp add: so_esq_def)
    then show ?thesis by blast
  next
    case False
    then obtain z b k where "l = plug (Nd Lf z b) k" "so_esq k" using Nd.IH(1) by blast
    then have "Nd l a r = plug (Nd Lf z b) (k @ [FE a r]) \<and> so_esq (k @ [FE a r])"
      by (auto simp: plug_append so_esq_def)
    then show ?thesis by blast
  qed
qed simp

lemma so_esq_esqs: "so_esq k \<Longrightarrow> esqs k = []"
  by (induction k rule: esqs.induct) (auto simp: so_esq_def)

lemma ctx_poe_elem [simp]: "a \<in> vivos t \<Longrightarrow> ctx (poe_elem t a v) p k = ctx t p k"
  by (induction t p k rule: ctx.induct) (auto simp: campos)

lemma rep_poe_elem: "a \<in> vivos t \<Longrightarrow> a \<noteq> nil t \<Longrightarrow> a \<noteq> raiz t \<Longrightarrow> rep (poe_elem t a v) s = rep t s"
  by (auto simp: rep_def sentinelas_def campos insert_absorb)

lemma rep_poe_preto: "rep t s \<Longrightarrow> a \<in> insert (nil t) (set (ends s)) \<Longrightarrow> rep (poe_cor t a black) s"
proof -
  assume R: "rep t s" and a: "a \<in> insert (nil t) (set (ends s))"
  have "a \<in> vivos t" "a \<noteq> raiz t" using R a arv_vivos by (auto simp: rep_def sentinelas_def)
  then show ?thesis using R by (auto simp: rep_def sentinelas_def campos insert_absorb)
qed

text \<open>\<open>desliga_no\<close> on a node without a left child, itself a left child or the root.\<close>

lemma desliga_no_esq:
  assumes R: "rep t (plug (Nd Lf z b) k)" and e: "so_esq k" and x: "x = topo (nil t) b"
  shows "\<exists>t2. desliga_no t z = Inr (z, x, t2) \<and> rep t2 (plug b k) \<and> pai_de t2 x = cpai (raiz t2) k \<and>
    mesmos (insert (raiz t) (insert (nil t) (set (ends b @ dirs k)))) t t2 \<and> cor_de t2 = cor_de t"
proof -
  define p where "p = cpai (raiz t) k"
  note n = rep_no[OF R]
  have F: "sentinelas t" "arv t z b" "ctx t z k" "distinct (nil t # raiz t # esqs k @ ends (Nd Lf z b) @ dirs k)"
    using R by (auto simp: rep_plug)
  have s: "nil t \<in> vivos t" "raiz t \<in> vivos t" "nil t \<noteq> raiz t" using F(1) by (auto simp: sentinelas_def)
  have xv: "x \<in> vivos t" using rep_topo_vivo[of t b "FD Lf z # k"] R x by simp
  have xb: "x = nil t \<or> x \<in> set (ends b)" using x topo_in by fastforce
  have xn: "x \<noteq> z" "x \<noteq> raiz t" "x \<notin> set (esqs k)" "x \<notin> set (dirs k)" "x \<noteq> p"
    using xb F(4) n(8) cpai_outro[of "nil t" "raiz t" k] cpai_fora[of "raiz t" k "ends b"] by (auto simp: p_def)
  have pv: "p \<in> vivos t" "z \<noteq> p" "p \<noteq> nil t" "p \<notin> set (ends b)"
    using n(7,8) cpai_outro[of "nil t" "raiz t" k] cpai_fora[of "raiz t" k "ends b"] F(4) by (auto simp: p_def)
  have pe: "esq_de t p = z"
  proof (cases k)
    case (Cons q k')
    then obtain a r where "q = FE a r" using e by (auto simp: so_esq_def)
    then show ?thesis using F(3) Cons by (simp add: p_def)
  qed (use F(3) p_def in auto)
  let ?t1 = "poe_pai t x p"
  let ?t2 = "poe_esq ?t1 p x"
  have t2: "?t2 = aponta ?t1 p z x" using pe xn by (simp add: aponta_def campos)
  have run: "desliga_no t z = Inr (z, x, ?t2)"
    using n(1-4) s xv pv pe x by (simp add: desliga_no_def campos p_def[symmetric])
  have v: "vivos ?t2 = vivos t" using xv pv by (auto simp: campos)
  have k1: "ctx ?t1 z k" using F(3) xn xv by simp
  have k2: "ctx ?t2 x k" using ctx_aponta[OF k1, of x] F(4) unfolding t2 by (auto simp: campos p_def)
  have b1: "arv ?t1 p b"
  proof (cases "b = Lf")
    case False
    then show ?thesis using arv_filho[OF F(2)] F(4) x by simp
  qed simp
  have b2: "arv ?t2 p b" unfolding t2 using b1 pv xv by (simp add: campos)
  have "sentinelas ?t2"
    using F(1) xn pv s v unfolding sentinelas_def
    by (cases "p = raiz t"; cases "x = nil t"; simp add: campos insert_absorb xv)
  then have R2: "rep ?t2 (plug b k)" using b2 k2 F(4) x by (simp add: rep_plug p_def campos)
  have pin: "p \<in> insert (raiz t) (set (dirs k))"
    unfolding p_def using cpai_cases[of "raiz t" k] so_esq_esqs[OF e] by auto
  have m: "mesmos (insert (raiz t) (insert (nil t) (set (ends b @ dirs k)))) t ?t2"
    unfolding mesmos_def using pin xb v by (auto simp: campos)
  have "pai_de ?t2 x = cpai (raiz ?t2) k" using xn by (simp add: campos p_def)
  moreover have "cor_de ?t2 = cor_de t" by (simp add: campos)
  ultimately show ?thesis using run R2 m by blast
qed

lemma RepararEliminado_ok:
  assumes R: "rep t (plug b k)" and x: "x = topo (nil t) b" "pai_de t x = cpai (raiz t) k" and e: "so_esq k"
    and i: "invh (cor_de t) b" "cinvh (cor_de t) (Suc (bh (cor_de t) b)) k"
      "invc (cor_de t) b" "cinvc (cor_de t) k" "cbase (cor_de t) k"
    and A: "A = insert (raiz t) (insert (nil t) (set (ends (plug b k))))"
  shows "\<exists>t' s'. RepararEliminado t x = Inr t' \<and> rep t' s' \<and> ends s' = ends (plug b k) \<and> mesmos A t t' \<and>
    invh (cor_de t') s' \<and> invc (cor_de t') s' \<and> preta (cor_de t') s'"
proof -
  define r where "r = topo (nil t) (plug b k)"
  have d: "distinct (ends b)" using rep_sent(9)[OF R] by simp
  have "length k < Suc (prox t)" using nos_prox[OF R] length_ctx[of k] by simp
  moreover have "invc ((cor_de t)(x := black)) b" using i(3) x(1) d by (cases b) (auto simp: cores_fora)
  ultimately have "fim_el t (insert (raiz t) (set (ends (plug b k)))) (ends (plug b k)) (elimina_reparar (Suc (prox t)) t r x)"
    using elimina_reparar_ok[of "Suc (prox t)", unfolded elimina_ok_def, rule_format, OF R x e r_def _ i(1,2) _ i(4,5) refl] by simp
  then obtain t3 y s' where t3: "elimina_reparar (Suc (prox t)) t r x = Inr (y, t3)" "rep t3 s'" "ends s' = ends (plug b k)"
    "mesmos (insert (raiz t) (set (ends (plug b k)))) t t3" "y \<in> insert (nil t3) (set (ends (plug b k)))"
    "invh ((cor_de t3)(y := black)) s'" "invc ((cor_de t3)(y := black)) s'" "preta ((cor_de t3)(y := black)) s'"
    unfolding fim_el_def by blast
  have nr: "nil t3 = nil t" using mesmosD[OF t3(4)] by simp
  have yv: "y \<in> vivos t3" using t3(2,3,5) arv_vivos by (auto simp: rep_def sentinelas_def)
  have R4: "rep (poe_cor t3 y black) s'" using rep_poe_preto[OF t3(2)] t3(3,5) by simp
  have m0: "mesmos A t t3" using t3(4) A unfolding mesmos_def by blast
  have m: "mesmos A t (poe_cor t3 y black)"
    by (rule mesmos_trans[OF m0 mesmos_poe_cor[OF _ yv]]) (use t3(5) nr A in auto)
  have "rd esq t (raiz t) = Inr r" using rep_sent(2,10)[OF R] by (simp add: r_def campos)
  then have "RepararEliminado t x = Inr (poe_cor t3 y black)" using t3(1) yv by (simp add: RepararEliminado_def campos)
  moreover have "cor_de (poe_cor t3 y black) = (cor_de t3)(y := black)" by (simp add: campos)
  ultimately show ?thesis using R4 m t3(3,6,7,8) by metis
qed

lemma bh_zero: "bh C b = 0 \<Longrightarrow> invc C b \<Longrightarrow> invh C b \<Longrightarrow> b = Lf \<or> (\<exists>y. b = Nd Lf y Lf)"
proof (cases b)
  case (Nd l y r)
  assume "bh C b = 0" "invc C b" "invh C b"
  then have "preta C l" "preta C r" "bh C l = 0" "bh C r = 0" using Nd by (auto split: if_splits)
  then show ?thesis using Nd by (cases l; cases r) auto
qed simp

lemma rep_sem:
  assumes R: "rep t s" and z: "z \<notin> set (ends s)" "z \<noteq> nil t" "z \<noteq> raiz t"
  shows "rep (t\<lparr>cells := (cells t)(z := None)\<rparr>) s"
    "b \<noteq> z \<Longrightarrow> item (t\<lparr>cells := (cells t)(z := None)\<rparr>) b = item t b"
    "b \<noteq> z \<Longrightarrow> cor_de (t\<lparr>cells := (cells t)(z := None)\<rparr>) b = cor_de t b"
proof -
  let ?t = "t\<lparr>cells := (cells t)(z := None)\<rparr>"
  have v: "vivos ?t = vivos t - {z}" by (auto simp: vivos_def)
  have f: "chave_de ?t b = chave_de t b" "elem_de ?t b = elem_de t b" "cor_de ?t b = cor_de t b" "tid_de ?t b = tid_de t b"
    "pai_de ?t b = pai_de t b" "esq_de ?t b = esq_de t b" "dir_de ?t b = dir_de t b" if "b \<noteq> z" for b
    using that by (simp_all add: chave_de_def elem_de_def cor_de_def pai_de_def esq_de_def dir_de_def tid_de_def)
  have a: "arv ?t p u = arv t p u" if "z \<notin> set (ends u)" for p u
    using that by (induction u arbitrary: p) (auto simp: v f)
  show "rep ?t s" using R z by (auto simp: rep_def sentinelas_def a v f)
  show "b \<noteq> z \<Longrightarrow> item ?t b = item t b" "b \<noteq> z \<Longrightarrow> cor_de ?t b = cor_de t b" by (simp_all add: item_def f)
qed


text \<open>What is left of a well-formed tree when its first node is taken away.\<close>

lemma primeiro_fora:
  assumes h: "invh C (plug (Nd Lf z b) k)" "invc C (plug (Nd Lf z b) k)" "preta C (plug (Nd Lf z b) k)"
  shows "bh C b = 0" "invc C b" "invh C b" "cinvc C k" "cbase C k" "b = Lf \<or> (\<exists>y. b = Nd Lf y Lf)"
    "C z = black \<Longrightarrow> cinvh C (Suc (bh C b)) k"
    "C z = red \<Longrightarrow> k \<noteq> [] \<and> invh C (plug b k) \<and> invc C (plug b k) \<and> preta C (plug b k)"
proof -
  have i: "bh C b = 0" "invh C b" "invc C b" "cinvh C (if C z = black then 1 else 0) k" "cinvc C k"
    "C z = red \<longrightarrow> preta C b \<and> cpreta C k"
    using h(1,2) by (auto simp: invh_plug invc_plug)
  show "bh C b = 0" "invc C b" "invh C b" "cinvc C k" using i by auto
  show cb: "cbase C k" using h(3) by (cases k) (auto simp: preta_plug split: if_splits)
  show "b = Lf \<or> (\<exists>y. b = Nd Lf y Lf)" by (rule bh_zero) (use i in auto)
  show "C z = black \<Longrightarrow> cinvh C (Suc (bh C b)) k" using i by simp
  assume z: "C z = red"
  then have "k \<noteq> []" using h(3) by (auto simp: preta_plug)
  then show "k \<noteq> [] \<and> invh C (plug b k) \<and> invc C (plug b k) \<and> preta C (plug b k)"
    using i cb z by (auto simp: invh_plug invc_plug preta_plug)
qed

lemma RBExtraiMininimo_ok:
  assumes RB: "rb t s" and s: "s \<noteq> Lf"
  shows "\<exists>t' s'. RBExtraiMininimo t = Inr (snd (snd (hd (itens t s))), t') \<and> rb t' s' \<and>
    itens t' s' = tl (itens t s) \<and> libertados t' = libertados t"
proof -
  obtain z b k where z: "s = plug (Nd Lf z b) k" and e: "so_esq k" using mais_esq[OF s] by blast
  note es = so_esq_esqs[OF e]
  have R: "rep t (plug (Nd Lf z b) k)" and C: "invh (cor_de t) (plug (Nd Lf z b) k)" "invc (cor_de t) (plug (Nd Lf z b) k)"
      "preta (cor_de t) (plug (Nd Lf z b) k)"
    and o: "sorted (map (chave_de t) (ends s))" "\<forall>a \<in> set (ends s). chave_de t a \<noteq> -1" and mz: "minimo t = z"
    using RB z s es by (auto simp: rb_def)
  have E: "ends s = z # ends b @ dirs k" using z es by simp
  note n = rep_no[OF R] and p = primeiro_fora[OF C]
  have zN: "z \<noteq> NULL" using rep_sent(13)[OF R] n(1) by auto
  let ?ta = "poe_elem t z NULL"
  have Ra: "rep ?ta (plug (Nd Lf z b) k)" using rep_poe_elem[OF n(1,5,6)] R by simp
  have Ca: "cor_de ?ta = cor_de t" and nra: "nil ?ta = nil t" "raiz ?ta = raiz t" "minimo ?ta = z" "libertados ?ta = libertados t"
    using mz by (simp_all add: campos)
  define x where "x = topo (nil ?ta) b"
  obtain t2 where t2: "desliga_no ?ta z = Inr (z, x, t2)" "rep t2 (plug b k)" "pai_de t2 x = cpai (raiz t2) k"
    "mesmos (insert (raiz ?ta) (insert (nil ?ta) (set (ends b @ dirs k)))) ?ta t2" "cor_de t2 = cor_de ?ta"
    using desliga_no_esq[OF Ra e x_def] by blast
  define A where "A = insert (raiz t) (insert (nil t) (set (ends (plug b k))))"
  have A: "A = insert (raiz ?ta) (insert (nil ?ta) (set (ends b @ dirs k)))" using es nra by (simp add: A_def)
  have zA: "z \<notin> A" using n es by (simp add: A_def)
  note d2 = mesmosD[OF t2(4)]
  have C2: "cor_de t2 = cor_de t" using t2(5) Ca by simp
  have z2: "cells t2 z = cells ?ta z" "z \<in> vivos t2" using d2(10)[of z] d2(6) zA A n(1) by (auto simp: campos)
  have "rd elem t2 z = Inr NULL" using z2 by (simp add: rd_vivo campos)
  then have fe: "free_elem t2 z = Inr t2" by (simp add: free_elem_def)
  have "\<exists>t3 s'. (if cor_de t2 z = black then RepararEliminado t2 x else Inr t2) = Inr t3 \<and> rep t3 s' \<and>
    ends s' = ends b @ dirs k \<and> mesmos A t2 t3 \<and> invh (cor_de t3) s' \<and> invc (cor_de t3) s' \<and> preta (cor_de t3) s'"
  proof (cases "cor_de t2 z = black")
    case True
    have x2: "x = topo (nil t2) b" using d2(2) by (simp add: x_def)
    have i: "invh (cor_de t2) b" "cinvh (cor_de t2) (Suc (bh (cor_de t2) b)) k" "invc (cor_de t2) b" "cinvc (cor_de t2) k" "cbase (cor_de t2) k"
      using p(2,3,4,5,7) True C2 by simp_all
    have "A = insert (raiz t2) (insert (nil t2) (set (ends (plug b k))))" using d2(1,2) nra by (simp add: A_def)
    from RepararEliminado_ok[OF t2(2) x2 t2(3) e i this] True es show ?thesis by simp
  next
    case False
    then show ?thesis using t2(2) p(8) C2 es by (intro exI[of _ t2] exI[of _ "plug b k"]) simp
  qed
  then obtain t3 s' where t3: "(if cor_de t2 z = black then RepararEliminado t2 x else Inr t2) = Inr t3" "rep t3 s'"
    "ends s' = ends b @ dirs k" "mesmos A t2 t3" "invh (cor_de t3) s'" "invc (cor_de t3) s'" "preta (cor_de t3) s'" by blast
  note d3 = mesmosD[OF t3(4)]
  have z3: "cells t3 z = cells ?ta z" "z \<in> vivos t3" using d3(10)[OF zA] d3(6) z2 by auto
  have lz: "dir_de t3 z = x" "pai_de t3 z = cpai (raiz t) k"
    using z3(1) n(2,4) by (simp_all add: dir_de_def pai_de_def x_def poe_def)
  have nr3: "nil t3 = nil t" "raiz t3 = raiz t" "minimo t3 = z" "libertados t3 = libertados t"
    using d3(1-5) d2(1-5) nra by auto
  define m where "m = (if b = Lf then cpai (raiz t) k else x)"
  have xnil: "x = nil t \<longleftrightarrow> b = Lf" using rep_sent(6)[OF R] nra by (auto simp: x_def)
  have am: "actualiza_minimo t3 z = Inr (t3\<lparr>minimo := m\<rparr>)"
    using z3(2) lz nr3 xnil by (simp add: actualiza_minimo_def campos m_def)
  let ?t5 = "(t3\<lparr>minimo := m\<rparr>)\<lparr>cells := (cells (t3\<lparr>minimo := m\<rparr>))(z := None)\<rparr>"
  have ds: "DestruirNo (t3\<lparr>minimo := m\<rparr>) z = Inr ?t5" using z3(2) by (auto simp: DestruirNo_def deref_def vivos_def)
  have run: "RBExtraiMininimo t = Inr (elem_de t z, ?t5)"
  proof -
    have "rd cor t2 z = Inr (cor_de t2 z)" using z2 by (simp add: campos)
    then have "RBRemoverNo ?ta z = Inr ?t5" using t2(1) fe t3(1) am ds by (simp add: RBRemoverNo_def)
    then show ?thesis using mz zN n(1) by (simp add: RBExtraiMininimo_def RBMinimoArvore_def Let_def campos)
  qed
  have zs: "z \<notin> set (ends s')" "z \<noteq> nil t" "z \<noteq> raiz t" using t3(3) n by auto
  have R3: "rep (t3\<lparr>minimo := m\<rparr>) s'" using t3(2) by simp
  note f = rep_sem[OF R3 zs(1)]
  have R5: "rep ?t5 s'" using f(1) zs nr3 by simp
  have it: "item ?t5 a = item t a" if "a \<noteq> z" for a
  proof -
    have "item ?t5 a = item t3 a" using f(2)[OF _ _ that] zs nr3 by simp
    also have "\<dots> = item ?ta a" using item_cong[OF t3(4)] item_cong[OF t2(4)] by simp
    also have "\<dots> = item t a" using that by (simp add: item_def campos)
    finally show ?thesis .
  qed
  have ne: "a \<noteq> z" if "a \<in> set (ends s')" for a using that zs by auto
  have I: "itens ?t5 s' = tl (itens t s)" using it ne t3(3) E by (auto simp: itens_def)
  have ck: "chave_de ?t5 a = chave_de t a" if "a \<in> set (ends s')" for a using it[OF ne[OF that]] by (simp add: item_def)
  have cc: "cor_de ?t5 a = cor_de t3 a" if "a \<in> set (ends s')" for a
    using f(3)[OF _ _ ne[OF that]] zs nr3 by simp
  note cg = cores_igual[of s' "cor_de ?t5" "cor_de t3", OF cc]
  have mm: "if s' = Lf then m = NULL \<or> m = raiz t else m = hd (ends s')"
  proof (cases b)
    case Lf
    show ?thesis
    proof (cases k)
      case Nil
      then have "ends s' = []" using Lf t3(3) by simp
      then have "s' = Lf" by (cases s') auto
      then show ?thesis using Lf Nil by (simp add: m_def)
    next
      case (Cons q k')
      then obtain a r where "q = FE a r" using e by (auto simp: so_esq_def)
      then have "ends s' = a # ends r @ dirs k'" "m = a" using Cons Lf t3(3) by (simp_all add: m_def)
      then show ?thesis by (cases s') auto
    qed
  next
    case (Nd l y r)
    then have "ends s' = y # dirs k" "m = y" using p(6) t3(3) by (auto simp: m_def x_def)
    then show ?thesis by (cases s') auto
  qed
  have "rb ?t5 s'"
    unfolding rb_def
  proof (intro conjI)
    show "rep ?t5 s'" by (rule R5)
    show "invh (cor_de ?t5) s'" "invc (cor_de ?t5) s'" "preta (cor_de ?t5) s'" using t3(5-7) cg by simp_all
    have "map (chave_de ?t5) (ends s') = map (chave_de t) (ends s')" by (rule map_cong[OF refl ck])
    moreover have "sorted (map (chave_de t) (ends s'))" using o(1) E t3(3) by simp
    ultimately show "sorted (map (chave_de ?t5) (ends s'))" by (simp only:)
    show "\<forall>a \<in> set (ends s'). chave_de ?t5 a \<noteq> -1" using o(2) ck E t3(3) by auto
    show "if s' = Lf then minimo ?t5 = NULL \<or> minimo ?t5 = raiz ?t5 else minimo ?t5 = hd (ends s')" using mm nr3 by simp
  qed
  moreover have "snd (snd (hd (itens t s))) = elem_de t z" using E by (simp add: itens_def item_def)
  ultimately show ?thesis using run I nr3 by (intro exI[of _ ?t5] exI[of _ s']) simp
qed

section \<open>The tree as an agenda\<close>

text \<open>
  The elements are threads; \<open>chv\<close> and \<open>idt\<close> give the key and the identifier a thread is
  inserted with.
\<close>

fun insere_por :: "('a \<Rightarrow> int) \<Rightarrow> 'a \<Rightarrow> 'a list \<Rightarrow> 'a list" where
  "insere_por f x [] = [x]"
| "insere_por f x (y # ys) = (if f y \<le> f x then y # insere_por f x ys else x # y # ys)"

definition tem_threads :: "(addr \<Rightarrow> int) \<Rightarrow> (addr \<Rightarrow> int) \<Rightarrow> arvore_rb \<Rightarrow> addr list \<Rightarrow> bool" where
  "tem_threads chv idt t xs \<longleftrightarrow> tem_itens t (map (\<lambda>a. (chv a, idt a, a)) xs)"

lemma fila_insere_map: "fila_insere (chv a, idt a, a) (map (\<lambda>a. (chv a, idt a, a)) xs) =
    map (\<lambda>a. (chv a, idt a, a)) (insere_por chv a xs)"
  by (induction xs) auto

lemma extrai_itens:
  assumes "tem_itens t ((k, i, e) # xs)"
  shows "\<exists>t'. RBExtraiMininimo t = Inr (e, t') \<and> tem_itens t' xs \<and> libertados t' = libertados t"
proof -
  obtain s where s: "rb t s" "itens t s = (k, i, e) # xs" using assms by (auto simp: tem_itens_def)
  then have "s \<noteq> Lf" by (auto simp: itens_def)
  from RBExtraiMininimo_ok[OF s(1) this] s(2) show ?thesis by (auto simp: tem_itens_def)
qed

interpretation pronta: agenda "tem_threads chv idt" "\<lambda>t a. RBInserirNo t (chv a) (idt a) a" "insere_por chv"
    "\<lambda>a _. chv a \<noteq> -1" RBExtraiMininimo for chv idt
proof
  fix t xs a assume "tem_threads chv idt t xs" "chv a \<noteq> -1"
  then show "\<exists>t'. RBInserirNo t (chv a) (idt a) a = Inr t' \<and> tem_threads chv idt t' (insere_por chv a xs)"
    using arvore.ins_ok[of t "map (\<lambda>a. (chv a, idt a, a)) xs" "(chv a, idt a, a)"]
    by (simp add: tem_threads_def fila_insere_map)
next
  fix t x xs assume "tem_threads chv idt t (x # xs)"
  then show "\<exists>t'. RBExtraiMininimo t = Inr (x, t') \<and> tem_threads chv idt t' xs"
    using extrai_itens[of t "chv x" "idt x" x] by (auto simp: tem_threads_def)
qed

end
