(* ===== verification/ThreadQueue.thy ===== *)
theory ThreadQueue
  imports Agenda
begin

text \<open>
  The queues of sthread_lib/queue.c at the level of their cells.  A queue is a pair of pointers;
  the cells of all queues live in one memory, together with the global \<open>empty_element_ptr\<close>, the
  one cell that \<open>queue_remove\<close> keeps for the next \<open>queue_insert\<close>.  \<open>fila m q ps xs\<close> says that
  queue \<open>q\<close> consists of the cells \<open>ps\<close> with the contents \<open>xs\<close>, front first; each operation is
  shown to act on \<open>xs\<close> as the list operation of a FIFO queue and to leave every other queue alone.
\<close>

section \<open>Cells, queues, memory\<close>

text \<open>queue_element_t and queue_t.\<close>

record queue_element =
  conteudo :: addr
  proximo :: addr

record queue_t =
  first :: addr
  last_q :: addr

text \<open>
  \<open>cells_q\<close> holds the cells that are allocated, \<open>prox_q\<close> is the next fresh address,
  \<open>empty_element_ptr\<close> the recycled cell and \<open>freed\<close> the contents handed to
  sthread_user_free by delete_queue.
\<close>

record mem_q =
  cells_q :: "addr \<Rightarrow> queue_element option"
  prox_q :: addr
  empty_element_ptr :: addr
  freed :: "addr list"

definition deref_q :: "mem_q \<Rightarrow> addr \<Rightarrow> queue_element res" where
  "deref_q m p = (case cells_q m p of None \<Rightarrow> Inl (BadAddr p) | Some c \<Rightarrow> Inr c)"

definition put_q :: "mem_q \<Rightarrow> addr \<Rightarrow> queue_element \<Rightarrow> mem_q" where
  "put_q m p c = m\<lparr>cells_q := (cells_q m)(p \<mapsto> c)\<rparr>"

section \<open>Operations\<close>

text \<open>create_queue also forgets the recycled cell, which stays allocated.\<close>

definition create_queue :: "mem_q \<Rightarrow> queue_t \<times> mem_q" where
  "create_queue m = (\<lparr>first = NULL, last_q = NULL\<rparr>, m\<lparr>empty_element_ptr := NULL\<rparr>)"

fun delete_cells :: "nat \<Rightarrow> mem_q \<Rightarrow> addr \<Rightarrow> mem_q res" where
  "delete_cells 0 m p = Inl NoFuel"
| "delete_cells (Suc f) m p =
     (if p = NULL then Inr m
      else bindr (deref_q m p) (\<lambda>c.
        delete_cells f (m\<lparr>freed := conteudo c # freed m, cells_q := (cells_q m)(p := None)\<rparr>)
          (proximo c)))"

definition delete_queue :: "mem_q \<Rightarrow> queue_t \<Rightarrow> mem_q res" where
  "delete_queue m q = delete_cells (Suc (prox_q m)) m (first q)"

definition queue_insert :: "mem_q \<Rightarrow> queue_t \<Rightarrow> addr \<Rightarrow> (queue_t \<times> mem_q) res" where
  "queue_insert m q x =
     (let (p, m) = (if empty_element_ptr m = NULL then (prox_q m, m\<lparr>prox_q := prox_q m + 1\<rparr>)
                    else (empty_element_ptr m, m\<lparr>empty_element_ptr := NULL\<rparr>));
          m = put_q m p \<lparr>conteudo = x, proximo = NULL\<rparr>
      in if first q = NULL then Inr (\<lparr>first = p, last_q = p\<rparr>, m)
         else bindr (deref_q m (last_q q)) (\<lambda>c.
                Inr (q\<lparr>last_q := p\<rparr>, put_q m (last_q q) (c\<lparr>proximo := p\<rparr>))))"

definition queue_is_empty :: "queue_t \<Rightarrow> bool" where
  "queue_is_empty q \<longleftrightarrow> first q = NULL"

definition queue_first :: "mem_q \<Rightarrow> queue_t \<Rightarrow> addr res" where
  "queue_first m q = bindr (deref_q m (first q)) (\<lambda>c. Inr (conteudo c))"

definition queue_remove :: "mem_q \<Rightarrow> queue_t \<Rightarrow> (addr \<times> queue_t \<times> mem_q) res" where
  "queue_remove m q =
     (let temp = first q in
      bindr (deref_q m temp) (\<lambda>c.
        let q = q\<lparr>first := proximo c\<rparr>;
            m = put_q m temp \<lparr>conteudo = NULL, proximo = NULL\<rparr>;
            m = (if empty_element_ptr m \<noteq> NULL then m\<lparr>cells_q := (cells_q m)(temp := None)\<rparr>
                 else m\<lparr>empty_element_ptr := temp\<rparr>)
        in Inr (conteudo c, q, m)))"

definition queue_next :: "mem_q \<Rightarrow> addr \<Rightarrow> addr res" where
  "queue_next m p = bindr (deref_q m p) (\<lambda>c. Inr (proximo c))"

definition queue_firstElem :: "queue_t \<Rightarrow> addr" where
  "queue_firstElem q = first q"

definition mem_inicial :: mem_q where
  "mem_inicial = \<lparr>cells_q = Map.empty, prox_q = 1, empty_element_ptr = NULL, freed = []\<rparr>"

section \<open>What a queue in memory represents\<close>

fun seg :: "mem_q \<Rightarrow> addr \<Rightarrow> addr list \<Rightarrow> addr list \<Rightarrow> addr \<Rightarrow> bool" where
  "seg m p [] [] z \<longleftrightarrow> p = z"
| "seg m p (a # ps) (x # xs) z \<longleftrightarrow>
     p = a \<and> a \<noteq> NULL \<and>
     (case cells_q m a of None \<Rightarrow> False | Some c \<Rightarrow> conteudo c = x \<and> seg m (proximo c) ps xs z)"
| "seg m p _ _ z \<longleftrightarrow> False"

definition mem_ok :: "mem_q \<Rightarrow> bool" where
  "mem_ok m \<longleftrightarrow> (\<forall>a. cells_q m a \<noteq> None \<longrightarrow> NULL < a \<and> a < prox_q m) \<and> NULL < prox_q m \<and>
     (empty_element_ptr m \<noteq> NULL \<longrightarrow> cells_q m (empty_element_ptr m) \<noteq> None)"

definition fila :: "mem_q \<Rightarrow> queue_t \<Rightarrow> addr list \<Rightarrow> addr list \<Rightarrow> bool" where
  "fila m q ps xs \<longleftrightarrow>
     mem_ok m \<and> distinct ps \<and> empty_element_ptr m \<notin> set ps \<and> seg m (first q) ps xs NULL \<and>
     (ps \<noteq> [] \<longrightarrow> last_q q = last ps)"

lemma seg_length: "seg m p ps xs z \<Longrightarrow> length ps = length xs"
  by (induction m p ps xs z rule: seg.induct) (auto split: option.splits)

lemma seg_cells: "seg m p ps xs z \<Longrightarrow> a \<in> set ps \<Longrightarrow> cells_q m a \<noteq> None \<and> a \<noteq> NULL"
  by (induction m p ps xs z rule: seg.induct) (auto split: option.splits)

lemma seg_cong:
  "(\<And>a. a \<in> set ps \<Longrightarrow> cells_q m' a = cells_q m a) \<Longrightarrow> seg m' p ps xs z = seg m p ps xs z"
  by (induction m p ps xs z rule: seg.induct) (auto split: option.splits)

lemma seg_append:
  "length ps = length xs \<Longrightarrow>
   seg m p (ps @ ps') (xs @ xs') z \<longleftrightarrow> (\<exists>y. seg m p ps xs y \<and> seg m y ps' xs' z)"
proof (induction ps xs arbitrary: p rule: list_induct2)
  case (Cons a ps x xs)
  then show ?case by (auto split: option.splits)
qed simp

lemma fila_vazia: "fila m q ps xs \<Longrightarrow> first q = NULL \<longleftrightarrow> xs = []"
  by (cases ps; cases xs; auto simp: fila_def split: option.splits)

section \<open>The operations act as on a list\<close>

lemma seg_put:
  "a \<notin> set ps \<Longrightarrow> seg (put_q m a c) p ps xs z = seg m p ps xs z"
  by (rule seg_cong) (auto simp: put_q_def)

lemma seg_campos [simp]:
  "seg (m\<lparr>empty_element_ptr := e\<rparr>) p ps xs z = seg m p ps xs z"
  "seg (m\<lparr>prox_q := e\<rparr>) p ps xs z = seg m p ps xs z"
  "seg (m\<lparr>freed := fr\<rparr>) p ps xs z = seg m p ps xs z"
  by (rule seg_cong, simp)+

lemma fila_frame:
  assumes "fila m q ps xs" "\<And>a. a \<in> set ps \<Longrightarrow> cells_q m' a = cells_q m a" "mem_ok m'"
    "empty_element_ptr m' \<notin> set ps"
  shows "fila m' q ps xs"
  using assms seg_cong[of ps m' m] by (auto simp: fila_def)

lemma fila_celulas: "fila m q ps xs \<Longrightarrow> set ps \<subseteq> {0<..<prox_q m}"
  using seg_cells by (fastforce simp: fila_def mem_ok_def NULL_def)

lemma fila_curta: "fila m q ps xs \<Longrightarrow> length ps < Suc (prox_q m)"
proof -
  assume f: "fila m q ps xs"
  have "card (set ps) \<le> card {0<..<prox_q m}" by (rule card_mono) (use fila_celulas[OF f] in auto)
  then show ?thesis using f by (simp add: fila_def distinct_card)
qed

text \<open>The cell that queue_insert takes: fresh, or the recycled one.\<close>

definition celula_nova :: "mem_q \<Rightarrow> addr \<times> mem_q" where
  "celula_nova m =
     (if empty_element_ptr m = NULL then (prox_q m, m\<lparr>prox_q := prox_q m + 1\<rparr>)
      else (empty_element_ptr m, m\<lparr>empty_element_ptr := NULL\<rparr>))"

lemma celula_nova_livre:
  assumes "celula_nova m = (p, m1)" "mem_ok m"
  shows "p \<noteq> NULL" "mem_ok (put_q m1 p c)" "empty_element_ptr (put_q m1 p c) = NULL"
    "cells_q m1 = cells_q m" "fila m q ps xs \<Longrightarrow> p \<notin> set ps"
proof -
  show "p \<noteq> NULL" "cells_q m1 = cells_q m" "empty_element_ptr (put_q m1 p c) = NULL"
    using assms by (auto simp: celula_nova_def mem_ok_def put_q_def split: if_splits)
  show "mem_ok (put_q m1 p c)"
    using assms by (auto simp: celula_nova_def mem_ok_def put_q_def NULL_def split: if_splits)
      (metis less_SucI)+
  show "fila m q ps xs \<Longrightarrow> p \<notin> set ps"
    using assms fila_celulas[of m q ps xs] by (auto simp: celula_nova_def fila_def split: if_splits)
qed

lemma queue_insert_fila:
  assumes f: "fila m q ps xs"
  shows "\<exists>p q' m'. queue_insert m q x = Inr (q', m') \<and> fila m' q' (ps @ [p]) (xs @ [x]) \<and>
    (\<forall>q2 ps2 xs2. fila m q2 ps2 xs2 \<longrightarrow> set ps2 \<inter> set ps = {} \<longrightarrow>
        fila m' q2 ps2 xs2 \<and> p \<notin> set ps2)"
proof -
  obtain p m1 where c: "celula_nova m = (p, m1)" by fastforce
  have ok: "mem_ok m" using f by (simp add: fila_def)
  note n = celula_nova_livre[OF c ok]
  let ?m2 = "put_q m1 p \<lparr>conteudo = x, proximo = NULL\<rparr>"
  have p: "p \<notin> set ps" by (rule n(5)[OF f])
  have cells2: "cells_q ?m2 a = cells_q m a" if "a \<noteq> p" for a using that n(4) by (simp add: put_q_def)
  have pc: "cells_q ?m2 p = Some \<lparr>conteudo = x, proximo = NULL\<rparr>" by (simp add: put_q_def)
  have fr: "fila ?m2 q2 ps2 xs2 \<and> p \<notin> set ps2" if "fila m q2 ps2 xs2" for q2 ps2 xs2
  proof
    show np: "p \<notin> set ps2" by (rule n(5)[OF that])
    have "NULL \<notin> set ps2" using fila_celulas[OF that] by (auto simp: NULL_def)
    then show "fila ?m2 q2 ps2 xs2" using np n(2,3) by (intro fila_frame[OF that] cells2) auto
  qed
  show ?thesis
  proof (cases "first q = NULL")
    case True
    then have e: "xs = []" "ps = []" using fila_vazia[OF f] f by (auto simp: fila_def dest: seg_length)
    have "queue_insert m q x = Inr (\<lparr>first = p, last_q = p\<rparr>, ?m2)"
      using True c by (simp add: queue_insert_def celula_nova_def Let_def split: if_splits)
    moreover have "fila ?m2 \<lparr>first = p, last_q = p\<rparr> [p] [x]"
      using n(1,2,3) pc by (simp add: fila_def)
    ultimately show ?thesis using fr e by fastforce
  next
    case False
    then have nx: "xs \<noteq> []" using fila_vazia[OF f] by simp
    have l: "length ps = length xs" using f seg_length[of m "first q"] by (auto simp: fila_def)
    then have nps: "ps \<noteq> []" using nx by auto
    obtain ps0 a where ps: "ps = ps0 @ [a]" using nps rev_exhaust by blast
    obtain xs0 y where xs: "xs = xs0 @ [y]" using nx rev_exhaust by blast
    have la: "last_q q = a" using f ps by (simp add: fila_def)
    have "seg m (first q) (ps0 @ [a]) (xs0 @ [y]) NULL" using f ps xs by (simp add: fila_def)
    then obtain b where b: "seg m (first q) ps0 xs0 b" "seg m b [a] [y] NULL"
      using seg_append[of ps0 xs0 m "first q" "[a]" "[y]" NULL] l ps xs by auto
    then have ca: "cells_q m a = Some \<lparr>conteudo = y, proximo = NULL\<rparr>" "b = a" "a \<noteq> NULL"
      by (auto split: option.splits)
    have ap: "a \<noteq> p" using p ps by auto
    let ?m3 = "put_q ?m2 a \<lparr>conteudo = y, proximo = p\<rparr>"
    have run: "queue_insert m q x = Inr (q\<lparr>last_q := p\<rparr>, ?m3)"
      using False c ca ap cells2[OF ap] la
      by (simp add: queue_insert_def celula_nova_def Let_def deref_q_def split: if_splits)
    have d: "a \<notin> set ps0" "distinct ps0" using f ps by (auto simp: fila_def)
    have "seg ?m3 (first q) ps0 xs0 a"
      using b(1) ca(2) d p ps by (subst seg_cong[of ps0 ?m3 m]) (auto simp: put_q_def n(4))
    moreover have "seg ?m3 a [a, p] [y, x] NULL" using ca(3) n(1) ap pc by (simp add: put_q_def)
    ultimately have "seg ?m3 (first q) (ps @ [p]) (xs @ [x]) NULL"
      using seg_append[of ps0 xs0 ?m3 "first q" "[a, p]" "[y, x]" NULL] l ps xs by auto
    moreover have ok3: "mem_ok ?m3" "empty_element_ptr ?m3 = NULL"
      using n(2)[of "\<lparr>conteudo = x, proximo = NULL\<rparr>"] n(3)[of "\<lparr>conteudo = x, proximo = NULL\<rparr>"] cells2[OF ap] ca
      by (auto simp: mem_ok_def put_q_def)
    ultimately have "fila ?m3 (q\<lparr>last_q := p\<rparr>) (ps @ [p]) (xs @ [x])"
      using f p n(1) fila_celulas[OF f] by (auto simp: fila_def NULL_def)
    moreover have "fila ?m3 q2 ps2 xs2 \<and> p \<notin> set ps2"
      if "fila m q2 ps2 xs2" "set ps2 \<inter> set ps = {}" for q2 ps2 xs2
    proof
      show np: "p \<notin> set ps2" using fr that by blast
      have "a \<notin> set ps2" using that(2) ps by auto
      moreover have "NULL \<notin> set ps2" using fila_celulas[OF that(1)] by (auto simp: NULL_def)
      ultimately show "fila ?m3 q2 ps2 xs2"
        using ok3 np n(4) by (intro fila_frame[OF that(1)]) (auto simp: put_q_def)
    qed
    ultimately show ?thesis using run by blast
  qed
qed

lemma queue_remove_fila:
  assumes f: "fila m q (p # ps) (x # xs)"
  shows "\<exists>q' m'. queue_remove m q = Inr (x, q', m') \<and> fila m' q' ps xs \<and>
    (\<forall>q2 ps2 xs2. fila m q2 ps2 xs2 \<longrightarrow> set ps2 \<inter> set (p # ps) = {} \<longrightarrow> fila m' q2 ps2 xs2)"
proof -
  obtain c where c: "cells_q m p = Some c" "conteudo c = x" "seg m (proximo c) ps xs NULL" "first q = p" "p \<noteq> NULL"
    using f by (auto simp: fila_def split: option.splits)
  define m2 where "m2 = put_q m p \<lparr>conteudo = NULL, proximo = NULL\<rparr>"
  define m3 where "m3 = (if empty_element_ptr m2 \<noteq> NULL then m2\<lparr>cells_q := (cells_q m2)(p := None)\<rparr>
                 else m2\<lparr>empty_element_ptr := p\<rparr>)"
  have run: "queue_remove m q = Inr (x, q\<lparr>first := proximo c\<rparr>, m3)"
    using c by (simp add: queue_remove_def Let_def deref_q_def m2_def m3_def)
  have pe: "p \<noteq> empty_element_ptr m" using f by (auto simp: fila_def)
  have ok: "mem_ok m3"
    using f c pe by (auto simp: fila_def mem_ok_def m3_def m2_def put_q_def)
  have e3: "empty_element_ptr m3 \<in> {empty_element_ptr m, p}" by (auto simp: m3_def m2_def put_q_def)
  have cells: "cells_q m3 a = cells_q m a" if "a \<noteq> p" for a
    using that by (auto simp: m3_def m2_def put_q_def)
  have "seg m3 (proximo c) ps xs NULL"
    using f c(3) by (subst seg_cong[of ps m3 m, OF cells]) (auto simp: fila_def)
  then have "fila m3 (q\<lparr>first := proximo c\<rparr>) ps xs"
    using f ok e3 by (auto simp: fila_def split: if_splits)
  moreover have "fila m3 q2 ps2 xs2" if "fila m q2 ps2 xs2" "set ps2 \<inter> set (p # ps) = {}" for q2 ps2 xs2
    using that ok e3 by (intro fila_frame[OF that(1)] cells) (auto simp: fila_def)
  ultimately show ?thesis using run by blast
qed

lemma queue_remove_vazia: "fila m q ps [] \<Longrightarrow> queue_remove m q = Inl (BadAddr NULL)"
  using fila_vazia[of m q ps "[]"]
  by (auto simp: queue_remove_def deref_q_def fila_def mem_ok_def split: option.splits)

lemma delete_cells_fila:
  assumes "seg m p ps xs NULL" "distinct ps" "length ps < f"
  shows "\<exists>m'. delete_cells f m p = Inr m' \<and> freed m' = rev xs @ freed m \<and>
    cells_q m' = (\<lambda>a. if a \<in> set ps then None else cells_q m a) \<and> prox_q m' = prox_q m \<and>
    empty_element_ptr m' = empty_element_ptr m"
  using assms
proof (induction ps arbitrary: f m p xs)
  case Nil
  then show ?case by (cases xs; cases f) auto
next
  case (Cons a ps)
  then obtain x xs' where xs: "xs = x # xs'" by (cases xs) auto
  obtain f' where f: "f = Suc f'" using Cons.prems by (cases f) auto
  obtain c where c: "cells_q m a = Some c" "conteudo c = x" "seg m (proximo c) ps xs' NULL" "p = a" "a \<noteq> NULL"
    using Cons.prems xs by (auto split: option.splits)
  let ?m = "m\<lparr>freed := x # freed m, cells_q := (cells_q m)(a := None)\<rparr>"
  have "seg ?m (proximo c) ps xs' NULL"
    using c Cons.prems by (subst seg_cong[of ps ?m m]) auto
  from Cons.IH[OF this] Cons.prems obtain m' where m': "delete_cells f' ?m (proximo c) = Inr m'"
    "freed m' = rev xs' @ freed ?m" "cells_q m' = (\<lambda>b. if b \<in> set ps then None else cells_q ?m b)"
    "prox_q m' = prox_q ?m" "empty_element_ptr m' = empty_element_ptr ?m"
    using f by auto
  then show ?case using c f xs by (auto simp: deref_q_def fun_eq_iff)
qed

lemma delete_queue_fila:
  assumes f: "fila m q ps xs"
  shows "\<exists>m'. delete_queue m q = Inr m' \<and> freed m' = rev xs @ freed m \<and>
    (\<forall>q2 ps2 xs2. fila m q2 ps2 xs2 \<longrightarrow> set ps2 \<inter> set ps = {} \<longrightarrow> fila m' q2 ps2 xs2)"
proof -
  obtain m' where m': "delete_queue m q = Inr m'" "freed m' = rev xs @ freed m"
    "cells_q m' = (\<lambda>a. if a \<in> set ps then None else cells_q m a)" "prox_q m' = prox_q m"
    "empty_element_ptr m' = empty_element_ptr m"
    using delete_cells_fila[of m "first q" ps xs "Suc (prox_q m)"] f fila_curta[OF f]
    by (auto simp: fila_def delete_queue_def)
  have "fila m' q2 ps2 xs2" if "fila m q2 ps2 xs2" "set ps2 \<inter> set ps = {}" for q2 ps2 xs2
    using f m' that by (intro fila_frame[OF that(1)]) (auto simp: fila_def mem_ok_def)
  then show ?thesis using m' by blast
qed

lemma create_queue_fila: "mem_ok m \<Longrightarrow> create_queue m = (q, m') \<Longrightarrow> fila m' q [] []"
  by (auto simp: create_queue_def fila_def mem_ok_def)

lemma mem_inicial_ok: "mem_ok mem_inicial"
  by (simp add: mem_ok_def mem_inicial_def NULL_def)

section \<open>The queue as a container\<close>

text \<open>The state of one queue together with the memory of all of them.\<close>

definition guarda :: "queue_t \<times> mem_q \<Rightarrow> addr \<Rightarrow> (queue_t \<times> mem_q) res" where
  "guarda s x = queue_insert (snd s) (fst s) x"

definition retira :: "queue_t \<times> mem_q \<Rightarrow> (addr \<times> queue_t \<times> mem_q) res" where
  "retira s = queue_remove (snd s) (fst s)"

definition tem_fila :: "queue_t \<times> mem_q \<Rightarrow> addr list \<Rightarrow> bool" where
  "tem_fila s xs \<longleftrightarrow> (\<exists>ps. fila (snd s) (fst s) ps xs)"

interpretation threads: fifo tem_fila guarda "\<lambda>_ _. True" retira
proof
  fix s xs and x :: addr
  assume "tem_fila s xs"
  then obtain ps where f: "fila (snd s) (fst s) ps xs" by (auto simp: tem_fila_def)
  then show "\<exists>s'. guarda s x = Inr s' \<and> tem_fila s' (xs @ [x])"
    using queue_insert_fila[OF f, of x] by (fastforce simp: guarda_def tem_fila_def)
next
  fix s xs and x :: addr
  assume "tem_fila s (x # xs)"
  then obtain ps where f: "fila (snd s) (fst s) ps (x # xs)" by (auto simp: tem_fila_def)
  then obtain p ps' where "ps = p # ps'" by (cases ps) (auto simp: fila_def)
  then show "\<exists>s'. retira s = Inr (x, s') \<and> tem_fila s' xs"
    using queue_remove_fila[of "snd s" "fst s" p ps' x xs] f by (fastforce simp: retira_def tem_fila_def)
qed

end
