(* ===== verification/Scheduler.thy ===== *)
theory Scheduler
  imports RedBlack "HOL-Library.Word"
begin

text \<open>
  The user-level thread scheduler of sthread_lib/sthread_user.c: threads, the two red-black
  trees (ready and sleeping), join, zombie and dead lists, mutexes and monitors.  The state is
  one record; a C function is a function from states to \<open>res\<close>.

  \<open>sthread_switch(old, new)\<close> is modelled by a stack of continuations per thread: the calling
  thread pushes what its C function still has to do after the switch returns, and the machine
  goes on with the top continuation of the new active thread (\<open>retoma\<close>).  \<open>splx\<close> is the flag
  \<open>interrupcoes\<close>.  A spin on a lock flag that is set is \<open>Inl Blocked\<close>: the call makes no
  progress in that state and can be tried again after another thread has run.  The queues of
  this theory are lists; ThreadQueue shows that the C queues behave like that.
\<close>

section \<open>State\<close>

text \<open>struct _sthread; \<open>join_ret\<close>, the start routine and its arguments are opaque values.\<close>

record sthread =
  start_routine_ptr :: int
  wake_time :: int
  join_tid :: int
  join_ret :: int
  args :: int
  tid_s :: int
  vruntime :: int
  exectime :: int
  priority :: int
  nice :: int
  times_runned :: int
  waittime :: int
  sleeptime :: int

text \<open>struct _sthread_mutex and struct _sthread_mon.\<close>

record sthread_mutex =
  id_monitor :: int
  id_m :: int
  l :: bool
  thr :: addr
  queue_m :: "addr list"

record sthread_mon =
  id_mon :: int
  mutex :: addr
  queue_mon :: "addr list"

text \<open>What a thread still has to do when it is switched to.\<close>

datatype cont =
    Arranca                 \<comment> \<open>sthread_aux_start: enable interrupts, enter the start routine\<close>
  | Retorna                 \<comment> \<open>enable interrupts and return\<close>
  | FimTick                 \<comment> \<open>rest of the dispatcher after its call of yield\<close>
  | FimJoin addr addr       \<comment> \<open>rest of join: thread and value_ptr\<close>
  | FimUnlock addr          \<comment> \<open>rest of mutex_unlock: release the lock flag\<close>
  | FimMonWait              \<comment> \<open>rest of monitor_wait after its call of mutex_unlock\<close>

record sched =
  exe_thr_arvore_rb :: arvore_rb
  sleep_thr_arvore_rb :: arvore_rb
  dead_thr_list :: "addr list"
  join_thr_list :: "addr list"
  zombie_thr_list :: "addr list"
  mutex_list :: "addr list"
  monitor_list :: "addr list"
  active_thr :: addr
  tid_gen :: int
  Clock :: "32 word"
  mutex_id_gen :: int
  monitor_id_gen :: int
  threads :: "addr \<Rightarrow> sthread option"
  mutexes :: "addr \<Rightarrow> sthread_mutex option"
  monitors :: "addr \<Rightarrow> sthread_mon option"
  prox_s :: addr
  conts :: "addr \<Rightarrow> cont list"
  interrupcoes :: bool
  memoria :: "addr \<Rightarrow> int"

definition min_delay :: int where
  "min_delay = 5"

definition CLOCK_TICK :: int where
  "CLOCK_TICK = 10000"

definition thread_em :: "sched \<Rightarrow> addr \<Rightarrow> sthread res" where
  "thread_em s a = (case threads s a of None \<Rightarrow> Inl (BadAddr a) | Some t \<Rightarrow> Inr t)"

definition mutex_em :: "sched \<Rightarrow> addr \<Rightarrow> sthread_mutex res" where
  "mutex_em s a = (case mutexes s a of None \<Rightarrow> Inl (BadAddr a) | Some m \<Rightarrow> Inr m)"

definition monitor_em :: "sched \<Rightarrow> addr \<Rightarrow> sthread_mon res" where
  "monitor_em s a = (case monitors s a of None \<Rightarrow> Inl (BadAddr a) | Some m \<Rightarrow> Inr m)"

definition muda_thread :: "(sthread \<Rightarrow> sthread) \<Rightarrow> sched \<Rightarrow> addr \<Rightarrow> sched res" where
  "muda_thread g s a = bindr (thread_em s a) (\<lambda>t. Inr (s\<lparr>threads := (threads s)(a \<mapsto> g t)\<rparr>))"

definition muda_mutex :: "(sthread_mutex \<Rightarrow> sthread_mutex) \<Rightarrow> sched \<Rightarrow> addr \<Rightarrow> sched res" where
  "muda_mutex g s a = bindr (mutex_em s a) (\<lambda>m. Inr (s\<lparr>mutexes := (mutexes s)(a \<mapsto> g m)\<rparr>))"

definition muda_monitor :: "(sthread_mon \<Rightarrow> sthread_mon) \<Rightarrow> sched \<Rightarrow> addr \<Rightarrow> sched res" where
  "muda_monitor g s a = bindr (monitor_em s a) (\<lambda>m. Inr (s\<lparr>monitors := (monitors s)(a \<mapsto> g m)\<rparr>))"

definition splx_high :: "sched \<Rightarrow> sched" where
  "splx_high s = s\<lparr>interrupcoes := False\<rparr>"

definition splx_low :: "sched \<Rightarrow> sched" where
  "splx_low s = s\<lparr>interrupcoes := True\<rparr>"

text \<open>(nice + priority) * times_runned, the charge of the current slice.\<close>

definition custo :: "sthread \<Rightarrow> int" where
  "custo t = (nice t + priority t) * times_runned t"

section \<open>Switching\<close>

text \<open>RBInserir of the ready tree.\<close>

definition RBInserir :: "sched \<Rightarrow> addr \<Rightarrow> sched res" where
  "RBInserir s a =
     bindr (thread_em s a) (\<lambda>t.
     bindr (RBInserirNo (exe_thr_arvore_rb s) (vruntime t) (tid_s t) a) (\<lambda>r.
     Inr (s\<lparr>exe_thr_arvore_rb := r\<rparr>)))"

text \<open>active_thr = RBExtraiMininimo(exe_thr_arvore_rb).\<close>

definition proxima_thread :: "sched \<Rightarrow> sched res" where
  "proxima_thread s =
     bindr (RBExtraiMininimo (exe_thr_arvore_rb s)) (\<lambda>(a, r).
     Inr (s\<lparr>exe_thr_arvore_rb := r, active_thr := a\<rparr>))"

text \<open>
  sthread_switch(old->saved_ctx, active_thr->saved_ctx): both threads are dereferenced; the old
  one leaves its continuation.
\<close>

definition sthread_switch :: "sched \<Rightarrow> addr \<Rightarrow> cont \<Rightarrow> sched res" where
  "sthread_switch s old c =
     bindr (thread_em s old) (\<lambda>_.
     bindr (thread_em s (active_thr s)) (\<lambda>_.
     Inr (s\<lparr>conts := (conts s)(old := c # conts s old)\<rparr>)))"

section \<open>Initialisation, creation, exit\<close>

text \<open>
  sthread_user_init.  The field \<open>waittime\<close> is not initialised by the code: \<open>lixo\<close> is the value
  \<open>malloc\<close> happened to leave there, here and in sthread_user_create.
\<close>

definition sthread_user_init :: "int \<Rightarrow> sched" where
  "sthread_user_init lixo =
     \<lparr>exe_thr_arvore_rb = RBNovaArvore, sleep_thr_arvore_rb = RBNovaArvore, dead_thr_list = [],
      join_thr_list = [], zombie_thr_list = [], mutex_list = [], monitor_list = [],
      active_thr = 1, tid_gen = 2, Clock = 1, mutex_id_gen = 0, monitor_id_gen = 0,
      threads = [1 \<mapsto> \<lparr>start_routine_ptr = 0, wake_time = 0, join_tid = 0, join_ret = 0, args = 0,
                     tid_s = 1, vruntime = 0, exectime = 0, priority = 1, nice = 0,
                     times_runned = 0, waittime = lixo, sleeptime = 0\<rparr>],
      mutexes = Map.empty, monitors = Map.empty, prox_s = 2, conts = (\<lambda>_. []),
      interrupcoes = True, memoria = (\<lambda>_. 0)\<rparr>"

definition limita :: "int \<Rightarrow> int" where
  "limita p = (if p > 10 then 10 else if p < 1 then 1 else p)"

definition sthread_user_create :: "int \<Rightarrow> sched \<Rightarrow> int \<Rightarrow> int \<Rightarrow> int \<Rightarrow> (addr \<times> sched) res" where
  "sthread_user_create lixo s rotina arg prioridade =
     bindr (RBMenorChave (exe_thr_arvore_rb s)) (\<lambda>v.
       let a = prox_s s;
           t = \<lparr>start_routine_ptr = rotina, wake_time = 0, join_tid = 0, join_ret = 0, args = arg,
                tid_s = tid_gen s, vruntime = v, exectime = 0, priority = limita prioridade,
                nice = 0, times_runned = 0, waittime = lixo, sleeptime = 0\<rparr>;
           s = s\<lparr>threads := (threads s)(a \<mapsto> t), prox_s := a + 1, tid_gen := tid_gen s + 1,
                 conts := (conts s)(a := [Arranca])\<rparr>
       in bindr (RBInserir (splx_high s) a) (\<lambda>s. Inr (a, splx_low s)))"

text \<open>sthread_user_free.\<close>

definition sthread_user_free :: "sched \<Rightarrow> addr \<Rightarrow> sched res" where
  "sthread_user_free s a =
     bindr (thread_em s a) (\<lambda>_. Inr (s\<lparr>threads := (threads s)(a := None)\<rparr>))"

text \<open>delete_queue of a list of threads frees every thread of the list.\<close>

fun liberta_fila :: "sched \<Rightarrow> addr list \<Rightarrow> sched res" where
  "liberta_fila s [] = Inr s"
| "liberta_fila s (a # as) = bindr (sthread_user_free s a) (\<lambda>s. liberta_fila s as)"

text \<open>
  The loop of sthread_user_exit over the join list: returns the new list, whether the thread
  stays a zombie, and the state in which the joiners are ready again.
\<close>

fun liberta_joins :: "sched \<Rightarrow> int \<Rightarrow> int \<Rightarrow> addr list \<Rightarrow> addr list \<Rightarrow> bool \<Rightarrow> (addr list \<times> bool \<times> sched) res" where
  "liberta_joins s i ret [] tmp z = Inr (tmp, z, s)"
| "liberta_joins s i ret (a # as) tmp z =
     bindr (thread_em s a) (\<lambda>t.
     if join_tid t = i then
       bindr (muda_thread (join_ret_update (\<lambda>_. ret)) s a) (\<lambda>s.
       bindr (RBInserir s a) (\<lambda>s. liberta_joins s i ret as tmp False))
     else liberta_joins s i ret as (tmp @ [a]) z)"

definition sthread_user_exit :: "sched \<Rightarrow> int \<Rightarrow> sched res" where
  "sthread_user_exit s ret =
     (let s = splx_high s; eu = active_thr s in
      bindr (thread_em s eu) (\<lambda>t.
      bindr (liberta_joins s (tid_s t) ret (join_thr_list s) [] True) (\<lambda>(js, z, s).
        let s = s\<lparr>join_thr_list := js\<rparr>;
            s = (if z then s\<lparr>zombie_thr_list := zombie_thr_list s @ [eu]\<rparr>
                 else s\<lparr>dead_thr_list := dead_thr_list s @ [eu]\<rparr>)
        in bindr (RBArvoreVazia (exe_thr_arvore_rb s)) (\<lambda>vazia.
           if vazia then
             bindr (RBarvoreDestroy (exe_thr_arvore_rb s)) (\<lambda>_.
             bindr (liberta_fila s (dead_thr_list s)) (\<lambda>s.
             bindr (sthread_user_free s eu) (\<lambda>s. Inl (Exited 0))))
           else
             bindr (proxima_thread s) (\<lambda>s. sthread_switch s eu Retorna)))))"

definition sthread_user_yield :: "sched \<Rightarrow> sched res" where
  "sthread_user_yield s =
     (let s = splx_high s; old = active_thr s in
      bindr (RBInserir s old) (\<lambda>s.
      bindr (proxima_thread s) (\<lambda>s. sthread_switch s old Retorna)))"

section \<open>Accounting on a clock tick\<close>

text \<open>actualizarWaittime adds one to the waiting time of every thread of the ready tree.\<close>

fun actualizarWaittime :: "nat \<Rightarrow> sched \<Rightarrow> addr \<Rightarrow> sched res" where
  "actualizarWaittime 0 s h = Inl NoFuel"
| "actualizarWaittime (Suc f) s h =
     (let r = exe_thr_arvore_rb s in
      if h = nil r then Inr s
      else
        bindr (rd esq r h) (\<lambda>e.
        bindr (actualizarWaittime f s e) (\<lambda>s.
        bindr (rd elem r h) (\<lambda>a.
        bindr (muda_thread (\<lambda>t. t\<lparr>waittime := waittime t + 1\<rparr>) s a) (\<lambda>s.
        bindr (rd dir r h) (\<lambda>d. actualizarWaittime f s d))))))"

text \<open>actualizarSleepTimeLista adds one to the blocked time of every thread of a list.\<close>

fun actualizarSleepTimeLista :: "sched \<Rightarrow> addr list \<Rightarrow> sched res" where
  "actualizarSleepTimeLista s [] = Inr s"
| "actualizarSleepTimeLista s (a # as) =
     bindr (muda_thread (\<lambda>t. t\<lparr>sleeptime := sleeptime t + 1\<rparr>) s a) (\<lambda>s.
     actualizarSleepTimeLista s as)"

definition actualizarJoinTime :: "sched \<Rightarrow> sched res" where
  "actualizarJoinTime s = actualizarSleepTimeLista s (join_thr_list s)"

fun actualizarMutex :: "sched \<Rightarrow> addr list \<Rightarrow> sched res" where
  "actualizarMutex s [] = Inr s"
| "actualizarMutex s (m # ms) =
     bindr (mutex_em s m) (\<lambda>mx.
     bindr (if thr mx \<noteq> NULL then muda_thread (\<lambda>t. t\<lparr>sleeptime := sleeptime t + 1\<rparr>) s (thr mx)
            else Inr s) (\<lambda>s.
     bindr (actualizarSleepTimeLista s (queue_m mx)) (\<lambda>s.
     actualizarMutex s ms)))"

fun actualizarMonitores :: "sched \<Rightarrow> addr list \<Rightarrow> sched res" where
  "actualizarMonitores s [] = Inr s"
| "actualizarMonitores s (m # ms) =
     bindr (monitor_em s m) (\<lambda>mn.
     bindr (actualizarSleepTimeLista s (queue_mon mn)) (\<lambda>s.
     actualizarMonitores s ms))"

text \<open>
  acordarProcessos walks the tree of sleeping threads.  A thread whose time has come moves to
  the ready tree and its node is removed, and freed, by RBRemoverNo; the recursion then reads
  the right child of that node.  \<open>wake_time\<close> is signed and \<open>Clock\<close> unsigned, so C compares
  them as unsigned words.
\<close>

fun acordarProcessos :: "nat \<Rightarrow> sched \<Rightarrow> addr \<Rightarrow> sched res" where
  "acordarProcessos 0 s h = Inl NoFuel"
| "acordarProcessos (Suc f) s h =
     (if h = nil (sleep_thr_arvore_rb s) then Inr s
      else
        bindr (rd esq (sleep_thr_arvore_rb s) h) (\<lambda>e.
        bindr (acordarProcessos f s e) (\<lambda>s.
        bindr (rd elem (sleep_thr_arvore_rb s) h) (\<lambda>a.
        bindr (thread_em s a) (\<lambda>t.
        bindr (if word_of_int (wake_time t) \<le> Clock s then
                 bindr (muda_thread (wake_time_update (\<lambda>_. 0)) s a) (\<lambda>s.
                 bindr (RBInserir s a) (\<lambda>s.
                 bindr (wr_elem (sleep_thr_arvore_rb s) h NULL) (\<lambda>r.
                 bindr (RBRemoverNo r h) (\<lambda>r. Inr (s\<lparr>sleep_thr_arvore_rb := r\<rparr>)))))
               else muda_thread (\<lambda>t. t\<lparr>sleeptime := sleeptime t + 1\<rparr>) s a) (\<lambda>s.
        bindr (rd dir (sleep_thr_arvore_rb s) h) (\<lambda>d. acordarProcessos f s d)))))))"

text \<open>The part of the dispatcher behind its call of sthread_user_yield.\<close>

definition fim_tick :: "sched \<Rightarrow> sched res" where
  "fim_tick s =
     (let s = s\<lparr>Clock := Clock s + 1\<rparr> in
      bindr (thread_em s (active_thr s)) (\<lambda>t.
      if times_runned t < min_delay then Inr s
      else muda_thread (\<lambda>t. t\<lparr>vruntime := vruntime t + custo t, times_runned := 0\<rparr>) s (active_thr s)))"

text \<open>
  sthread_user_dispatcher up to its end, or up to the switch of the yield inside it; in the
  latter case the rest is the continuation \<open>FimTick\<close>, below the one of yield.
\<close>

definition contabiliza :: "sched \<Rightarrow> sched res" where
  "contabiliza s =
     bindr (muda_thread (\<lambda>t. t\<lparr>times_runned := times_runned t + 1, exectime := exectime t + 1\<rparr>)
              s (active_thr s)) (\<lambda>s.
     bindr (RBRaizArvore (exe_thr_arvore_rb s)) (\<lambda>h.
     bindr (actualizarWaittime (Suc (prox (exe_thr_arvore_rb s))) s h) (\<lambda>s.
     bindr (actualizarJoinTime s) (\<lambda>s.
     bindr (actualizarMutex s (mutex_list s)) (\<lambda>s.
     bindr (actualizarMonitores s (monitor_list s)) (\<lambda>s.
     bindr (RBRaizArvore (sleep_thr_arvore_rb s)) (\<lambda>h.
     acordarProcessos (Suc (prox (sleep_thr_arvore_rb s))) s h)))))))"

definition sthread_user_dispatcher :: "sched \<Rightarrow> sched res" where
  "sthread_user_dispatcher s =
     bindr (contabiliza s) (\<lambda>s.
     bindr (thread_em s (active_thr s)) (\<lambda>t.
     bindr (RBMenorChave (exe_thr_arvore_rb s)) (\<lambda>k.
     if vruntime t + custo t \<ge> k then
       sthread_user_yield (s\<lparr>conts := (conts s)(active_thr s := FimTick # conts s (active_thr s))\<rparr>)
     else fim_tick s)))"

section \<open>Join and sleep\<close>

text \<open>The loop of sthread_user_join over the zombies.\<close>

fun recolhe_zombies ::
  "sched \<Rightarrow> addr \<Rightarrow> int \<Rightarrow> addr \<Rightarrow> addr list \<Rightarrow> addr list \<Rightarrow> bool \<Rightarrow> (addr list \<times> bool \<times> sched) res" where
  "recolhe_zombies s th i ptr [] tmp found = Inr (tmp, found, s)"
| "recolhe_zombies s th i ptr (z # zs) tmp found =
     bindr (thread_em s z) (\<lambda>zt.
     if i = tid_s zt then
       bindr (thread_em s th) (\<lambda>t.
       if ptr = NULL then Inl (BadAddr NULL)
       else recolhe_zombies (s\<lparr>memoria := (memoria s)(ptr := join_ret t),
                              dead_thr_list := dead_thr_list s @ [z]\<rparr>) th i ptr zs tmp True)
     else recolhe_zombies s th i ptr zs (tmp @ [z]) found)"

fun procura_tid :: "sched \<Rightarrow> int \<Rightarrow> addr list \<Rightarrow> bool res" where
  "procura_tid s i [] = Inr False"
| "procura_tid s i (a # as) =
     bindr (thread_em s a) (\<lambda>t. if tid_s t = i then Inr True else procura_tid s i as)"

text \<open>
  sthread_user_join.  The search of the sleeping tree is an \<open>if\<close> whose body is the empty
  statement: \<open>found = 1\<close> behind it is executed unconditionally, so the search of the join
  list and the error return are never reached.  They are kept as in the code.  The result is
  \<open>Some\<close> the returned value, or \<open>None\<close> when the thread has been switched out.
\<close>

definition sthread_user_join :: "sched \<Rightarrow> addr \<Rightarrow> addr \<Rightarrow> (int option \<times> sched) res" where
  "sthread_user_join s th ptr =
     (let s = splx_high s; eu = active_thr s in
      bindr (thread_em s th) (\<lambda>t.
      bindr (recolhe_zombies s th (tid_s t) ptr (zombie_thr_list s) [] False) (\<lambda>(zs, found, s).
        let s = s\<lparr>zombie_thr_list := zs\<rparr> in
        if found then Inr (Some 0, splx_low s)
        else
          bindr (thread_em s eu) (\<lambda>e.
            let found = (if tid_s e = tid_s t then True else found) in
          bindr (RBSearchTID (exe_thr_arvore_rb s) (tid_s t)) (\<lambda>b.
            let found = (if b then True else found) in
          bindr (RBSearchTID (sleep_thr_arvore_rb s) (tid_s t)) (\<lambda>b.
            let found = True in
          bindr (if found then Inr True else procura_tid s (tid_s t) (join_thr_list s)) (\<lambda>found.
          if \<not> found then Inr (Some (-1), splx_low s)
          else
            bindr (muda_thread (join_tid_update (\<lambda>_. tid_s t)) s eu) (\<lambda>s.
              let s = s\<lparr>join_thr_list := join_thr_list s @ [eu]\<rparr> in
            bindr (proxima_thread s) (\<lambda>s.
            bindr (sthread_switch s eu (FimJoin th ptr)) (\<lambda>s. Inr (None, s)))))))))))"

text \<open>
  sthread_user_sleep: C division truncates; the sum with the unsigned \<open>Clock\<close> wraps before it is
  stored as a signed number.
\<close>

definition tdiv :: "int \<Rightarrow> int \<Rightarrow> int" where
  "tdiv a b = sgn a * (\<bar>a\<bar> div b)"

definition sthread_user_sleep :: "sched \<Rightarrow> int \<Rightarrow> (int option \<times> sched) res" where
  "sthread_user_sleep s time =
     (let s = splx_high s; num_ticks = tdiv time CLOCK_TICK; eu = active_thr s in
      if num_ticks = 0 then Inr (Some 0, splx_low s)
      else
        bindr (muda_thread (wake_time_update (\<lambda>_. sint (Clock s + word_of_int num_ticks))) s eu) (\<lambda>s.
        bindr (thread_em s eu) (\<lambda>t.
        bindr (RBInserirNo (sleep_thr_arvore_rb s) (wake_time t) (tid_s t) eu) (\<lambda>r.
          let s = s\<lparr>sleep_thr_arvore_rb := r\<rparr> in
        bindr (RBArvoreVazia (exe_thr_arvore_rb s)) (\<lambda>vazia.
        if vazia then Inl (Exited (-1))
        else
          bindr (proxima_thread s) (\<lambda>s.
          bindr (sthread_switch s eu Retorna) (\<lambda>s. Inr (None, s))))))))"

section \<open>Mutexes\<close>

definition sthread_user_mutex_init :: "sched \<Rightarrow> addr \<times> sched" where
  "sthread_user_mutex_init s =
     (let a = prox_s s;
          m = \<lparr>id_monitor = -1, id_m = mutex_id_gen s, l = False, thr = NULL, queue_m = []\<rparr>
      in (a, s\<lparr>mutexes := (mutexes s)(a \<mapsto> m), prox_s := a + 1,
               mutex_id_gen := mutex_id_gen s + 1, mutex_list := mutex_list s @ [a]\<rparr>))"

fun tira_mutex :: "sched \<Rightarrow> int \<Rightarrow> addr list \<Rightarrow> addr list \<Rightarrow> addr list res" where
  "tira_mutex s i [] tmp = Inr tmp"
| "tira_mutex s i (m # ms) tmp =
     bindr (mutex_em s m) (\<lambda>mx.
     if i = id_m mx then tira_mutex s i ms tmp else tira_mutex s i ms (tmp @ [m]))"

text \<open>sthread_user_mutex_free; delete_queue frees the threads that wait on the mutex.\<close>

definition sthread_user_mutex_free :: "sched \<Rightarrow> addr \<Rightarrow> sched res" where
  "sthread_user_mutex_free s lock =
     bindr (mutex_em s lock) (\<lambda>mx.
     bindr (tira_mutex s (id_m mx) (mutex_list s) []) (\<lambda>ms.
       let s = s\<lparr>mutex_list := ms\<rparr> in
     bindr (liberta_fila s (queue_m mx)) (\<lambda>s.
     Inr (s\<lparr>mutexes := (mutexes s)(lock := None)\<rparr>))))"

definition sthread_user_mutex_lock :: "sched \<Rightarrow> addr \<Rightarrow> sched res" where
  "sthread_user_mutex_lock s lock =
     bindr (mutex_em s lock) (\<lambda>mx.
     if l mx then Inl Blocked
     else if thr mx = NULL then
       muda_mutex (\<lambda>m. m\<lparr>thr := active_thr s, l := False\<rparr>) s lock
     else
       bindr (muda_mutex (\<lambda>m. m\<lparr>queue_m := queue_m m @ [active_thr s], l := False\<rparr>) s lock) (\<lambda>s.
         let s = splx_high s; old = active_thr s in
       bindr (proxima_thread s) (\<lambda>s. sthread_switch s old Retorna)))"

text \<open>The end of sthread_user_mutex_unlock.\<close>

definition fim_unlock :: "sched \<Rightarrow> addr \<Rightarrow> sched res" where
  "fim_unlock s lock = muda_mutex (l_update (\<lambda>_. False)) s lock"

text \<open>
  sthread_user_mutex_unlock.  When the charge of the slice puts the active thread behind the
  new owner it is switched out with the lock flag still set; \<open>fim_unlock\<close> clears it when the
  thread runs again.
\<close>

definition sthread_user_mutex_unlock :: "sched \<Rightarrow> addr \<Rightarrow> sched res" where
  "sthread_user_mutex_unlock s lock =
     bindr (mutex_em s lock) (\<lambda>mx.
     if thr mx \<noteq> active_thr s then Inr s
     else if l mx then Inl Blocked
     else
       case queue_m mx of
         [] \<Rightarrow> muda_mutex (\<lambda>m. m\<lparr>thr := NULL, l := False\<rparr>) s lock
       | w # ws \<Rightarrow>
           bindr (muda_mutex (\<lambda>m. m\<lparr>l := True, thr := w, queue_m := ws\<rparr>) s lock) (\<lambda>s.
           bindr (thread_em s (active_thr s)) (\<lambda>t.
             let tempr = vruntime t + custo t; s = splx_high s; old = active_thr s in
           bindr (thread_em s w) (\<lambda>wt.
           if tempr > vruntime wt then
             bindr (muda_thread (\<lambda>t. t\<lparr>vruntime := vruntime t + custo t, times_runned := 0\<rparr>) s old) (\<lambda>s.
             bindr (RBInserir s old) (\<lambda>s.
             sthread_switch (s\<lparr>active_thr := w\<rparr>) old (FimUnlock lock)))
           else
             bindr (RBInserir s w) (\<lambda>s. fim_unlock (splx_low s) lock)))))"

section \<open>Monitors\<close>

definition sthread_user_monitor_init :: "sched \<Rightarrow> (addr \<times> sched) res" where
  "sthread_user_monitor_init s =
     (let a = prox_s s; i = monitor_id_gen s;
          s = s\<lparr>prox_s := a + 1, monitor_id_gen := i + 1\<rparr>;
          (m, s) = sthread_user_mutex_init s
      in bindr (muda_mutex (id_monitor_update (\<lambda>_. i)) s m) (\<lambda>s.
         Inr (a, s\<lparr>monitors := (monitors s)(a \<mapsto> \<lparr>id_mon = i, mutex = m, queue_mon = []\<rparr>),
                   monitor_list := monitor_list s @ [a]\<rparr>)))"

text \<open>
  The loop of sthread_user_monitor_free: it tests \<open>monitor_list\<close> and takes elements from
  \<open>mutex_list\<close>.  An element read as a monitor starts with the field \<open>id_monitor\<close> of the mutex.
\<close>

fun tira_monitor :: "sched \<Rightarrow> int \<Rightarrow> addr list \<Rightarrow> addr list \<Rightarrow> addr list \<Rightarrow> (addr list \<times> addr list) res" where
  "tira_monitor s i [] ms tmp = Inr (tmp, ms)"
| "tira_monitor s i (x # xs) [] tmp = Inl (BadAddr NULL)"
| "tira_monitor s i (x # xs) (m # ms) tmp =
     bindr (mutex_em s m) (\<lambda>mx.
     if i = id_monitor mx then tira_monitor s i (x # xs) ms tmp
     else tira_monitor s i (x # xs) ms (tmp @ [m]))"

definition sthread_user_monitor_free :: "sched \<Rightarrow> addr \<Rightarrow> sched res" where
  "sthread_user_monitor_free s mon =
     bindr (monitor_em s mon) (\<lambda>mn.
     bindr (sthread_user_mutex_free s (mutex mn)) (\<lambda>s.
     bindr (liberta_fila s (queue_mon mn)) (\<lambda>s.
     bindr (tira_monitor s (id_mon mn) (monitor_list s) (mutex_list s) []) (\<lambda>(tmp, ms).
     Inr (s\<lparr>monitor_list := tmp, mutex_list := ms, monitors := (monitors s)(mon := None)\<rparr>)))))"

definition sthread_user_monitor_enter :: "sched \<Rightarrow> addr \<Rightarrow> sched res" where
  "sthread_user_monitor_enter s mon =
     bindr (monitor_em s mon) (\<lambda>mn. sthread_user_mutex_lock s (mutex mn))"

definition sthread_user_monitor_exit :: "sched \<Rightarrow> addr \<Rightarrow> sched res" where
  "sthread_user_monitor_exit s mon =
     bindr (monitor_em s mon) (\<lambda>mn. sthread_user_mutex_unlock s (mutex mn))"

text \<open>The second half of sthread_user_monitor_wait.\<close>

definition fim_mon_wait :: "sched \<Rightarrow> sched res" where
  "fim_mon_wait s =
     (let s = splx_high s; old = active_thr s in
      bindr (proxima_thread s) (\<lambda>s. sthread_switch s old Retorna))"

text \<open>
  sthread_user_monitor_wait.  The call of mutex_unlock may switch; the second half is then the
  continuation below the one of mutex_unlock.  It is pushed before the call and taken off again
  when the call returned without switching, which leaves the stack as it was.
\<close>

definition sthread_user_monitor_wait :: "sched \<Rightarrow> addr \<Rightarrow> sched res" where
  "sthread_user_monitor_wait s mon =
     bindr (monitor_em s mon) (\<lambda>mn.
     bindr (mutex_em s (mutex mn)) (\<lambda>mx.
     if thr mx \<noteq> active_thr s then Inr s
     else
       let eu = active_thr s; pilha = conts s eu in
       bindr (muda_monitor (\<lambda>m. m\<lparr>queue_mon := queue_mon m @ [eu]\<rparr>) s mon) (\<lambda>s.
       bindr (sthread_user_mutex_unlock (s\<lparr>conts := (conts s)(eu := FimMonWait # pilha)\<rparr>) (mutex mn)) (\<lambda>s.
       if conts s eu = FimMonWait # pilha then fim_mon_wait (s\<lparr>conts := (conts s)(eu := pilha)\<rparr>)
       else Inr s))))"

definition sthread_user_monitor_signal :: "sched \<Rightarrow> addr \<Rightarrow> sched res" where
  "sthread_user_monitor_signal s mon =
     bindr (monitor_em s mon) (\<lambda>mn.
     bindr (mutex_em s (mutex mn)) (\<lambda>mx.
     if thr mx \<noteq> active_thr s then Inr s
     else if l mx then Inl Blocked
     else
       bindr (case queue_mon mn of
                [] \<Rightarrow> Inr s
              | w # ws \<Rightarrow>
                  bindr (muda_monitor (queue_mon_update (\<lambda>_. ws)) s mon) (\<lambda>s.
                  muda_mutex (\<lambda>m. m\<lparr>queue_m := queue_m m @ [w]\<rparr>) s (mutex mn))) (\<lambda>s.
       muda_mutex (l_update (\<lambda>_. False)) s (mutex mn))))"

fun passa_todas :: "sched \<Rightarrow> addr \<Rightarrow> addr list \<Rightarrow> sched res" where
  "passa_todas s m [] = Inr s"
| "passa_todas s m (w # ws) =
     bindr (muda_mutex (\<lambda>mx. mx\<lparr>queue_m := queue_m mx @ [w]\<rparr>) s m) (\<lambda>s. passa_todas s m ws)"

definition sthread_user_monitor_signalall :: "sched \<Rightarrow> addr \<Rightarrow> sched res" where
  "sthread_user_monitor_signalall s mon =
     bindr (monitor_em s mon) (\<lambda>mn.
     bindr (mutex_em s (mutex mn)) (\<lambda>mx.
     if thr mx \<noteq> active_thr s then Inr s
     else if l mx then Inl Blocked
     else
       bindr (passa_todas s (mutex mn) (queue_mon mn)) (\<lambda>s.
       bindr (muda_monitor (queue_mon_update (\<lambda>_. [])) s mon) (\<lambda>s.
       muda_mutex (l_update (\<lambda>_. False)) s (mutex mn)))))"

definition sthread_nice :: "sched \<Rightarrow> int \<Rightarrow> (int \<times> sched) res" where
  "sthread_nice s n =
     bindr (muda_thread (nice_update (\<lambda>_. limita n)) s (active_thr s)) (\<lambda>s.
     bindr (thread_em s (active_thr s)) (\<lambda>t. Inr (priority t + nice t, s)))"

section \<open>The machine\<close>

text \<open>One continuation of the active thread.\<close>

definition continua :: "cont \<Rightarrow> sched \<Rightarrow> sched res" where
  "continua c s =
     (case c of
        Arranca \<Rightarrow> Inr (splx_low s)
      | Retorna \<Rightarrow> Inr (splx_low s)
      | FimTick \<Rightarrow> fim_tick s
      | FimJoin th ptr \<Rightarrow>
          bindr (thread_em s th) (\<lambda>t.
          if ptr = NULL then Inl (BadAddr NULL)
          else Inr (splx_low (s\<lparr>memoria := (memoria s)(ptr := join_ret t)\<rparr>)))
      | FimUnlock lock \<Rightarrow> fim_unlock (splx_low s) lock
      | FimMonWait \<Rightarrow> fim_mon_wait s)"

definition retoma :: "sched \<Rightarrow> sched res" where
  "retoma s =
     (case conts s (active_thr s) of
        [] \<Rightarrow> Inr s
      | c # cs \<Rightarrow> continua c (s\<lparr>conts := (conts s)(active_thr s := cs)\<rparr>))"

text \<open>The calls a running thread can make, and the clock tick.\<close>

datatype chamada =
    Criar int int int int | Sair int | Ceder | Juntar addr addr | Dormir int
  | NovoMutex | ApagaMutex addr | Trancar addr | Destrancar addr
  | NovoMonitor | ApagaMonitor addr | Entrar addr | Deixar addr | Esperar addr
  | Assinalar addr | AssinalarTodos addr | Nice int | Tick

definition executa :: "chamada \<Rightarrow> sched \<Rightarrow> sched res" where
  "executa c s =
     (case c of
        Criar w r a p \<Rightarrow> bindr (sthread_user_create w s r a p) (\<lambda>(_, s). Inr s)
      | Sair r \<Rightarrow> sthread_user_exit s r
      | Ceder \<Rightarrow> sthread_user_yield s
      | Juntar t p \<Rightarrow> bindr (sthread_user_join s t p) (\<lambda>(_, s). Inr s)
      | Dormir n \<Rightarrow> bindr (sthread_user_sleep s n) (\<lambda>(_, s). Inr s)
      | NovoMutex \<Rightarrow> Inr (snd (sthread_user_mutex_init s))
      | ApagaMutex m \<Rightarrow> sthread_user_mutex_free s m
      | Trancar m \<Rightarrow> sthread_user_mutex_lock s m
      | Destrancar m \<Rightarrow> sthread_user_mutex_unlock s m
      | NovoMonitor \<Rightarrow> bindr (sthread_user_monitor_init s) (\<lambda>(_, s). Inr s)
      | ApagaMonitor m \<Rightarrow> sthread_user_monitor_free s m
      | Entrar m \<Rightarrow> sthread_user_monitor_enter s m
      | Deixar m \<Rightarrow> sthread_user_monitor_exit s m
      | Esperar m \<Rightarrow> sthread_user_monitor_wait s m
      | Assinalar m \<Rightarrow> sthread_user_monitor_signal s m
      | AssinalarTodos m \<Rightarrow> sthread_user_monitor_signalall s m
      | Nice n \<Rightarrow> bindr (sthread_nice s n) (\<lambda>(_, s). Inr s)
      | Tick \<Rightarrow> sthread_user_dispatcher s)"

text \<open>
  One step of the machine: the active thread finishes what it was doing when it was switched
  out, or, when nothing is left, makes a call.
\<close>

inductive passo :: "sched \<Rightarrow> sched \<Rightarrow> bool" where
  retoma: "conts s (active_thr s) \<noteq> [] \<Longrightarrow> retoma s = Inr s' \<Longrightarrow> passo s s'"
| chamada: "conts s (active_thr s) = [] \<Longrightarrow> executa c s = Inr s' \<Longrightarrow> passo s s'"

inductive alcanca :: "sched \<Rightarrow> sched \<Rightarrow> bool" where
  aqui: "alcanca s s"
| mais: "alcanca s s' \<Longrightarrow> passo s' s'' \<Longrightarrow> alcanca s s''"

inductive_cases passoE: "passo s s'"

end
