(* ===== verification/SchedulerLemas.thy ===== *)
theory SchedulerLemas
  imports Scheduler RedBlackExtrai
begin

text \<open>
  What holds of the scheduler whatever the threads do: an invariant of every state the machine
  of Scheduler reaches (identifiers, priorities, ticks, no thread queued on a free mutex, every
  monitor listed), proved call by call in the style of a weakest precondition calculus, and the
  effect of the calls on mutexes, monitors and virtual runtimes.
\<close>

section \<open>An invariant of the reachable states\<close>

text \<open>
  \<open>thread_ok\<close> bounds the fields the accounting computes with.  \<open>estrutura\<close> does not mention the
  active thread, which a call changes before it switches.
\<close>

definition thread_ok :: "int \<Rightarrow> sthread \<Rightarrow> bool" where
  "thread_ok g t \<longleftrightarrow>
     1 \<le> tid_s t \<and> tid_s t < g \<and> 1 \<le> priority t \<and> priority t \<le> 10 \<and>
     0 \<le> nice t \<and> nice t \<le> 10 \<and> 0 \<le> times_runned t \<and> times_runned t \<le> exectime t"

definition threads_ok :: "(addr \<Rightarrow> sthread option) \<Rightarrow> addr \<Rightarrow> int \<Rightarrow> bool" where
  "threads_ok th p g \<longleftrightarrow>
     (\<forall>a t. th a = Some t \<longrightarrow> a \<noteq> NULL \<and> a < p \<and> thread_ok g t) \<and>
     (\<forall>a b t u. th a = Some t \<longrightarrow> th b = Some u \<longrightarrow> tid_s t = tid_s u \<longrightarrow> a = b)"

definition mutex_ok :: "sthread_mutex \<Rightarrow> bool" where
  "mutex_ok m \<longleftrightarrow> NULL \<notin> set (queue_m m) \<and> (thr m = NULL \<longrightarrow> queue_m m = [])"

definition mutexes_ok :: "(addr \<Rightarrow> sthread_mutex option) \<Rightarrow> bool" where
  "mutexes_ok mx \<longleftrightarrow> (\<forall>a m. mx a = Some m \<longrightarrow> mutex_ok m)"

definition monitores_ok :: "(addr \<Rightarrow> sthread_mon option) \<Rightarrow> addr list \<Rightarrow> bool" where
  "monitores_ok mn ml \<longleftrightarrow> (\<forall>a m. mn a = Some m \<longrightarrow> a \<in> set ml \<and> NULL \<notin> set (queue_mon m))"

definition estrutura :: "sched \<Rightarrow> bool" where
  "estrutura s \<longleftrightarrow>
     threads_ok (threads s) (prox_s s) (tid_gen s) \<and> mutexes_ok (mutexes s) \<and>
     monitores_ok (monitors s) (monitor_list s) \<and> NULL < prox_s s \<and> 1 < tid_gen s"

definition sched_ok :: "sched \<Rightarrow> bool" where
  "sched_ok s \<longleftrightarrow> estrutura s \<and> active_thr s \<noteq> NULL"

lemma threads_ok_muda:
  assumes "threads_ok th p g" "th a = Some t" "thread_ok g u" "tid_s u = tid_s t"
  shows "threads_ok (th(a \<mapsto> u)) p g"
  using assms unfolding threads_ok_def by (simp split: if_splits) metis

lemma threads_ok_tira: "threads_ok th p g \<Longrightarrow> threads_ok (th(a := None)) p g"
  by (auto simp: threads_ok_def split: if_splits)

lemma threads_ok_sobe: "threads_ok th p g \<Longrightarrow> p \<le> q \<Longrightarrow> threads_ok th q g"
  unfolding threads_ok_def by fastforce

lemma threads_ok_nova:
  assumes "threads_ok th p g" "thread_ok (g + 1) u" "tid_s u = g" "NULL < p"
  shows "threads_ok (th(p \<mapsto> u)) (p + 1) (g + 1)"
  using assms unfolding threads_ok_def by (fastforce simp: thread_ok_def split: if_splits)

lemma mutexes_ok_muda: "mutexes_ok mx \<Longrightarrow> mutex_ok m \<Longrightarrow> mutexes_ok (mx(a \<mapsto> m))"
  by (auto simp: mutexes_ok_def)

lemma mutexes_ok_tira: "mutexes_ok mx \<Longrightarrow> mutexes_ok (mx(a := None))"
  by (auto simp: mutexes_ok_def split: if_splits)

lemma mutexes_okD: "mutexes_ok mx \<Longrightarrow> mx a = Some m \<Longrightarrow> mutex_ok m"
  by (auto simp: mutexes_ok_def)

lemma monitores_okD: "monitores_ok mn ml \<Longrightarrow> mn a = Some m \<Longrightarrow> a \<in> set ml \<and> NULL \<notin> set (queue_mon m)"
  by (auto simp: monitores_ok_def)

lemma monitores_ok_muda:
  "monitores_ok mn ml \<Longrightarrow> a \<in> set ml \<Longrightarrow> NULL \<notin> set (queue_mon m) \<Longrightarrow> monitores_ok (mn(a \<mapsto> m)) ml"
  by (auto simp: monitores_ok_def)

lemma monitores_ok_mais: "monitores_ok mn ml \<Longrightarrow> monitores_ok mn (ml @ [a])"
  by (auto simp: monitores_ok_def)

section \<open>Postconditions\<close>

text \<open>\<open>mantem P m\<close>: if the computation returns, its result satisfies \<open>P\<close>.\<close>

definition mantem :: "('a \<Rightarrow> bool) \<Rightarrow> 'a res \<Rightarrow> bool" where
  "mantem P m \<longleftrightarrow> (\<forall>x. m = Inr x \<longrightarrow> P x)"

named_theorems wp

lemma mantemD: "mantem P m \<Longrightarrow> m = Inr x \<Longrightarrow> P x"
  by (simp add: mantem_def)

lemma mantem_Inr [simp]: "mantem P (Inr x) = P x"
  by (simp add: mantem_def)

lemma mantem_Inl [simp]: "mantem P (Inl e)"
  by (simp add: mantem_def)

lemma mantem_bindr: "mantem P m \<Longrightarrow> (\<And>x. P x \<Longrightarrow> mantem Q (k x)) \<Longrightarrow> mantem Q (bindr m k)"
  by (cases m) (auto simp: mantem_def)

lemma mantem_sempre: "mantem (\<lambda>_. True) m"
  by (simp add: mantem_def)

lemma mantem_if [wp]: "(b \<Longrightarrow> mantem P m) \<Longrightarrow> (\<not> b \<Longrightarrow> mantem P n) \<Longrightarrow> mantem P (if b then m else n)"
  by simp

lemma mantem_mais: "mantem P m \<Longrightarrow> (\<And>x. P x \<Longrightarrow> Q x) \<Longrightarrow> mantem Q m"
  by (simp add: mantem_def)

lemmas depois = mantem_bindr[OF mantem_sempre]

lemmas depois_dados =
  mantem_bindr[OF mantem_sempre[where 'a = arvore_rb]] mantem_bindr[OF mantem_sempre[where 'a = nat]]
  mantem_bindr[OF mantem_sempre[where 'a = int]] mantem_bindr[OF mantem_sempre[where 'a = bool]]
  mantem_bindr[OF mantem_sempre[where 'a = "nat list"]] mantem_bindr[OF mantem_sempre[where 'a = "nat \<times> arvore_rb"]]

text \<open>\<open>igual s\<close>: the structure holds and the active thread is the one of \<open>s\<close>.\<close>

definition igual :: "sched \<Rightarrow> sched \<Rightarrow> bool" where
  "igual s s' \<longleftrightarrow> estrutura s' \<and> active_thr s' = active_thr s"

section \<open>The pieces the calls are made of\<close>

lemma estrutura_campos [simp]:
  "estrutura (s\<lparr>exe_thr_arvore_rb := r\<rparr>) = estrutura s" "estrutura (s\<lparr>sleep_thr_arvore_rb := r\<rparr>) = estrutura s"
  "estrutura (s\<lparr>dead_thr_list := q\<rparr>) = estrutura s" "estrutura (s\<lparr>join_thr_list := q\<rparr>) = estrutura s"
  "estrutura (s\<lparr>zombie_thr_list := q\<rparr>) = estrutura s" "estrutura (s\<lparr>mutex_list := q\<rparr>) = estrutura s"
  "estrutura (s\<lparr>active_thr := a\<rparr>) = estrutura s" "estrutura (s\<lparr>Clock := c\<rparr>) = estrutura s"
  "estrutura (s\<lparr>conts := k\<rparr>) = estrutura s" "estrutura (s\<lparr>interrupcoes := b\<rparr>) = estrutura s"
  "estrutura (s\<lparr>memoria := m\<rparr>) = estrutura s" "estrutura (s\<lparr>mutex_id_gen := i\<rparr>) = estrutura s"
  "estrutura (s\<lparr>monitor_id_gen := i\<rparr>) = estrutura s"
  by (simp_all add: estrutura_def)

lemma splx_campos [simp]:
  "estrutura (splx_high s) = estrutura s" "estrutura (splx_low s) = estrutura s"
  "active_thr (splx_high s) = active_thr s" "active_thr (splx_low s) = active_thr s"
  by (simp_all add: splx_high_def splx_low_def)

lemma thread_em_iff [simp]: "thread_em s a = Inr t \<longleftrightarrow> threads s a = Some t"
  by (auto simp: thread_em_def split: option.splits)

lemma mutex_em_iff [simp]: "mutex_em s a = Inr t \<longleftrightarrow> mutexes s a = Some t"
  by (auto simp: mutex_em_def split: option.splits)

lemma monitor_em_iff [simp]: "monitor_em s a = Inr t \<longleftrightarrow> monitors s a = Some t"
  by (auto simp: monitor_em_def split: option.splits)


lemma thread_em_wp: "mantem (\<lambda>t. threads s a = Some t) (thread_em s a)"
  by (simp add: mantem_def)

lemma mutex_em_wp: "mantem (\<lambda>t. mutexes s a = Some t) (mutex_em s a)"
  by (simp add: mantem_def)

lemma monitor_em_wp: "mantem (\<lambda>t. monitors s a = Some t) (monitor_em s a)"
  by (simp add: mantem_def)

lemmas le_thread = mantem_bindr[OF thread_em_wp]
lemmas le_mutex = mantem_bindr[OF mutex_em_wp]
lemmas le_monitor = mantem_bindr[OF monitor_em_wp]

lemma muda_thread_wp:
  assumes "estrutura s"
    "\<And>t. thread_ok (tid_gen s) t \<Longrightarrow> thread_ok (tid_gen s) (g t) \<and> tid_s (g t) = tid_s t"
  shows "mantem (igual s) (muda_thread g s a)"
  unfolding muda_thread_def
proof (rule le_thread)
  fix t assume t: "threads s a = Some t"
  have "thread_ok (tid_gen s) t" using assms(1) t by (auto simp: estrutura_def threads_ok_def)
  then show "mantem (igual s) (Inr (s\<lparr>threads := (threads s)(a \<mapsto> g t)\<rparr>))"
    using assms t threads_ok_muda by (simp add: estrutura_def igual_def)
qed

lemma muda_mutex_wp:
  assumes "estrutura s" "\<And>m. mutexes s a = Some m \<Longrightarrow> mutex_ok m \<Longrightarrow> mutex_ok (g m)"
  shows "mantem (igual s) (muda_mutex g s a)"
  unfolding muda_mutex_def using assms mutexes_okD
  by (auto simp: igual_def estrutura_def intro!: le_mutex mutexes_ok_muda)

lemma muda_monitor_wp:
  assumes "estrutura s" "\<And>m. NULL \<notin> set (queue_mon m) \<Longrightarrow> NULL \<notin> set (queue_mon (g m))"
  shows "mantem (igual s) (muda_monitor g s a)"
  unfolding muda_monitor_def using assms monitores_okD
  by (fastforce simp: igual_def estrutura_def intro!: le_monitor monitores_ok_muda)

lemma RBInserir_wp: "estrutura s \<Longrightarrow> mantem (igual s) (RBInserir s a)"
  unfolding RBInserir_def by (auto simp: igual_def intro!: depois)

lemma proxima_thread_wp: "estrutura s \<Longrightarrow> mantem estrutura (proxima_thread s)"
  unfolding proxima_thread_def by (auto intro!: depois split: prod.splits)

lemma sthread_switch_wp: "estrutura s \<Longrightarrow> mantem sched_ok (sthread_switch s a c)"
  unfolding sthread_switch_def
  by (intro le_thread) (auto simp: sched_ok_def estrutura_def threads_ok_def)

text \<open>The two ways a call gives up the processor, and the way it goes on in the same thread.\<close>

lemma troca_wp: "estrutura s \<Longrightarrow> mantem sched_ok (bindr (proxima_thread s) (\<lambda>s. sthread_switch s a c))"
  by (rule mantem_bindr[OF proxima_thread_wp sthread_switch_wp])

lemma troca2_wp:
  "estrutura s \<Longrightarrow> mantem (\<lambda>(r, s'). sched_ok s' \<and> r = None)
     (bindr (proxima_thread s) (\<lambda>s. bindr (sthread_switch s a c) (\<lambda>s. Inr (None, s))))"
  by (rule mantem_bindr[OF proxima_thread_wp], assumption, rule mantem_bindr[OF sthread_switch_wp], assumption) simp

lemma igual_ok: "sched_ok s \<Longrightarrow> igual s s' \<Longrightarrow> sched_ok s'"
  by (simp add: sched_ok_def igual_def)

lemma igual_estrutura: "igual s s' \<Longrightarrow> estrutura s'"
  by (simp add: igual_def)

lemma igual_active: "igual s s' \<Longrightarrow> active_thr s' = active_thr s"
  by (simp add: igual_def)

lemma igual_trans: "igual s s' \<Longrightarrow> igual s' s'' \<Longrightarrow> igual s s''"
  by (simp add: igual_def)

lemma fica: "mantem (igual s') m \<Longrightarrow> igual s s' \<Longrightarrow> mantem (igual s) m"
  by (simp add: igual_def mantem_def)

lemma sched_okD: "sched_ok s \<Longrightarrow> estrutura s" "sched_ok s \<Longrightarrow> active_thr s \<noteq> NULL"
  by (simp_all add: sched_ok_def)

lemma liberta_fila_wp: "estrutura s \<Longrightarrow> mantem (igual s) (liberta_fila s as)"
proof (induction as arbitrary: s)
  case (Cons a as)
  have "igual s (s\<lparr>threads := (threads s)(a := None)\<rparr>)"
    using Cons.prems threads_ok_tira by (simp add: igual_def estrutura_def)
  then show ?case using fica[OF Cons.IH] by (auto simp: sthread_user_free_def bindr_assoc igual_estrutura intro!: depois)
qed (simp add: igual_def)

lemma liberta_joins_wp:
  "estrutura s \<Longrightarrow> mantem (\<lambda>(js, z, s'). igual s s') (liberta_joins s i ret as tmp z)"
proof (induction as arbitrary: s tmp z)
  case (Cons a as)
  have "mantem (\<lambda>(js, z, s'). igual s s') (bindr (muda_thread (join_ret_update (\<lambda>_. ret)) s a) (\<lambda>s.
       bindr (RBInserir s a) (\<lambda>s. liberta_joins s i ret as tmp False)))"
  proof (rule mantem_bindr[OF muda_thread_wp], goal_cases)
    case (3 s1)
    then show ?case
      by (intro mantem_bindr[OF RBInserir_wp] mantem_mais[OF Cons.IH]) (auto simp: igual_def)
  qed (use Cons.prems in \<open>auto simp: thread_ok_def\<close>)
  then show ?case using Cons by (auto intro!: le_thread)
qed (simp add: igual_def)


section \<open>Every call keeps the invariant\<close>

lemma sthread_user_init_ok: "sched_ok (sthread_user_init w)"
  by (auto simp: sched_ok_def estrutura_def threads_ok_def thread_ok_def mutexes_ok_def monitores_ok_def
      sthread_user_init_def NULL_def split: if_splits)

lemma limita_1_10: "1 \<le> limita p \<and> limita p \<le> 10"
  by (simp add: limita_def)

lemma create_wp:
  assumes "sched_ok s"
  shows "mantem (\<lambda>(_, s'). sched_ok s') (sthread_user_create w s r x p)"
  unfolding sthread_user_create_def Let_def
proof (rule depois)
  fix v
  define t where "t = \<lparr>start_routine_ptr = r, wake_time = 0, join_tid = 0, join_ret = 0, args = x,
    tid_s = tid_gen s, vruntime = v, exectime = 0, priority = limita p, nice = 0, times_runned = 0,
    waittime = w, sleeptime = 0\<rparr>"
  define s1 where "s1 = s\<lparr>threads := (threads s)(prox_s s \<mapsto> t), prox_s := prox_s s + 1, tid_gen := tid_gen s + 1,
    conts := (conts s)(prox_s s := [Arranca])\<rparr>"
  have "threads_ok ((threads s)(prox_s s \<mapsto> t)) (prox_s s + 1) (tid_gen s + 1)"
    using assms limita_1_10[of p]
    by (intro threads_ok_nova) (auto simp: sched_ok_def estrutura_def thread_ok_def t_def)
  then have "sched_ok s1" using assms by (simp add: sched_ok_def estrutura_def s1_def)
  then show "mantem (\<lambda>(_, s'). sched_ok s') (bindr (RBInserir (splx_high s1) (prox_s s)) (\<lambda>s'. Inr (prox_s s, splx_low s')))"
    by (intro mantem_bindr[OF RBInserir_wp]) (auto simp: sched_ok_def igual_def)
qed

lemma exit_wp: "estrutura s \<Longrightarrow> mantem sched_ok (sthread_user_exit s r)"
  unfolding sthread_user_exit_def Let_def
  by (rule le_thread, rule mantem_bindr[OF liberta_joins_wp], simp)
     (auto simp: igual_def split: prod.splits intro!: depois_dados troca_wp
       mantem_bindr[OF mantem_sempre[of "liberta_fila a b" for a b]] mantem_bindr[OF mantem_sempre[of "sthread_user_free a b" for a b]])

lemma yield_wp: "estrutura s \<Longrightarrow> mantem sched_ok (sthread_user_yield s)"
  unfolding sthread_user_yield_def Let_def
  by (intro mantem_bindr[OF RBInserir_wp] troca_wp) (auto simp: igual_def)

lemma mais_um_wp: "estrutura s \<Longrightarrow> mantem (igual s) (muda_thread (\<lambda>t. t\<lparr>sleeptime := sleeptime t + 1\<rparr>) s a)"
  by (rule muda_thread_wp) (auto simp: thread_ok_def)

lemma sleep_lista_wp: "estrutura s \<Longrightarrow> mantem (igual s) (actualizarSleepTimeLista s as)"
proof (induction as arbitrary: s)
  case (Cons a as)
  then show ?case
    by (auto simp: igual_estrutura intro!: mantem_bindr[OF mais_um_wp] intro: fica[OF Cons.IH])
qed (simp add: igual_def)

lemma waittime_wp: "estrutura s \<Longrightarrow> mantem (igual s) (actualizarWaittime f s h)"
proof (induction f arbitrary: s h)
  case (Suc f)
  have passo: "mantem (igual s) (actualizarWaittime f s' d)" if "igual s s'" for s' d
    using fica[OF Suc.IH] that by (auto simp: igual_def)
  have um: "mantem (igual s) (bindr (muda_thread (\<lambda>t. t\<lparr>waittime := waittime t + 1\<rparr>) s' a)
     (\<lambda>s. bindr (rd dir r h) (actualizarWaittime f s)))" if "igual s s'" for s' a r
    by (rule mantem_bindr[OF muda_thread_wp])
       (use that in \<open>auto simp: thread_ok_def igual_def intro!: depois_dados passo\<close>)
  have "igual s s" using Suc.prems by (simp add: igual_def)
  then show ?case
    by (auto simp: Let_def intro!: mantem_bindr[OF mantem_sempre[of "rd esq (exe_thr_arvore_rb s) h"]]
        mantem_bindr[OF passo[of s]] mantem_bindr[OF mantem_sempre[of "rd elem (exe_thr_arvore_rb s) h"]] um)
qed simp

lemma actualizarMutex_wp: "estrutura s \<Longrightarrow> mantem (igual s) (actualizarMutex s ms)"
proof (induction ms arbitrary: s)
  case (Cons m ms)
  have a: "mantem (igual s) (if b then muda_thread (\<lambda>t. t\<lparr>sleeptime := sleeptime t + 1\<rparr>) s x else Inr s)" for b x
    using Cons.prems mais_um_wp by (auto simp: igual_def)
  have b: "mantem (igual s) (bindr (actualizarSleepTimeLista s' as) (\<lambda>s. actualizarMutex s ms))" if "igual s s'" for s' as
    by (rule mantem_bindr[OF sleep_lista_wp]) (use that fica[OF Cons.IH] in \<open>auto simp: igual_def\<close>)
  show ?case by (auto intro!: le_mutex mantem_bindr[OF a] b)
qed (simp add: igual_def)

lemma actualizarMonitores_wp: "estrutura s \<Longrightarrow> mantem (igual s) (actualizarMonitores s ms)"
proof (induction ms arbitrary: s)
  case (Cons m ms)
  then show ?case
    by (auto simp: igual_estrutura intro!: le_monitor mantem_bindr[OF sleep_lista_wp] intro: fica[OF Cons.IH])
qed (simp add: igual_def)

lemma acordar_wp: "estrutura s \<Longrightarrow> mantem (igual s) (acordarProcessos f s h)"
proof (induction f arbitrary: s h)
  case (Suc f)
  have ig: "mantem (igual s) (acordarProcessos f s' d)" if "igual s s'" for s' d
    using fica[OF Suc.IH] that by (auto simp: igual_def)
  have um: "mantem (igual s) (bindr (muda_thread (wake_time_update (\<lambda>_. 0)) s' a) (\<lambda>s.
                 bindr (RBInserir s a) (\<lambda>s.
                 bindr (wr_elem (sleep_thr_arvore_rb s) h NULL) (\<lambda>r.
                 bindr (RBRemoverNo r h) (\<lambda>r. Inr (s\<lparr>sleep_thr_arvore_rb := r\<rparr>))))))" if "igual s s'" for s' a
    by (rule mantem_bindr[OF muda_thread_wp], use that in \<open>simp add: igual_def\<close>, simp add: thread_ok_def,
        rule mantem_bindr[OF RBInserir_wp], simp add: igual_estrutura)
       (use that in \<open>auto simp: igual_def intro!: depois_dados\<close>)
  have dois: "mantem (igual s) (muda_thread (\<lambda>t. t\<lparr>sleeptime := sleeptime t + 1\<rparr>) s' a)" if "igual s s'" for s' a
    using fica[OF mais_um_wp that] that by (simp add: igual_def)
  have "igual s s" using Suc.prems by (simp add: igual_def)
  then show ?case
    by (auto intro!: mantem_bindr[OF mantem_sempre[of "rd c t b" for c t b]] mantem_bindr[OF ig]
        le_thread mantem_bindr[where P = "igual s"] wp um dois ig)
qed simp


lemma fim_tick_wp: "estrutura s \<Longrightarrow> mantem (igual s) (fim_tick s)"
proof -
  assume e: "estrutura s"
  have m: "mantem (igual s') (muda_thread (\<lambda>t. t\<lparr>vruntime := vruntime t + custo t, times_runned := 0\<rparr>) s' a)" if "estrutura s'" for s' a
    by (rule muda_thread_wp[OF that]) (auto simp: thread_ok_def)
  show ?thesis unfolding fim_tick_def Let_def
    using e by (auto simp: igual_def intro!: le_thread mantem_mais[OF m])
qed

lemma contabiliza_wp: "estrutura s \<Longrightarrow> mantem (igual s) (contabiliza s)"
proof -
  assume e: "estrutura s"
  have um: "mantem (igual s) (muda_thread (\<lambda>t. t\<lparr>times_runned := times_runned t + 1, exectime := exectime t + 1\<rparr>) s a)" for a
    by (rule muda_thread_wp[OF e]) (auto simp: thread_ok_def)
  have j: "mantem (igual s) (actualizarJoinTime s')" "mantem (igual s) (actualizarWaittime n s' h)"
    "mantem (igual s) (actualizarMutex s' ms)" "mantem (igual s) (actualizarMonitores s' ms)"
    "mantem (igual s) (acordarProcessos n s' h)" if "igual s s'" for s' n h ms
    using that unfolding actualizarJoinTime_def
    by (auto intro!: fica[OF sleep_lista_wp] fica[OF waittime_wp] fica[OF actualizarMutex_wp]
        fica[OF actualizarMonitores_wp] fica[OF acordar_wp] simp: igual_estrutura)
  show ?thesis unfolding contabiliza_def
    by (rule mantem_bindr[OF um]; rule depois; rule mantem_bindr[OF j(2)], assumption;
        rule mantem_bindr[OF j(1)], assumption; rule mantem_bindr[OF j(3)], assumption;
        rule mantem_bindr[OF j(4)], assumption; rule depois; rule j(5), assumption)
qed

lemma dispatcher_wp: "sched_ok s \<Longrightarrow> mantem sched_ok (sthread_user_dispatcher s)"
  unfolding sthread_user_dispatcher_def
  by (rule mantem_bindr[OF contabiliza_wp], simp add: sched_okD)
     (auto intro!: le_thread depois_dados wp yield_wp mantem_mais[OF fim_tick_wp] simp: igual_estrutura igual_ok igual_def sched_ok_def)

lemma recolhe_wp:
  "estrutura s \<Longrightarrow> mantem (\<lambda>(zs, f, s'). igual s s') (recolhe_zombies s th i p zs tmp f)"
proof (induction zs arbitrary: s tmp f)
  case (Cons z zs)
  have "mantem (\<lambda>(zs, f, s'). igual s s') (recolhe_zombies s1 th i p zs tmp f)" if "igual s s1" for s1 tmp f
    by (rule mantem_mais[OF Cons.IH]) (use that in \<open>auto simp: igual_def\<close>)
  moreover have "igual s s" "igual s (s\<lparr>memoria := m, dead_thr_list := d\<rparr>)" for m d using Cons.prems by (simp_all add: igual_def)
  ultimately show ?case by (auto intro!: le_thread)
qed (simp add: igual_def)

lemma join_wp:
  assumes "sched_ok s"
  shows "mantem (\<lambda>(r, s'). sched_ok s' \<and> (r = Some 0 \<or> r = None)) (sthread_user_join s th p)"
proof -
  have fim: "mantem (\<lambda>(r, s'). sched_ok s' \<and> (r = Some 0 \<or> r = None))
     (bindr (muda_thread (join_tid_update (\<lambda>_. i)) s1 a) (\<lambda>s.
        bindr (proxima_thread (s\<lparr>join_thr_list := join_thr_list s @ [a]\<rparr>)) (\<lambda>s.
        bindr (sthread_switch s a (FimJoin th p)) (\<lambda>s. Inr (None, s)))))" if "estrutura s1" for s1 a i
    by (rule mantem_bindr[OF muda_thread_wp[OF that]], simp add: thread_ok_def, rule mantem_mais[OF troca2_wp])
       (auto simp: igual_def)
  have baixa: "sched_ok (splx_low s1)" "sched_ok (splx_low (s1\<lparr>zombie_thr_list := zs\<rparr>))" if "igual (splx_high s) s1" for s1 zs
    using that assms by (simp_all add: sched_ok_def igual_def)
  show ?thesis unfolding sthread_user_join_def Let_def
    by (rule le_thread, rule mantem_bindr[OF recolhe_wp], simp add: sched_okD assms)
       (auto simp: baixa igual_estrutura split: prod.splits intro!: le_thread depois_dados fim)
qed

lemma sleep_wp:
  assumes "sched_ok s"
  shows "mantem (\<lambda>(_, s'). sched_ok s') (sthread_user_sleep s n)"
  unfolding sthread_user_sleep_def Let_def
proof (rule mantem_if, goal_cases)
  case 2
  show ?case
    by (rule mantem_bindr[OF muda_thread_wp], simp add: sched_okD assms, simp add: thread_ok_def)
       (auto simp: igual_estrutura intro!: le_thread depois_dados mantem_mais[OF troca2_wp])
qed (use assms in \<open>simp add: sched_ok_def\<close>)

lemma mutex_init_ok: "sched_ok s \<Longrightarrow> sthread_user_mutex_init s = (a, s') \<Longrightarrow> igual s s' \<and> mutexes s' a \<noteq> None"
  using threads_ok_sobe[of "threads s" "prox_s s" "tid_gen s" "prox_s s + 1"]
  by (auto simp: sthread_user_mutex_init_def Let_def sched_ok_def estrutura_def mutex_ok_def igual_def
      intro!: mutexes_ok_muda)

lemma mutex_free_wp: "estrutura s \<Longrightarrow> mantem (igual s) (sthread_user_mutex_free s m)"
  unfolding sthread_user_mutex_free_def Let_def
  by (auto simp: igual_def estrutura_def intro!: le_mutex depois_dados mantem_bindr[OF liberta_fila_wp] mutexes_ok_tira)

lemma lock_wp: "sched_ok s \<Longrightarrow> mantem sched_ok (sthread_user_mutex_lock s m)"
  unfolding sthread_user_mutex_lock_def Let_def
proof (rule le_mutex, intro wp, simp_all, goal_cases)
  case (1 mx)
  show ?case
    by (rule mantem_mais[OF muda_mutex_wp]) (use 1 in \<open>auto simp: mutex_ok_def sched_okD igual_ok\<close>)
next
  case (2 mx)
  show ?case
    by (rule mantem_bindr[OF muda_mutex_wp]) (use 2 sched_okD(2)[OF 2(1), symmetric] in \<open>auto simp: mutex_ok_def sched_okD igual_estrutura intro!: troca_wp\<close>)
qed

lemma fim_unlock_wp: "sched_ok s \<Longrightarrow> mantem sched_ok (fim_unlock s m)"
  unfolding fim_unlock_def
  by (rule mantem_mais[OF muda_mutex_wp]) (auto simp: mutex_ok_def sched_okD igual_ok)


lemma unlock_wp:
  assumes "sched_ok s"
  shows "mantem sched_ok (sthread_user_mutex_unlock s m)"
  unfolding sthread_user_mutex_unlock_def Let_def
proof (rule le_mutex, intro wp, goal_cases)
  case (3 mx)
  note A = 3
  show ?case
  proof (cases "queue_m mx")
    case Nil
    have "mantem (igual s) (muda_mutex (\<lambda>m. m\<lparr>thr := NULL, l := False\<rparr>) s m)"
      using Nil A by (intro muda_mutex_wp) (auto simp: sched_okD assms mutex_ok_def)
    then show ?thesis using Nil assms by (auto intro: mantem_mais igual_ok)
  next
    case (Cons w ws)
    have 1: "mantem (igual s) (muda_mutex (\<lambda>m. m\<lparr>l := True, thr := w, queue_m := ws\<rparr>) s m)"
      using Cons A by (intro muda_mutex_wp) (auto simp: sched_okD assms mutex_ok_def)
    have 2: "mantem (igual s') (muda_thread (\<lambda>t. t\<lparr>vruntime := vruntime t + custo t, times_runned := 0\<rparr>) s' a)"
      if "estrutura s'" for s' a
      by (rule muda_thread_wp[OF that]) (auto simp: thread_ok_def)
    have 3: "mantem sched_ok (bindr (muda_thread (\<lambda>t. t\<lparr>vruntime := vruntime t + custo t, times_runned := 0\<rparr>) s' a) (\<lambda>s.
       bindr (RBInserir s a) (\<lambda>s. sthread_switch (s\<lparr>active_thr := b\<rparr>) a c)))" if "estrutura s'" for s' a b c
      by (rule mantem_bindr[OF 2[OF that]], rule mantem_bindr[OF RBInserir_wp], simp add: igual_estrutura,
          rule sthread_switch_wp, simp add: igual_estrutura)
    have 4: "mantem sched_ok (bindr (RBInserir s' b) (\<lambda>s. fim_unlock (splx_low s) m))" if "igual s s'" for s' b
      by (rule mantem_bindr[OF RBInserir_wp], use that in \<open>simp add: igual_estrutura\<close>, rule fim_unlock_wp)
         (use that assms in \<open>auto simp: sched_ok_def igual_def\<close>)
    show ?thesis using Cons
      by (auto intro!: mantem_bindr[OF 1] le_thread 3 4 simp: igual_estrutura) (auto simp: igual_def)
  qed
qed (use assms in auto)

lemma monitor_init_wp:
  assumes "sched_ok s"
  shows "mantem (\<lambda>(_, s'). sched_ok s') (sthread_user_monitor_init s)"
proof -
  let ?s1 = "s\<lparr>prox_s := prox_s s + 1, monitor_id_gen := monitor_id_gen s + 1\<rparr>"
  have 1: "sched_ok ?s1"
    using assms threads_ok_sobe[of "threads s" "prox_s s" "tid_gen s" "prox_s s + 1"] by (auto simp: sched_ok_def estrutura_def)
  obtain m s2 where 2: "sthread_user_mutex_init ?s1 = (m, s2)" by (meson surj_pair)
  have 3: "sched_ok s2" using mutex_init_ok[OF 1 2] igual_ok[OF 1] by blast
  have "mantem (igual s2) (muda_mutex (id_monitor_update (\<lambda>_. i)) s2 m)" for i
    by (rule muda_mutex_wp) (use 3 in \<open>auto simp: mutex_ok_def sched_okD\<close>)
  moreover have "sched_ok (s3\<lparr>monitors := (monitors s3)(a \<mapsto> \<lparr>id_mon = i, mutex = m, queue_mon = []\<rparr>),
                   monitor_list := monitor_list s3 @ [a]\<rparr>)" if "igual s2 s3" for s3 a i
    using that 3 by (auto simp: sched_ok_def estrutura_def igual_def monitores_ok_def)
  ultimately show ?thesis using 2
    by (auto simp: sthread_user_monitor_init_def Let_def intro!: mantem_bindr)
qed

lemma tira_monitor_nunca: "tira_monitor s i (x # xs) ms tmp \<noteq> Inr r"
  by (induction ms arbitrary: tmp) (auto simp: bindr_Inr_iff)

lemma liberta_fila_monitores: "liberta_fila s as = Inr s' \<Longrightarrow> monitors s' = monitors s \<and> monitor_list s' = monitor_list s"
  by (induction as arbitrary: s) (fastforce simp: bindr_Inr_iff sthread_user_free_def)+

lemma monitor_free_nunca:
  assumes "estrutura s"
  shows "sthread_user_monitor_free s mon \<noteq> Inr r"
proof
  assume "sthread_user_monitor_free s mon = Inr r"
  then obtain mn s1 s2 x where 1: "monitors s mon = Some mn" "sthread_user_mutex_free s (mutex mn) = Inr s1"
    "liberta_fila s1 (queue_mon mn) = Inr s2" "tira_monitor s2 (id_mon mn) (monitor_list s2) (mutex_list s2) [] = Inr x"
    by (auto simp: sthread_user_monitor_free_def bindr_Inr_iff)
  have "monitor_list s1 = monitor_list s"
    using 1(2) by (auto simp: sthread_user_mutex_free_def bindr_Inr_iff Let_def dest!: liberta_fila_monitores)
  then have "monitor_list s2 = monitor_list s" using liberta_fila_monitores[OF 1(3)] by simp
  moreover have "monitor_list s \<noteq> []" using assms 1(1) monitores_okD by (fastforce simp: estrutura_def)
  ultimately obtain y ys where "monitor_list s2 = y # ys" by (metis neq_Nil_conv)
  then show False using 1(4) tira_monitor_nunca[of s2 "id_mon mn" y ys "mutex_list s2" "[]" x] by simp
qed

lemma fim_mon_wait_wp: "estrutura s \<Longrightarrow> mantem sched_ok (fim_mon_wait s)"
  unfolding fim_mon_wait_def Let_def by (rule troca_wp) simp

lemma sched_ok_conts [simp]: "sched_ok (s\<lparr>conts := k\<rparr>) = sched_ok s"
  by (simp add: sched_ok_def)

lemma monitor_wait_wp:
  assumes "sched_ok s"
  shows "mantem sched_ok (sthread_user_monitor_wait s mon)"
  unfolding sthread_user_monitor_wait_def Let_def
proof (rule le_monitor, rule le_mutex, intro wp, goal_cases)
  case (2 mn mx)
  have 1: "mantem (igual s) (muda_monitor (\<lambda>m. m\<lparr>queue_mon := queue_mon m @ [active_thr s]\<rparr>) s mon)"
    by (rule muda_monitor_wp) (use assms sched_okD(2)[OF assms, symmetric] in \<open>auto simp: sched_okD\<close>)
  have 2: "mantem sched_ok (sthread_user_mutex_unlock (s'\<lparr>conts := k\<rparr>) m)" if "igual s s'" for s' k m
    by (rule unlock_wp) (use igual_ok[OF assms that] in simp)
  show ?case
    by (rule mantem_bindr[OF 1], rule mantem_bindr[OF 2], assumption)
       (auto simp: sched_okD intro!: fim_mon_wait_wp)
qed (use assms in simp)

lemma passa_todas_wp:
  "igual s s \<Longrightarrow> NULL \<notin> set ws \<Longrightarrow> mutexes s m = Some mx \<Longrightarrow> thr mx \<noteq> NULL \<Longrightarrow> mantem (igual s) (passa_todas s m ws)"
proof (induction ws arbitrary: s mx)
  case (Cons w ws)
  let ?mx = "mx\<lparr>queue_m := queue_m mx @ [w]\<rparr>"
  have "mutex_ok ?mx"
    using Cons.prems mutexes_okD[of "mutexes s" m mx] by (auto simp: igual_def estrutura_def mutex_ok_def)
  then have "igual s (s\<lparr>mutexes := (mutexes s)(m \<mapsto> ?mx)\<rparr>)"
    using Cons.prems(1) mutexes_ok_muda by (simp add: igual_def estrutura_def)
  then show ?case
    using fica[OF Cons.IH[of "s\<lparr>mutexes := (mutexes s)(m \<mapsto> ?mx)\<rparr>" ?mx]] Cons.prems
    by (simp add: muda_mutex_def bindr_assoc mutex_em_def igual_def[of "t\<lparr>mutexes := x\<rparr>" for t x] igual_estrutura)
qed simp

lemma l_wp: "estrutura s \<Longrightarrow> mantem (igual s) (muda_mutex (l_update (\<lambda>_. False)) s m)"
  by (rule muda_mutex_wp) (auto simp: mutex_ok_def)

lemma signal_wp:
  assumes "sched_ok s"
  shows "mantem sched_ok (sthread_user_monitor_signal s mon)"
  unfolding sthread_user_monitor_signal_def
proof (rule le_monitor, rule le_mutex, intro wp, goal_cases)
  case (3 mn mx)
  have t: "thr mx \<noteq> NULL" using 3(3) sched_okD(2)[OF assms] by simp
  have n: "NULL \<notin> set (queue_mon mn)"
    using sched_okD(1)[OF assms] 3(1) monitores_okD by (fastforce simp: estrutura_def)
  have 1: "mantem (\<lambda>s'. igual s s' \<and> mutexes s' = mutexes s) (muda_monitor (queue_mon_update (\<lambda>_. ws)) s mon)" if "NULL \<notin> set ws" for ws
    using muda_monitor_wp[of s "queue_mon_update (\<lambda>_. ws)" mon] that assms
    by (auto simp: mantem_def muda_monitor_def bindr_Inr_iff sched_okD)
  have 2: "mantem (igual s) (muda_mutex (\<lambda>m. m\<lparr>queue_m := queue_m m @ [w]\<rparr>) s' (mutex mn))"
    if "igual s s'" "mutexes s' = mutexes s" "w \<noteq> NULL" for s' w
    by (rule fica[OF muda_mutex_wp that(1)]) (use that t 3(2) in \<open>auto simp: igual_def mutex_ok_def\<close>)
  have "mantem (igual s) (case queue_mon mn of [] \<Rightarrow> Inr s | w # ws \<Rightarrow>
      bindr (muda_monitor (queue_mon_update (\<lambda>_. ws)) s mon) (\<lambda>s.
      muda_mutex (\<lambda>m. m\<lparr>queue_m := queue_m m @ [w]\<rparr>) s (mutex mn)))"
    using n by (auto split: list.splits intro!: mantem_bindr[OF 1] 2 simp: igual_def[of s s] sched_okD[OF assms])
  then show ?case by (rule mantem_bindr) (blast intro: mantem_mais[OF l_wp] igual_estrutura igual_ok[OF assms] igual_trans)
qed (use assms in auto)

lemma signalall_wp:
  assumes "sched_ok s"
  shows "mantem sched_ok (sthread_user_monitor_signalall s mon)"
  unfolding sthread_user_monitor_signalall_def
proof (rule le_monitor, rule le_mutex, intro wp, goal_cases)
  case (3 mn mx)
  have t: "thr mx \<noteq> NULL" using 3(3) sched_okD(2)[OF assms] by simp
  have n: "NULL \<notin> set (queue_mon mn)"
    using sched_okD(1)[OF assms] 3(1) monitores_okD by (fastforce simp: estrutura_def)
  have 1: "mantem (igual s) (passa_todas s (mutex mn) (queue_mon mn))"
    by (rule passa_todas_wp[OF _ n 3(2) t]) (simp add: igual_def sched_okD[OF assms])
  have 2: "mantem (igual s) (muda_monitor (queue_mon_update (\<lambda>_. [])) s' mon)" if "igual s s'" for s'
    by (rule fica[OF muda_monitor_wp that]) (use that in \<open>auto simp: igual_def\<close>)
  show ?case
    by (rule mantem_bindr[OF 1], rule mantem_bindr[OF 2], assumption)
       (blast intro: mantem_mais[OF l_wp] igual_estrutura igual_ok[OF assms] igual_trans)
qed (use assms in auto)

lemma nice_wp: "sched_ok s \<Longrightarrow> mantem (\<lambda>(_, s'). sched_ok s') (sthread_nice s n)"
  unfolding sthread_nice_def
  by (rule mantem_bindr[OF muda_thread_wp]) (use limita_1_10[of n] in \<open>auto simp: thread_ok_def sched_okD igual_ok intro!: le_thread\<close>)

lemma continua_wp: "sched_ok s \<Longrightarrow> mantem sched_ok (continua c s)"
proof -
  assume s: "sched_ok s"
  have l: "sched_ok (splx_low s)" "sched_ok (splx_low (s\<lparr>memoria := m\<rparr>))" for m
    using s by (simp_all add: sched_ok_def)
  have t: "mantem sched_ok (fim_tick s)" by (rule mantem_mais[OF fim_tick_wp]) (auto simp: sched_okD[OF s] igual_ok[OF s])
  show ?thesis
    by (cases c) (auto simp: continua_def l t sched_okD[OF s] intro!: le_thread fim_unlock_wp fim_mon_wait_wp)
qed

lemma executa_wp: "sched_ok s \<Longrightarrow> mantem sched_ok (executa c s)"
proof -
  assume s: "sched_ok s"
  have *: "mantem sched_ok (bindr m (\<lambda>(_, s'). Inr s'))" if "mantem (\<lambda>(_, s'). sched_ok s') m" for m :: "('z \<times> sched) res"
    by (rule mantem_bindr[OF that]) auto
  have j: "mantem (\<lambda>(_, s'). sched_ok s') (sthread_user_join s a b)" for a b
    by (rule mantem_mais[OF join_wp[OF s]]) auto
  have f: "mantem sched_ok (sthread_user_mutex_free s a)" for a
    by (rule mantem_mais[OF mutex_free_wp]) (auto simp: sched_okD[OF s] igual_ok[OF s])
  have i: "sched_ok (snd (sthread_user_mutex_init s))"
    using mutex_init_ok[OF s] igual_ok[OF s] by (metis prod.collapse)
  have m: "mantem sched_ok (sthread_user_monitor_free s a)" for a
    using monitor_free_nunca[OF sched_okD(1)[OF s]] by (simp add: mantem_def)
  have e: "mantem sched_ok (sthread_user_monitor_enter s a)" "mantem sched_ok (sthread_user_monitor_exit s a)" for a
    unfolding sthread_user_monitor_enter_def sthread_user_monitor_exit_def
    by (auto intro!: le_monitor lock_wp unlock_wp s)
  show ?thesis
    by (cases c) (simp_all add: executa_def * create_wp j sleep_wp nice_wp monitor_init_wp exit_wp yield_wp f i m e
        lock_wp unlock_wp monitor_wait_wp signal_wp signalall_wp dispatcher_wp s sched_okD[OF s])
qed

lemma passo_ok: "passo s s' \<Longrightarrow> sched_ok s \<Longrightarrow> sched_ok s'"
proof (erule passoE)
  assume "retoma s = Inr s'" "sched_ok s"
  then show "sched_ok s'"
    by (auto simp: retoma_def split: list.splits dest!: mantemD[OF continua_wp, rotated])
qed (rule mantemD[OF executa_wp])

lemma alcanca_ok: "alcanca s s' \<Longrightarrow> sched_ok s \<Longrightarrow> sched_ok s'"
  by (induction rule: alcanca.induct) (auto intro: passo_ok)


section \<open>What the calls do\<close>

lemma muda_mutex_ok: "mutexes s m = Some mx \<Longrightarrow> muda_mutex g s m = Inr (s\<lparr>mutexes := (mutexes s)(m \<mapsto> g mx)\<rparr>)"
  by (simp add: muda_mutex_def mutex_em_def)

lemma muda_thread_campos:
  "muda_thread g s a = Inr s' \<Longrightarrow> mutexes s' = mutexes s \<and> active_thr s' = active_thr s"
  by (auto simp: muda_thread_def bindr_Inr_iff)

lemma RBInserir_campos:
  "RBInserir s a = Inr s' \<Longrightarrow> mutexes s' = mutexes s \<and> active_thr s' = active_thr s \<and> threads s' = threads s"
  by (auto simp: RBInserir_def bindr_Inr_iff)

lemma sthread_switch_campos:
  "sthread_switch s a c = Inr s' \<Longrightarrow> mutexes s' = mutexes s \<and> active_thr s' = active_thr s \<and>
     conts s' = (conts s)(a := c # conts s a)"
  by (auto simp: sthread_switch_def bindr_Inr_iff)

text \<open>Only the owner of a mutex can unlock it; only the thread inside a monitor can wait or signal.\<close>

lemma so_o_dono:
  assumes "mutexes s m = Some mx" "thr mx \<noteq> active_thr s"
  shows "sthread_user_mutex_unlock s m = Inr s"
    "monitors s mon = Some mn \<Longrightarrow> mutex mn = m \<Longrightarrow> sthread_user_monitor_wait s mon = Inr s"
    "monitors s mon = Some mn \<Longrightarrow> mutex mn = m \<Longrightarrow> sthread_user_monitor_signal s mon = Inr s"
    "monitors s mon = Some mn \<Longrightarrow> mutex mn = m \<Longrightarrow> sthread_user_monitor_signalall s mon = Inr s"
  using assms
  by (simp_all add: sthread_user_mutex_unlock_def sthread_user_monitor_wait_def sthread_user_monitor_signal_def
      sthread_user_monitor_signalall_def mutex_em_def monitor_em_def)

lemma unlock_passa:
  assumes m: "mutexes s m = Some mx" "thr mx = active_thr s" "\<not> l mx" "queue_m mx = w # ws"
    and u: "sthread_user_mutex_unlock s m = Inr s'"
  shows "\<exists>t wt. threads s (active_thr s) = Some t \<and> threads s w = Some wt \<and>
    mutexes s' m = Some (mx\<lparr>thr := w, queue_m := ws, l := vruntime t + custo t > vruntime wt\<rparr>) \<and>
    active_thr s' = (if vruntime t + custo t > vruntime wt then w else active_thr s)"
proof -
  let ?s1 = "splx_high (s\<lparr>mutexes := (mutexes s)(m \<mapsto> mx\<lparr>l := True, thr := w, queue_m := ws\<rparr>)\<rparr>)"
  obtain t wt where t: "threads s (active_thr s) = Some t" "threads s w = Some wt"
    using u m by (auto simp: sthread_user_mutex_unlock_def mutex_em_def muda_mutex_ok bindr_Inr_iff splx_high_def Let_def)
  show ?thesis
  proof (cases "vruntime t + custo t > vruntime wt")
    case True
    then obtain s2 s3 where "muda_thread (\<lambda>t. t\<lparr>vruntime := vruntime t + custo t, times_runned := 0\<rparr>) ?s1 (active_thr s) = Inr s2"
      "RBInserir s2 (active_thr s) = Inr s3"
      "sthread_switch (s3\<lparr>active_thr := w\<rparr>) (active_thr s) (FimUnlock m) = Inr s'"
      using u m t by (auto simp: sthread_user_mutex_unlock_def mutex_em_def thread_em_def muda_mutex_ok bindr_Inr_iff splx_high_def Let_def)
    then have "mutexes s' = mutexes ?s1" "active_thr s' = w"
      using muda_thread_campos RBInserir_campos sthread_switch_campos by fastforce+
    then show ?thesis using t True by (simp add: splx_high_def)
  next
    case False
    then obtain s2 where "RBInserir ?s1 w = Inr s2" "fim_unlock (splx_low s2) m = Inr s'"
      using u m t by (auto simp: sthread_user_mutex_unlock_def mutex_em_def thread_em_def muda_mutex_ok bindr_Inr_iff splx_high_def Let_def)
    then have "mutexes s' m = Some (mx\<lparr>l := False, thr := w, queue_m := ws\<rparr>)" "active_thr s' = active_thr s"
      using RBInserir_campos[of ?s1 w s2]
      by (auto simp: fim_unlock_def splx_low_def splx_high_def muda_mutex_def bindr_Inr_iff mutex_em_def)
    then show ?thesis using t False by simp
  qed
qed

lemma lock_bloqueado: "mutexes s m = Some mx \<Longrightarrow> l mx \<Longrightarrow> sthread_user_mutex_lock s m = Inl Blocked"
  by (simp add: sthread_user_mutex_lock_def mutex_em_def)

text \<open>A full slice costs the thread at least \<open>min_delay\<close> units of virtual runtime.\<close>

lemma fim_tick_cobra:
  assumes "sched_ok s" "threads s (active_thr s) = Some t" "min_delay \<le> times_runned t" "fim_tick s = Inr s'"
  shows "\<exists>t'. threads s' (active_thr s') = Some t' \<and> times_runned t' = 0 \<and> vruntime t + min_delay \<le> vruntime t'"
proof -
  have ok: "1 \<le> priority t" "0 \<le> nice t" using assms(1,2) by (auto simp: sched_ok_def estrutura_def threads_ok_def thread_ok_def)
  have "1 * times_runned t \<le> (nice t + priority t) * times_runned t"
    using ok assms(3) by (intro mult_right_mono) (auto simp: min_delay_def)
  then have "min_delay \<le> custo t" using assms(3) by (simp add: custo_def)
  then show ?thesis using assms(2-4)
    by (auto simp: fim_tick_def Let_def thread_em_def muda_thread_def bindr_Inr_iff)
qed

end
