(* ===== verification/Despacho.thy ===== *)
theory Despacho
  imports SchedulerLemas
begin

text \<open>
  Which thread the scheduler runs: the ready tree as a sorted list of (virtual runtime, id,
  thread), and the calls of sthread_user.c that insert into it and take its first element.
\<close>

section \<open>Which thread runs next\<close>

text \<open>\<open>prontas s its\<close>: the ready tree is well formed and holds these items, by virtual runtime.\<close>

definition prontas :: "sched \<Rightarrow> (int \<times> int \<times> addr) list \<Rightarrow> bool" where
  "prontas s its \<longleftrightarrow> tem_itens (exe_thr_arvore_rb s) its"

lemma prontas_campos [simp]:
  "prontas (splx_high s) its = prontas s its" "prontas (splx_low s) its = prontas s its"
  "prontas (s\<lparr>active_thr := a\<rparr>) its = prontas s its" "prontas (s\<lparr>conts := k\<rparr>) its = prontas s its"
  "prontas (s\<lparr>threads := th\<rparr>) its = prontas s its" "prontas (s\<lparr>mutexes := mx\<rparr>) its = prontas s its"
  by (simp_all add: prontas_def splx_high_def splx_low_def)

lemma fila_insere_ne: "fila_insere x xs \<noteq> []"
  by (cases xs) auto

lemma RBInserir_prontas:
  assumes "prontas s its" "threads s a = Some t" "vruntime t \<noteq> -1"
  shows "\<exists>r. RBInserir s a = Inr (s\<lparr>exe_thr_arvore_rb := r\<rparr>) \<and>
    prontas (s\<lparr>exe_thr_arvore_rb := r\<rparr>) (fila_insere (vruntime t, tid_s t, a) its)"
  using arvore.ins_ok[of "exe_thr_arvore_rb s" its "(vruntime t, tid_s t, a)"] assms
  by (auto simp: RBInserir_def prontas_def thread_em_def)

lemma proxima_thread_prontas:
  assumes "prontas s ((k, i, e) # its)"
  shows "\<exists>r. proxima_thread s = Inr (s\<lparr>exe_thr_arvore_rb := r, active_thr := e\<rparr>) \<and>
    prontas (s\<lparr>exe_thr_arvore_rb := r\<rparr>) its"
  using extrai_itens[of "exe_thr_arvore_rb s" k i e its] assms
  by (auto simp: proxima_thread_def prontas_def)

lemma troca_ok:
  assumes "threads s a = Some t" "threads s (active_thr s) = Some u"
  shows "sthread_switch s a c = Inr (s\<lparr>conts := (conts s)(a := c # conts s a)\<rparr>)"
  using assms by (simp add: sthread_switch_def thread_em_def)

lemma yield_ok:
  assumes p: "prontas s its" and t: "threads s (active_thr s) = Some t" "vruntime t \<noteq> -1"
    and f: "fila_insere (vruntime t, tid_s t, active_thr s) its = (k, i, e) # its'" and e: "threads s e \<noteq> None"
  shows "\<exists>s'. sthread_user_yield s = Inr s' \<and> active_thr s' = e \<and> prontas s' its' \<and>
    threads s' = threads s \<and> conts s' = (conts s)(active_thr s := Retorna # conts s (active_thr s)) \<and>
    k \<le> vruntime t \<and> (\<forall>x \<in> set its. k \<le> fst x)"
proof -
  let ?s = "splx_high s"
  have th: "threads ?s = threads s" "active_thr ?s = active_thr s" "conts ?s = conts s" by (simp_all add: splx_high_def)
  obtain r where r: "RBInserir ?s (active_thr s) = Inr (?s\<lparr>exe_thr_arvore_rb := r\<rparr>)"
    "prontas (?s\<lparr>exe_thr_arvore_rb := r\<rparr>) ((k, i, e) # its')"
    using RBInserir_prontas[of ?s its "active_thr s" t] p t f by (auto simp: th)
  obtain r2 where r2: "proxima_thread (?s\<lparr>exe_thr_arvore_rb := r\<rparr>) = Inr (?s\<lparr>exe_thr_arvore_rb := r2, active_thr := e\<rparr>)"
    "prontas (?s\<lparr>exe_thr_arvore_rb := r2\<rparr>) its'"
    using proxima_thread_prontas[OF r(2)] by auto
  obtain u where u: "threads s e = Some u" using e by blast
  have "sorted (map fst its)" using p by (auto simp: prontas_def tem_itens_def rb_def itens_def item_def comp_def)
  then have so: "sorted (map fst ((k, i, e) # its'))" using fila_insere_ordem f by metis
  have se: "set ((k, i, e) # its') = insert (vruntime t, tid_s t, active_thr s) (set its)" using fila_insere_set f by metis
  have "\<forall>x \<in> insert (vruntime t, tid_s t, active_thr s) (set its). k \<le> fst x"
    using so unfolding se[symmetric] by auto
  then show ?thesis
    using r(1) r2 troca_ok[of "?s\<lparr>exe_thr_arvore_rb := r2, active_thr := e\<rparr>" "active_thr s" t u Retorna] t(1) u
    by (simp add: sthread_user_yield_def Let_def th prontas_def)
qed

text \<open>A new thread starts with the smallest virtual runtime of the ready threads.\<close>

lemma create_com:
  assumes p: "prontas s its" and v: "RBMenorChave (exe_thr_arvore_rb s) = Inr v" "v \<noteq> -1"
  shows "\<exists>s' t. sthread_user_create w s r x q = Inr (prox_s s, s') \<and> threads s' = (threads s)(prox_s s \<mapsto> t) \<and>
    vruntime t = v \<and> priority t = limita q \<and> tid_s t = tid_gen s \<and>
    prontas s' (fila_insere (v, tid_gen s, prox_s s) its) \<and> active_thr s' = active_thr s"
proof -
  define t where "t = \<lparr>start_routine_ptr = r, wake_time = 0, join_tid = 0, join_ret = 0, args = x,
    tid_s = tid_gen s, vruntime = v, exectime = 0, priority = limita q, nice = 0, times_runned = 0,
    waittime = w, sleeptime = 0\<rparr>"
  define s1 where "s1 = splx_high (s\<lparr>threads := (threads s)(prox_s s \<mapsto> t), prox_s := prox_s s + 1, tid_gen := tid_gen s + 1,
    conts := (conts s)(prox_s s := [Arranca])\<rparr>)"
  have p1: "prontas s1 its" using p by (simp add: s1_def prontas_def splx_high_def)
  have t1: "threads s1 (prox_s s) = Some t" by (simp add: s1_def splx_high_def)
  obtain e where e: "RBInserir s1 (prox_s s) = Inr (s1\<lparr>exe_thr_arvore_rb := e\<rparr>)"
    "prontas (s1\<lparr>exe_thr_arvore_rb := e\<rparr>) (fila_insere (v, tid_gen s, prox_s s) its)"
    using RBInserir_prontas[OF p1 t1] v(2) by (auto simp: t_def)
  have "sthread_user_create w s r x q = Inr (prox_s s, splx_low (s1\<lparr>exe_thr_arvore_rb := e\<rparr>))"
    using v e(1) unfolding sthread_user_create_def by (simp add: Let_def t_def s1_def)
  moreover have "threads (splx_low (s1\<lparr>exe_thr_arvore_rb := e\<rparr>)) = (threads s)(prox_s s \<mapsto> t)"
    "active_thr (splx_low (s1\<lparr>exe_thr_arvore_rb := e\<rparr>)) = active_thr s" by (simp_all add: s1_def splx_high_def splx_low_def)
  ultimately show ?thesis using e(2) by (intro exI[of _ "splx_low (s1\<lparr>exe_thr_arvore_rb := e\<rparr>)"] exI[of _ t]) (simp add: t_def)
qed

lemma menor_chave_prontas: "prontas s its \<Longrightarrow> its \<noteq> [] \<Longrightarrow> RBMenorChave (exe_thr_arvore_rb s) = Inr (fst (hd its))"
  using RBMenorChave_ok by (auto simp: prontas_def tem_itens_def)

section \<open>A hand-over that switches\<close>

lemma unlock_deixa:
  assumes m: "mutexes s m = Some mx" "thr mx = active_thr s" "\<not> l mx" "queue_m mx = w # ws"
    and u: "sthread_user_mutex_unlock s m = Inr s'" "active_thr s' \<noteq> active_thr s"
  shows "\<exists>cs. conts s' (active_thr s) = FimUnlock m # cs"
proof -
  let ?s1 = "splx_high (s\<lparr>mutexes := (mutexes s)(m \<mapsto> mx\<lparr>l := True, thr := w, queue_m := ws\<rparr>)\<rparr>)"
  obtain t wt where t: "threads s (active_thr s) = Some t" "threads s w = Some wt" "vruntime t + custo t > vruntime wt"
    using unlock_passa[OF m u(1)] u(2) by metis
  then obtain s2 s3 where "muda_thread (\<lambda>t. t\<lparr>vruntime := vruntime t + custo t, times_runned := 0\<rparr>) ?s1 (active_thr s) = Inr s2"
      "RBInserir s2 (active_thr s) = Inr s3"
      "sthread_switch (s3\<lparr>active_thr := w\<rparr>) (active_thr s) (FimUnlock m) = Inr s'"
    using u m by (auto simp: sthread_user_mutex_unlock_def mutex_em_def thread_em_def muda_mutex_ok bindr_Inr_iff splx_high_def Let_def)
  then show ?thesis using sthread_switch_campos by fastforce
qed

section \<open>Programs\<close>

text \<open>
  A run of the machine given by its steps: a call of the active thread, or \<open>None\<close> for the top
  continuation of a thread that has one.
\<close>

definition avanca :: "chamada option \<Rightarrow> sched \<Rightarrow> sched res" where
  "avanca c s =
     (case c of
        None \<Rightarrow> if conts s (active_thr s) = [] then Inl NoFuel else retoma s
      | Some c \<Rightarrow> if conts s (active_thr s) = [] then executa c s else Inl NoFuel)"

fun programa :: "chamada option list \<Rightarrow> sched \<Rightarrow> sched res" where
  "programa [] s = Inr s"
| "programa (c # cs) s = bindr (avanca c s) (programa cs)"

lemma programa_alcanca: "programa cs s' = Inr s'' \<Longrightarrow> alcanca s s' \<Longrightarrow> alcanca s s''"
proof (induction cs arbitrary: s')
  case (Cons c cs)
  then obtain s1 where s1: "avanca c s' = Inr s1" "programa cs s1 = Inr s''" by auto
  then have "passo s' s1"
    by (auto simp: avanca_def split: option.splits if_splits intro: passo.intros)
  then show ?case using Cons s1 by (blast intro: alcanca.mais)
qed simp

definition chega :: "(sched \<Rightarrow> bool) \<Rightarrow> chamada option list \<Rightarrow> bool" where
  "chega P cs = (case programa cs (sthread_user_init 0) of Inl _ \<Rightarrow> False | Inr s \<Rightarrow> P s)"

lemma chegaD: "chega P cs \<Longrightarrow> \<exists>s. programa cs (sthread_user_init 0) = Inr s \<and> alcanca (sthread_user_init 0) s \<and> P s"
  using programa_alcanca[OF _ alcanca.aqui] by (auto simp: chega_def split: sum.splits)

end
