(* ===== verification/Dump.thy ===== *)
theory Dump
  imports Despacho
begin

text \<open>
  sthread_user_dump of sthread_user.c and the functions it prints with.  Printing is a list of
  what is printed: lines of text, and the numbers of a thread.  In a well-formed state the dump
  lists every ready thread by virtual runtime and every sleeping one by its time, each once.
\<close>

section \<open>What is printed\<close>

text \<open>
  The numbers of a thread, in the order of the code; the last one is there when the thread has
  a time to wake up in the future.
\<close>

datatype impresso =
    Linha string
  | Ficha int int int int int int "int option"
  | Monitor int
  | MutexDe int int
  | Mutex int

text \<open>
  \<open>wake_time > Clock\<close> compares, and \<open>(wake_time - Clock) * CLOCK_TICK\<close> computes, unsigned
  longs; the product is printed as a signed long.
\<close>

definition falta :: "sched \<Rightarrow> sthread \<Rightarrow> int option" where
  "falta s t =
     (if word_of_int (wake_time t) > Clock s
      then Some (sint ((word_of_int (wake_time t) - Clock s) * word_of_int CLOCK_TICK :: 32 word)) else None)"

definition ficha :: "sched \<Rightarrow> sthread \<Rightarrow> impresso" where
  "ficha s t = Ficha (tid_s t) (priority t) (vruntime t) (exectime t) (sleeptime t) (waittime t) (falta s t)"

definition ImprimirThread :: "sched \<Rightarrow> addr \<Rightarrow> impresso res" where
  "ImprimirThread s a = bindr (thread_em s a) (\<lambda>t. Inr (ficha s t))"

fun ImprimirDadosRB :: "nat \<Rightarrow> sched \<Rightarrow> arvore_rb \<Rightarrow> addr \<Rightarrow> impresso list res" where
  "ImprimirDadosRB 0 s r h = Inl NoFuel"
| "ImprimirDadosRB (Suc f) s r h =
     (if h = nil r then Inr []
      else
        bindr (rd esq r h) (\<lambda>e.
        bindr (ImprimirDadosRB f s r e) (\<lambda>antes.
        bindr (rd elem r h) (\<lambda>a.
        bindr (ImprimirThread s a) (\<lambda>x.
        bindr (rd dir r h) (\<lambda>d.
        bindr (ImprimirDadosRB f s r d) (\<lambda>depois.
        Inr (antes @ x # depois))))))))"

fun ImprimirDadosLista :: "sched \<Rightarrow> addr list \<Rightarrow> impresso list res" where
  "ImprimirDadosLista s [] = Inr []"
| "ImprimirDadosLista s (a # as) =
     bindr (ImprimirThread s a) (\<lambda>x. bindr (ImprimirDadosLista s as) (\<lambda>xs. Inr (x # xs)))"

definition imprime_fila :: "sched \<Rightarrow> addr list \<Rightarrow> impresso list res" where
  "imprime_fila s as = (if as = [] then Inr [Linha ''----Livre----''] else ImprimirDadosLista s as)"

fun imprime_monitores :: "sched \<Rightarrow> addr list \<Rightarrow> impresso list res" where
  "imprime_monitores s [] = Inr []"
| "imprime_monitores s (m # ms) =
     bindr (monitor_em s m) (\<lambda>mn.
     bindr (imprime_fila s (queue_mon mn)) (\<lambda>xs.
     bindr (imprime_monitores s ms) (\<lambda>ys. Inr (Monitor (id_mon mn) # xs @ ys))))"

fun imprime_mutexes :: "sched \<Rightarrow> addr list \<Rightarrow> impresso list res" where
  "imprime_mutexes s [] = Inr []"
| "imprime_mutexes s (m # ms) =
     bindr (mutex_em s m) (\<lambda>mx.
     bindr (imprime_fila s (queue_m mx)) (\<lambda>xs.
     bindr (imprime_mutexes s ms) (\<lambda>ys.
     Inr ((if id_monitor mx \<noteq> -1 then MutexDe (id_m mx) (id_monitor mx) else Mutex (id_m mx)) # xs @ ys))))"

definition imprime_arvore :: "sched \<Rightarrow> arvore_rb \<Rightarrow> impresso list res" where
  "imprime_arvore s r = bindr (RBRaizArvore r) (\<lambda>h. ImprimirDadosRB (Suc (prox r)) s r h)"

definition sthread_user_dump :: "sched \<Rightarrow> (impresso list \<times> sched) res" where
  "sthread_user_dump s =
     (let s = splx_high s in
      bindr (if active_thr s = NULL then Inr (Linha ''Nenhuma thread activa'')
             else ImprimirThread s (active_thr s)) (\<lambda>activa.
      bindr (imprime_arvore s (exe_thr_arvore_rb s)) (\<lambda>prontas.
      bindr (imprime_arvore s (sleep_thr_arvore_rb s)) (\<lambda>dormem.
      bindr (imprime_monitores s (monitor_list s)) (\<lambda>mons.
      bindr (imprime_mutexes s (mutex_list s)) (\<lambda>mxs.
      Inr ([Linha ''=== dump start ==='', Linha ''active thread'', activa, Linha ''>>>> RB-Tree <<<<''] @ prontas @
           [Linha ''>>>> SleepList <<<<''] @ dormem @
           [Linha ''>>>> BlockedList <<<<''] @ mons @ mxs @ [Linha ''=== Dump End ==='' ], splx_low s)))))))"

section \<open>What the dump shows\<close>

text \<open>\<open>ficha_em s a\<close>: the numbers of the thread at \<open>a\<close>.\<close>

definition ficha_em :: "sched \<Rightarrow> addr \<Rightarrow> impresso" where
  "ficha_em s a = ficha s (the (threads s a))"

lemma ImprimirThread_ok: "threads s a \<noteq> None \<Longrightarrow> ImprimirThread s a = Inr (ficha_em s a)"
  by (auto simp: ImprimirThread_def thread_em_def ficha_em_def)

lemma ImprimirDadosLista_ok: "\<forall>a \<in> set as. threads s a \<noteq> None \<Longrightarrow> ImprimirDadosLista s as = Inr (map (ficha_em s) as)"
  by (induction as) (simp_all add: ImprimirThread_ok)

lemma ImprimirDadosRB_ok:
  assumes "rep t (plug f k)" "length (ends f) < n" "\<forall>a \<in> set (ends f). threads s (elem_de t a) \<noteq> None"
  shows "ImprimirDadosRB n s t (topo (nil t) f) = Inr (map (\<lambda>a. ficha_em s (elem_de t a)) (ends f))"
  using assms
proof (induction f arbitrary: k n)
  case Lf
  then show ?case by (cases n) auto
next
  case (Nd l a r)
  then obtain n' where n: "n = Suc n'" by (cases n) auto
  note a = rep_no[OF Nd.prems(1)]
  have an: "a \<noteq> nil t" using a Nd.prems(1) by (auto simp: rep_plug sentinelas_def)
  have "ImprimirDadosRB n' s t (topo (nil t) l) = Inr (map (\<lambda>a. ficha_em s (elem_de t a)) (ends l))"
    using Nd.prems n by (intro Nd.IH(1)[of "FE a r # k"]) auto
  moreover have "ImprimirDadosRB n' s t (topo (nil t) r) = Inr (map (\<lambda>a. ficha_em s (elem_de t a)) (ends r))"
    using Nd.prems n by (intro Nd.IH(2)[of "FD l a # k"]) auto
  ultimately show ?case using a an Nd.prems(3) by (simp add: n campos ImprimirThread_ok)
qed

lemma imprime_arvore_ok:
  assumes "tem_itens t its" "\<forall>x \<in> set its. threads s (snd (snd x)) \<noteq> None"
  shows "imprime_arvore s t = Inr (map (\<lambda>x. ficha_em s (snd (snd x))) its)"
proof -
  obtain f where f: "rb t f" "its = itens t f" using assms(1) by (auto simp: tem_itens_def)
  have "length (ends f) < Suc (prox t)" using nos_prox[OF rbD(1)[OF f(1)]] by simp
  moreover have "\<forall>a \<in> set (ends f). threads s (elem_de t a) \<noteq> None"
    using assms(2) by (auto simp: f(2) itens_def item_def)
  ultimately show ?thesis
    using ImprimirDadosRB_ok[of t f "[]" "Suc (prox t)" s] rbD(1)[OF f(1)] rep_raiz_topo[OF rbD(1)[OF f(1)]]
    by (simp add: imprime_arvore_def RBRaizArvore_def f(2) itens_def item_def comp_def)
qed

text \<open>
  The queues of the monitors and mutexes, as the dump shows them: an empty queue is shown as free,
  also that of a mutex that a thread holds.
\<close>

definition fichas_fila :: "sched \<Rightarrow> addr list \<Rightarrow> impresso list" where
  "fichas_fila s as = (if as = [] then [Linha ''----Livre----''] else map (ficha_em s) as)"

definition fichas_mon :: "sched \<Rightarrow> addr \<Rightarrow> impresso list" where
  "fichas_mon s m = (let mn = the (monitors s m) in Monitor (id_mon mn) # fichas_fila s (queue_mon mn))"

definition fichas_mutex :: "sched \<Rightarrow> addr \<Rightarrow> impresso list" where
  "fichas_mutex s m =
     (let mx = the (mutexes s m) in
      (if id_monitor mx \<noteq> -1 then MutexDe (id_m mx) (id_monitor mx) else Mutex (id_m mx)) # fichas_fila s (queue_m mx))"

lemma imprime_fila_ok: "\<forall>a \<in> set as. threads s a \<noteq> None \<Longrightarrow> imprime_fila s as = Inr (fichas_fila s as)"
  by (simp add: imprime_fila_def fichas_fila_def ImprimirDadosLista_ok)

lemma imprime_monitores_ok:
  assumes "\<forall>m \<in> set ms. \<exists>mn. monitors s m = Some mn \<and> (\<forall>a \<in> set (queue_mon mn). threads s a \<noteq> None)"
  shows "imprime_monitores s ms = Inr (concat (map (fichas_mon s) ms))"
  using assms
proof (induction ms)
  case (Cons m ms)
  then obtain mn where "monitors s m = Some mn" "\<forall>a \<in> set (queue_mon mn). threads s a \<noteq> None" by auto
  then show ?case using Cons imprime_fila_ok[of "queue_mon mn" s] by (simp add: monitor_em_def fichas_mon_def Let_def)
qed simp

lemma imprime_mutexes_ok:
  assumes "\<forall>m \<in> set ms. \<exists>mx. mutexes s m = Some mx \<and> (\<forall>a \<in> set (queue_m mx). threads s a \<noteq> None)"
  shows "imprime_mutexes s ms = Inr (concat (map (fichas_mutex s) ms))"
  using assms
proof (induction ms)
  case (Cons m ms)
  then obtain mx where "mutexes s m = Some mx" "\<forall>a \<in> set (queue_m mx). threads s a \<noteq> None" by auto
  then show ?case using Cons imprime_fila_ok[of "queue_m mx" s] by (simp add: mutex_em_def fichas_mutex_def Let_def)
qed simp

lemma ficha_em_high [simp]: "ficha_em (splx_high s) = ficha_em s" "fichas_mon (splx_high s) = fichas_mon s"
  "fichas_mutex (splx_high s) = fichas_mutex s"
proof -
  have "falta (splx_high s) t = falta s t" for t by (simp add: falta_def splx_high_def)
  then show "ficha_em (splx_high s) = ficha_em s" by (simp add: fun_eq_iff ficha_em_def ficha_def splx_high_def)
  then have "fichas_fila (splx_high s) = fichas_fila s" by (simp add: fun_eq_iff fichas_fila_def)
  then show "fichas_mon (splx_high s) = fichas_mon s" "fichas_mutex (splx_high s) = fichas_mutex s"
    by (simp_all add: fun_eq_iff fichas_mon_def fichas_mutex_def splx_high_def)
qed

text \<open>\<open>vivas s\<close>: every thread, monitor and mutex the scheduler refers to is there.\<close>

definition vivas :: "sched \<Rightarrow> (int \<times> int \<times> addr) list \<Rightarrow> (int \<times> int \<times> addr) list \<Rightarrow> bool" where
  "vivas s ps ds \<longleftrightarrow>
     threads s (active_thr s) \<noteq> None \<and> (\<forall>x \<in> set (ps @ ds). threads s (snd (snd x)) \<noteq> None) \<and>
     (\<forall>m \<in> set (monitor_list s). \<exists>mn. monitors s m = Some mn \<and> (\<forall>a \<in> set (queue_mon mn). threads s a \<noteq> None)) \<and>
     (\<forall>m \<in> set (mutex_list s). \<exists>mx. mutexes s m = Some mx \<and> (\<forall>a \<in> set (queue_m mx). threads s a \<noteq> None))"

lemma sthread_user_dump_ok:
  assumes "prontas s ps" "tem_itens (sleep_thr_arvore_rb s) ds" "vivas s ps ds" "active_thr s \<noteq> NULL"
  shows "sthread_user_dump s =
    Inr ([Linha ''=== dump start ==='', Linha ''active thread'', ficha_em s (active_thr s), Linha ''>>>> RB-Tree <<<<'']
      @ map (\<lambda>x. ficha_em s (snd (snd x))) ps
      @ [Linha ''>>>> SleepList <<<<''] @ map (\<lambda>x. ficha_em s (snd (snd x))) ds
      @ [Linha ''>>>> BlockedList <<<<''] @ concat (map (fichas_mon s) (monitor_list s))
      @ concat (map (fichas_mutex s) (mutex_list s)) @ [Linha ''=== Dump End ==='' ], splx_low s)"
proof -
  have v: "threads (splx_high s) = threads s" "active_thr (splx_high s) = active_thr s"
    "exe_thr_arvore_rb (splx_high s) = exe_thr_arvore_rb s" "sleep_thr_arvore_rb (splx_high s) = sleep_thr_arvore_rb s"
    "monitors (splx_high s) = monitors s" "mutexes (splx_high s) = mutexes s" "monitor_list (splx_high s) = monitor_list s"
    "mutex_list (splx_high s) = mutex_list s" "splx_low (splx_high s) = splx_low s"
    by (simp_all add: splx_high_def splx_low_def)
  have "imprime_arvore (splx_high s) (exe_thr_arvore_rb s) = Inr (map (\<lambda>x. ficha_em s (snd (snd x))) ps)"
    using imprime_arvore_ok[of "exe_thr_arvore_rb s" ps "splx_high s"] assms by (simp add: prontas_def vivas_def v)
  moreover have "imprime_arvore (splx_high s) (sleep_thr_arvore_rb s) = Inr (map (\<lambda>x. ficha_em s (snd (snd x))) ds)"
    using imprime_arvore_ok[of "sleep_thr_arvore_rb s" ds "splx_high s"] assms by (simp add: vivas_def v)
  moreover have "imprime_monitores (splx_high s) (monitor_list s) = Inr (concat (map (fichas_mon s) (monitor_list s)))"
    using imprime_monitores_ok[of "monitor_list s" "splx_high s"] assms(3) by (simp add: vivas_def v)
  moreover have "imprime_mutexes (splx_high s) (mutex_list s) = Inr (concat (map (fichas_mutex s) (mutex_list s)))"
    using imprime_mutexes_ok[of "mutex_list s" "splx_high s"] assms(3) by (simp add: vivas_def v)
  moreover have "ImprimirThread (splx_high s) (active_thr s) = Inr (ficha_em s (active_thr s))"
    using ImprimirThread_ok[of "splx_high s" "active_thr s"] assms(3) by (simp add: vivas_def v)
  ultimately show ?thesis using assms(4) by (simp add: sthread_user_dump_def Let_def v)
qed

end
