(* ===== verification/Hash.thy ===== *)
theory Hash
  imports CPrelude
begin

text \<open>
  The chained hash table of snfs_server/hash.c: \<open>length\<close> buckets, each a chain of nodes with an
  address, a block number as key and a pointer to a cache entry as value.  A chain is a list
  of nodes, its head first; a node that is freed is one that no chain holds any more.  The
  global mutex that every operation takes and releases has no effect on the sequential model.
\<close>

section \<open>Tables\<close>

record SHashNode =
  node :: addr
  key :: int
  val :: addr

text \<open>\<open>prox_h\<close> is the next address \<open>malloc\<close> returns for a node.\<close>

record HashMap =
  size_h :: int
  elems :: "SHashNode list list"
  prox_h :: addr

definition trem :: "int \<Rightarrow> int \<Rightarrow> int" where
  "trem a b = sgn a * (\<bar>a\<bar> mod \<bar>b\<bar>)"

text \<open>The C remainder: negative keys have negative remainders.\<close>

definition funcaoHash :: "int \<Rightarrow> int" where
  "funcaoHash k = trem k 10"

definition keyEquals :: "int \<Rightarrow> int \<Rightarrow> bool" where
  "keyEquals a b \<longleftrightarrow> a = b"

text \<open>The index \<open>funcaoHash(key) % hmap->length\<close>, checked against the array.\<close>

definition indice :: "HashMap \<Rightarrow> int \<Rightarrow> nat res" where
  "indice h k =
     (let i = trem (funcaoHash k) (int (length (elems h)))
      in if 0 \<le> i \<and> nat i < length (elems h) then Inr (nat i) else Inl (OutOfRange (length (elems h))))"

definition newHash :: "nat \<Rightarrow> HashMap" where
  "newHash n = \<lparr>size_h = 0, elems = replicate n [], prox_h = 1\<rparr>"

text \<open>
  hashInsert: the nodes with the key get the new value (the caller's entry becomes modified and
  referenced, status 1); otherwise a new node becomes the head of the chain (status 0).
\<close>

fun troca_valor :: "int \<Rightarrow> addr \<Rightarrow> SHashNode list \<Rightarrow> SHashNode list" where
  "troca_valor k v [] = []"
| "troca_valor k v (n # ns) =
     (if keyEquals (key n) k then n\<lparr>val := v\<rparr> # ns else n # troca_valor k v ns)"

definition hashInsert :: "HashMap \<Rightarrow> int \<Rightarrow> addr \<Rightarrow> (int \<times> HashMap) res" where
  "hashInsert h k v =
     bindr (indice h k) (\<lambda>i.
       let b = elems h ! i in
       if \<exists>n \<in> set b. keyEquals (key n) k then
         Inr (1, h\<lparr>elems := (elems h)[i := troca_valor k v b]\<rparr>)
       else
         Inr (0, h\<lparr>elems := (elems h)[i := \<lparr>node = prox_h h, key = k, val = v\<rparr> # b],
                   size_h := size_h h + 1, prox_h := prox_h h + 1\<rparr>))"

fun tira_no :: "int \<Rightarrow> SHashNode list \<Rightarrow> SHashNode list" where
  "tira_no k [] = []"
| "tira_no k (n # ns) = (if keyEquals k (key n) then ns else n # tira_no k ns)"

fun procura_no :: "int \<Rightarrow> SHashNode list \<Rightarrow> SHashNode option" where
  "procura_no k [] = None"
| "procura_no k (n # ns) = (if keyEquals k (key n) then Some n else procura_no k ns)"

text \<open>
  hashRemove: the value is stored through \<open>value\<close> only when the variable it points to is not
  NULL beforehand (the code tests \<open>*value\<close>, not \<open>value\<close>); \<open>antes\<close> is that previous content.
\<close>

definition hashRemove :: "HashMap \<Rightarrow> int \<Rightarrow> addr \<Rightarrow> (int \<times> addr \<times> HashMap) res" where
  "hashRemove h k antes =
     bindr (indice h k) (\<lambda>i.
       case procura_no k (elems h ! i) of
         Some n \<Rightarrow>
           Inr (0, if antes \<noteq> NULL then val n else antes,
                h\<lparr>elems := (elems h)[i := tira_no k (elems h ! i)], size_h := size_h h - 1\<rparr>)
       | None \<Rightarrow> Inr (1, NULL, h))"

definition hashGet :: "HashMap \<Rightarrow> int \<Rightarrow> (int \<times> addr) res" where
  "hashGet h k =
     bindr (indice h k) (\<lambda>i.
       case procura_no k (elems h ! i) of
         Some n \<Rightarrow> Inr (0, val n)
       | None \<Rightarrow> Inr (1, NULL))"

definition hashSize :: "HashMap \<Rightarrow> int" where
  "hashSize h = size_h h"

text \<open>hashDelete frees every node: the addresses it frees, bucket by bucket.\<close>

definition hashDelete :: "HashMap \<Rightarrow> addr list" where
  "hashDelete h = map node (concat (elems h))"

section \<open>The table as a map\<close>

definition hash_ok :: "HashMap \<Rightarrow> bool" where
  "hash_ok h \<longleftrightarrow>
     elems h \<noteq> [] \<and> size_h h = int (length (concat (elems h))) \<and>
     (\<forall>i < length (elems h). distinct (map key (elems h ! i)) \<and>
        (\<forall>n \<in> set (elems h ! i). 0 \<le> key n \<and> indice h (key n) = Inr i))"

definition mapa :: "HashMap \<Rightarrow> int \<Rightarrow> addr option" where
  "mapa h k = (if k < 0 then None
     else case indice h k of Inl e \<Rightarrow> None
          | Inr i \<Rightarrow> map_option val (procura_no k (elems h ! i)))"

lemma trem_range: "0 \<le> a \<Longrightarrow> 0 < b \<Longrightarrow> 0 \<le> trem a b \<and> trem a b < b"
  by (auto simp: trem_def sgn_if)

lemma indice_ok:
  assumes "0 \<le> k" "elems h \<noteq> []"
  shows "\<exists>i. indice h k = Inr i \<and> i < length (elems h)"
  using assms trem_range[of k 10] trem_range[of "funcaoHash k" "int (length (elems h))"]
  by (auto simp: indice_def Let_def funcaoHash_def)

lemma indice_elems: "length (elems h') = length (elems h) \<Longrightarrow> indice h' k = indice h k"
  by (simp add: indice_def Let_def)

lemma procura_no_None: "procura_no k ns = None \<longleftrightarrow> k \<notin> key ` set ns"
  by (induction ns) (auto simp: keyEquals_def)

lemma procura_no_Some: "procura_no k ns = Some n \<Longrightarrow> n \<in> set ns \<and> key n = k"
  by (induction ns) (auto simp: keyEquals_def split: if_splits)

lemma procura_tira:
  "distinct (map key ns) \<Longrightarrow> procura_no k' (tira_no k ns) = (if k' = k then None else procura_no k' ns)"
  by (induction ns) (auto simp: keyEquals_def procura_no_None)

lemma procura_troca:
  "k \<in> key ` set ns \<Longrightarrow>
   map_option val (procura_no k' (troca_valor k v ns)) =
     (if k' = k then Some v else map_option val (procura_no k' ns))"
  by (induction ns) (auto simp: keyEquals_def)

lemma troca_campos: "map key (troca_valor k v ns) = map key ns" "map node (troca_valor k v ns) = map node ns"
  by (induction ns) auto

lemma tira_campos: "set (tira_no k ns) \<subseteq> set ns" "distinct (map key ns) \<Longrightarrow> distinct (map key (tira_no k ns))"
  "k \<in> key ` set ns \<Longrightarrow> length ns = Suc (length (tira_no k ns))"
  by (induction ns) (auto simp: keyEquals_def)

text \<open>Replacing one chain.\<close>

lemma mapa_muda:
  assumes "i < length (elems h)" "elems h' = (elems h)[i := b]"
    and "\<And>k. 0 \<le> k \<Longrightarrow> indice h k = Inr i \<Longrightarrow>
        map_option val (procura_no k b) = (if k = k0 then v else map_option val (procura_no k (elems h ! i)))"
    and "indice h k0 = Inr i" "0 \<le> k0"
  shows "mapa h' = (mapa h)(k0 := v)"
proof
  fix k
  have "indice h' k = indice h k" by (rule indice_elems) (simp add: assms)
  then show "mapa h' k = ((mapa h)(k0 := v)) k"
    using assms by (cases "indice h k") (auto simp: mapa_def nth_list_update)
qed

lemma hashGet_mapa:
  assumes "hash_ok h" "0 \<le> k"
  shows "hashGet h k = Inr (case mapa h k of None \<Rightarrow> (1, NULL) | Some v \<Rightarrow> (0, v))"
  using assms indice_ok[of k h] by (auto simp: hashGet_def mapa_def hash_ok_def split: option.splits)

lemma hashInsert_mapa:
  assumes "hash_ok h" "0 \<le> k"
  shows "\<exists>s h'. hashInsert h k v = Inr (s, h') \<and> mapa h' = (mapa h)(k \<mapsto> v) \<and>
     s = (if mapa h k = None then 0 else 1) \<and> size_h h' = size_h h + 1 - s"
proof -
  obtain i where i: "indice h k = Inr i" "i < length (elems h)"
    using indice_ok[of k h] assms by (auto simp: hash_ok_def)
  show ?thesis
  proof (cases "k \<in> key ` set (elems h ! i)")
    case True
    let ?h = "h\<lparr>elems := (elems h)[i := troca_valor k v (elems h ! i)]\<rparr>"
    have "mapa ?h = (mapa h)(k \<mapsto> v)"
      by (rule mapa_muda[OF i(2) _ _ i(1) assms(2)]) (simp, metis procura_troca[OF True])
    moreover have "mapa h k \<noteq> None" using True i assms by (auto simp: mapa_def procura_no_None)
    moreover have "hashInsert h k v = Inr (1, ?h)"
      using i True by (auto simp: hashInsert_def keyEquals_def Let_def)
    ultimately show ?thesis by auto
  next
    case False
    let ?h = "h\<lparr>elems := (elems h)[i := \<lparr>node = prox_h h, key = k, val = v\<rparr> # elems h ! i],
                   size_h := size_h h + 1, prox_h := prox_h h + 1\<rparr>"
    have "mapa ?h = (mapa h)(k \<mapsto> v)"
      by (rule mapa_muda[OF i(2) _ _ i(1) assms(2)]) (simp, auto simp: keyEquals_def)
    moreover have "mapa h k = None" using False i assms by (auto simp: mapa_def procura_no_None)
    moreover have "hashInsert h k v = Inr (0, ?h)"
      using i False by (auto simp: hashInsert_def keyEquals_def Let_def)
    ultimately show ?thesis by auto
  qed
qed

lemma hashRemove_mapa:
  assumes "hash_ok h" "0 \<le> k"
  shows "\<exists>r s h'. hashRemove h k a = Inr (s, r, h') \<and> mapa h' = (mapa h)(k := None) \<and>
     size_h h' = size_h h - 1 + s \<and>
     (case mapa h k of None \<Rightarrow> s = 1 \<and> r = NULL \<and> h' = h
      | Some v \<Rightarrow> s = 0 \<and> r = (if a \<noteq> NULL then v else NULL))"
proof -
  obtain i where i: "indice h k = Inr i" "i < length (elems h)"
    using indice_ok[of k h] assms by (auto simp: hash_ok_def)
  have d: "distinct (map key (elems h ! i))" using assms i by (auto simp: hash_ok_def)
  show ?thesis
  proof (cases "procura_no k (elems h ! i)")
    case None
    then have "mapa h k = None" using i assms by (simp add: mapa_def)
    moreover have "hashRemove h k a = Inr (1, NULL, h)" using i None by (simp add: hashRemove_def)
    ultimately show ?thesis by (auto simp: fun_upd_idem)
  next
    case (Some n)
    let ?h = "h\<lparr>elems := (elems h)[i := tira_no k (elems h ! i)], size_h := size_h h - 1\<rparr>"
    have "mapa ?h = (mapa h)(k := None)"
      by (rule mapa_muda[OF i(2) _ _ i(1) assms(2)]) (simp, metis procura_tira[OF d] option.map_disc_iff)
    moreover have "mapa h k = Some (val n)" using i assms Some by (simp add: mapa_def)
    moreover have "hashRemove h k a = Inr (0, if a \<noteq> NULL then val n else a, ?h)"
      using i Some by (simp add: hashRemove_def)
    ultimately show ?thesis by auto
  qed
qed

text \<open>Replacing one chain by another keeps the table well formed.\<close>

lemma hash_ok_muda:
  assumes h: "hash_ok h" and i: "i < length (elems h)"
    and e: "elems h' = (elems h)[i := b]"
    and s: "size_h h' = size_h h + int (length b) - int (length (elems h ! i))"
    and b: "distinct (map key b)" "\<forall>n \<in> set b. 0 \<le> key n \<and> indice h (key n) = Inr i"
  shows "hash_ok h'"
proof -
  define E1 where "E1 = take i (elems h)"
  define E2 where "E2 = drop (Suc i) (elems h)"
  have split: "elems h = E1 @ elems h ! i # E2" "elems h' = E1 @ b # E2"
    using i e by (simp_all add: E1_def E2_def id_take_nth_drop upd_conv_take_nth_drop)
  have ind: "indice h' k = indice h k" for k using indice_elems[of h' h k] e by simp
  have "length (concat (elems h)) = length (concat E1) + length (elems h ! i) + length (concat E2)"
    by (subst split(1)) simp
  moreover have "length (concat (elems h')) = length (concat E1) + length b + length (concat E2)"
    by (subst split(2)) simp
  ultimately have "size_h h' = int (length (concat (elems h')))"
    using h s by (simp add: hash_ok_def)
  then show ?thesis
    using h i e b ind by (auto simp: hash_ok_def nth_list_update)
qed

lemma hash_ok_cadeia:
  assumes "hash_ok h" "0 \<le> k"
  obtains i where "indice h k = Inr i" "i < length (elems h)" "distinct (map key (elems h ! i))"
    "\<forall>n \<in> set (elems h ! i). 0 \<le> key n \<and> indice h (key n) = Inr i"
  using assms indice_ok[of k h] by (auto simp: hash_ok_def)

lemma hashInsert_ok:
  assumes h: "hash_ok h" and k: "0 \<le> k" and r: "hashInsert h k v = Inr (s, h')"
  shows "hash_ok h'"
proof -
  obtain i where i: "indice h k = Inr i" "i < length (elems h)" and b: "distinct (map key (elems h ! i))"
    "\<forall>n \<in> set (elems h ! i). 0 \<le> key n \<and> indice h (key n) = Inr i"
    using hash_ok_cadeia[OF h k] by blast
  let ?b = "elems h ! i"
  show ?thesis
  proof (cases "\<exists>n \<in> set ?b. keyEquals (key n) k")
    case True
    then have h': "h' = h\<lparr>elems := (elems h)[i := troca_valor k v ?b]\<rparr>"
      using r i by (simp add: hashInsert_def Let_def)
    have "length (troca_valor k v ?b) = length ?b" by (metis length_map troca_campos(1))
    moreover have "key ` set (troca_valor k v ?b) = key ` set ?b"
      by (metis list.set_map troca_campos(1))
    then have "\<forall>n \<in> set (troca_valor k v ?b). 0 \<le> key n \<and> indice h (key n) = Inr i"
      using b(2) by (metis (no_types, lifting) image_iff)
    ultimately show ?thesis
      using h' b by (intro hash_ok_muda[OF h i(2)]) (auto simp: troca_campos)
  next
    case False
    then have h': "h' = h\<lparr>elems := (elems h)[i := \<lparr>node = prox_h h, key = k, val = v\<rparr> # ?b],
        size_h := size_h h + 1, prox_h := prox_h h + 1\<rparr>"
      using r i by (simp add: hashInsert_def Let_def)
    have "k \<notin> key ` set ?b" using False by (auto simp: keyEquals_def)
    then show ?thesis
      using h' b i k
      by (intro hash_ok_muda[OF h i(2), of _ "\<lparr>node = prox_h h, key = k, val = v\<rparr> # ?b"]) auto
  qed
qed

lemma hashRemove_ok:
  assumes h: "hash_ok h" and k: "0 \<le> k" and r: "hashRemove h k a = Inr (s, x, h')"
  shows "hash_ok h'"
proof -
  obtain i where i: "indice h k = Inr i" "i < length (elems h)" and b: "distinct (map key (elems h ! i))"
    "\<forall>n \<in> set (elems h ! i). 0 \<le> key n \<and> indice h (key n) = Inr i"
    using hash_ok_cadeia[OF h k] by blast
  let ?b = "elems h ! i"
  show ?thesis
  proof (cases "procura_no k ?b")
    case None
    then show ?thesis using r i h by (simp add: hashRemove_def)
  next
    case (Some n)
    have kb: "k \<in> key ` set ?b" using procura_no_Some[OF Some] by auto
    have "h' = h\<lparr>elems := (elems h)[i := tira_no k ?b], size_h := size_h h - 1\<rparr>"
      using r i Some by (simp add: hashRemove_def)
    then show ?thesis
      using b tira_campos[where k = k and ns = ?b] kb
      by (intro hash_ok_muda[OF h i(2), of _ "tira_no k ?b"]) auto
  qed
qed

lemma newHash_ok: "0 < n \<Longrightarrow> hash_ok (newHash n)" "mapa (newHash n) k = None"
  by (auto simp: hash_ok_def newHash_def mapa_def indice_def Let_def split: sum.splits if_splits)

end
