(* ===== verification/Block.thy ===== *)
theory Block
  imports CPrelude "HOL-Library.Word"
begin

unbundle bit_operations_syntax

text \<open>
  The virtual disk of snfs_server/block.c: a sequence of \<open>num_blocks\<close> blocks of \<open>block_size\<close>
  bytes.  The array \<open>blocks\<close> of the C structure is the concatenation of the list of blocks
  kept here: block \<open>no\<close> is the slice that starts at \<open>no * block_size\<close>.  Sizes are unsigned
  32-bit numbers; the products the code computes on them are taken modulo \<open>2 ^ 32\<close>.  The I/O
  delay (io_delay.c) only sleeps and is not part of the state.
\<close>

type_synonym byte = "8 word"
type_synonym bloco = "byte list"

section \<open>The disk\<close>

record blocks_t =
  block_size :: "32 word"
  num_blocks :: "32 word"
  blocks :: "bloco list"

definition zeros :: "nat \<Rightarrow> bloco" where
  "zeros n = replicate n 0"

definition block_new :: "32 word \<Rightarrow> 32 word \<Rightarrow> blocks_t option" where
  "block_new n sz =
     (if n * sz = 0 then None
      else Some \<lparr>block_size = sz, num_blocks = n, blocks = replicate (unat n) (zeros (unat sz))\<rparr>)"

definition block_num_blocks :: "blocks_t \<Rightarrow> 32 word" where
  "block_num_blocks bks = num_blocks bks"

text \<open>block_read returns the status and the block copied out; no block is copied on error.\<close>

definition block_read :: "blocks_t \<Rightarrow> 32 word \<Rightarrow> int \<times> bloco option" where
  "block_read bks no =
     (if no \<ge> num_blocks bks then (-1, None)
      else (0, Some (blocks bks ! unat no)))"

text \<open>block_write copies \<open>block_size\<close> bytes of the buffer.\<close>

definition block_write :: "blocks_t \<Rightarrow> 32 word \<Rightarrow> bloco \<Rightarrow> int \<times> blocks_t" where
  "block_write bks no b =
     (if no \<ge> num_blocks bks then (-1, bks)
      else (0, bks\<lparr>blocks := (blocks bks)[unat no := take (unat (block_size bks)) b]\<rparr>))"

text \<open>The memory of the C structure holds as many blocks as it says, each of the full size.\<close>

definition disco_ok :: "blocks_t \<Rightarrow> bool" where
  "disco_ok bks \<longleftrightarrow>
     length (blocks bks) = unat (num_blocks bks) \<and>
     (\<forall>b \<in> set (blocks bks). length b = unat (block_size bks))"

section \<open>Images of a disk\<close>

text \<open>Unsigned numbers in memory, least significant byte first (the code is built for i386).\<close>

definition le32 :: "32 word \<Rightarrow> byte list" where
  "le32 w = [ucast w, ucast (drop_bit 8 w), ucast (drop_bit 16 w), ucast (drop_bit 24 w)]"

definition un32 :: "byte list \<Rightarrow> 32 word" where
  "un32 bs = ucast (bs ! 0) OR push_bit 8 (ucast (bs ! 1)) OR push_bit 16 (ucast (bs ! 2))
             OR push_bit 24 (ucast (bs ! 3))"

text \<open>
  block_store writes the C structure itself: the two sizes and the blocks.  \<open>sizeof(blocks_t)\<close>
  is 8.  The result is the content of the file when the write is complete.
\<close>

definition block_store :: "blocks_t \<Rightarrow> byte list" where
  "block_store bks = le32 (block_size bks) @ le32 (num_blocks bks) @ concat (blocks bks)"

fun corta :: "nat \<Rightarrow> nat \<Rightarrow> byte list \<Rightarrow> bloco list" where
  "corta sz 0 bs = []"
| "corta sz (Suc n) bs = take sz bs # corta sz n (drop sz bs)"

text \<open>block_load of an image file; \<open>None\<close> when one of the three reads is short.\<close>

definition block_load :: "byte list \<Rightarrow> blocks_t option" where
  "block_load bs =
     (if length bs < 4 then None
      else let sz = un32 bs; bs = drop 4 bs in
        if length bs < 4 then None
        else let n = un32 bs; bs = drop 4 bs in
          if length bs < unat (n * sz) then None
          else Some \<lparr>block_size = sz, num_blocks = n, blocks = corta (unat sz) (unat n) bs\<rparr>)"

section \<open>Lemmas\<close>

lemma zeros_length [simp]: "length (zeros n) = n"
  by (simp add: zeros_def)

lemma block_new_ok: "block_new n sz = Some bks \<Longrightarrow> disco_ok bks"
  by (auto simp: block_new_def disco_ok_def split: if_splits)

lemma block_write_ok:
  assumes "disco_ok bks" "unat (block_size bks) \<le> length b"
  shows "disco_ok (snd (block_write bks no b))"
proof -
  have "set ((blocks bks)[n := take (unat (block_size bks)) b]) \<subseteq>
      insert (take (unat (block_size bks)) b) (set (blocks bks))" for n
    by (rule set_update_subset_insert)
  then show ?thesis using assms by (fastforce simp: block_write_def disco_ok_def)
qed

lemma block_write_campos [simp]:
  "num_blocks (snd (block_write bks no b)) = num_blocks bks"
  "block_size (snd (block_write bks no b)) = block_size bks"
  by (simp_all add: block_write_def)

lemma block_read_write:
  assumes "disco_ok bks" "no < num_blocks bks" "length b = unat (block_size bks)"
  shows "block_read (snd (block_write bks no b)) no' =
    (if no' = no then (0, Some b) else block_read bks no')"
proof -
  have "unat no < length (blocks bks)"
    using assms by (simp add: disco_ok_def word_less_nat_alt)
  then show ?thesis using assms
    by (auto simp: block_read_def block_write_def nth_list_update not_le
        dest: word_unat_eq_iff [THEN iffD2])
qed

lemma block_read_ok:
  assumes "disco_ok bks" "no < num_blocks bks"
  shows "\<exists>b. block_read bks no = (0, Some b) \<and> length b = unat (block_size bks)"
  using assms by (auto simp: block_read_def disco_ok_def word_less_nat_alt not_le)

lemma le32_length [simp]: "length (le32 w) = 4"
  by (simp add: le32_def)

lemma un32_le32: "un32 (le32 w @ bs) = w"
proof (rule bit_word_eqI)
  fix n assume "n < LENGTH(32)"
  then have "n < 32" by simp
  then consider "n < 8" | "8 \<le> n" "n < 16" | "16 \<le> n" "n < 24" | "24 \<le> n" "n < 32" by linarith
  then show "bit (un32 (le32 w @ bs)) n \<longleftrightarrow> bit w n"
    by cases (auto simp: un32_def le32_def bit_simps)
qed

lemma corta_concat:
  "\<forall>b \<in> set bl. length b = sz \<Longrightarrow> length bl = n \<Longrightarrow> corta sz n (concat bl @ r) = bl"
  by (induction bl arbitrary: n) auto


lemma concat_length:
  "\<forall>b \<in> set bl. length b = sz \<Longrightarrow> length (concat bl) = length bl * sz"
  by (induction bl) auto

lemma block_load_store_aux:
  assumes "disco_ok bks" "unat (num_blocks bks) * unat (block_size bks) < 2 ^ 32"
  shows "block_load (block_store bks @ r) = Some bks"
proof -
  have c: "length (concat (blocks bks)) = unat (num_blocks bks * block_size bks)"
    using assms concat_length[of "blocks bks" "unat (block_size bks)"]
    by (simp add: disco_ok_def unat_word_ariths)
  have "corta (unat (block_size bks)) (unat (num_blocks bks)) (concat (blocks bks) @ r) = blocks bks"
    using assms by (intro corta_concat) (auto simp: disco_ok_def)
  then show ?thesis
    using c by (simp add: block_load_def block_store_def un32_le32 Let_def)
qed

end
