(* ===== verification/Cache.thy ===== *)
theory Cache
  imports Hash Block
begin

text \<open>
  The block cache of snfs_server/cache.c: a hash table of entries in front of the disk, with
  delayed writes and an NRU replacement.  The disk is shared by pointer with the file system;
  the field \<open>disco\<close> of the model is that one disk.

  Two variables of the code are read without having been initialised: \<open>blocoRemovido\<close>, whose
  content hashRemove tests, and the counter \<open>entradas_removidas\<close>.  Their values come from an
  arbitrary sequence \<open>lixo\<close>, one element per read.  A loop over a chain that frees the node it
  stands on reads its \<open>next\<close> field afterwards: the model stops there with \<open>BadAddr\<close>.
\<close>

section \<open>Entries and caches\<close>

definition BLOCK_SIZE :: nat where
  "BLOCK_SIZE = 512"

record icache =
  idBloco :: int
  valido :: bool
  referenciado :: bool
  modificado :: bool
  tempoEmCache :: int
  conteudobloco :: bloco

record cache_t =
  tabela :: HashMap
  numeroNosUtilizados :: int
  numeroMaxNos :: int
  disco :: blocks_t
  ent :: "addr \<Rightarrow> icache option"
  prox_c :: addr
  lixo :: "nat \<Rightarrow> nat"
  n_lixo :: nat

definition criarCache :: "(nat \<Rightarrow> nat) \<Rightarrow> nat \<Rightarrow> blocks_t \<Rightarrow> cache_t" where
  "criarCache z n d =
     \<lparr>tabela = newHash n, numeroNosUtilizados = 0, numeroMaxNos = int n, disco = d,
      ent = Map.empty, prox_c = 1, lixo = z, n_lixo = 0\<rparr>"

definition le_lixo :: "cache_t \<Rightarrow> nat \<times> cache_t" where
  "le_lixo c = (lixo c (n_lixo c), c\<lparr>n_lixo := n_lixo c + 1\<rparr>)"

definition ent_em :: "cache_t \<Rightarrow> addr \<Rightarrow> icache res" where
  "ent_em c a = (case ent c a of None \<Rightarrow> Inl (BadAddr a) | Some e \<Rightarrow> Inr e)"

definition muda_ent :: "(icache \<Rightarrow> icache) \<Rightarrow> cache_t \<Rightarrow> addr \<Rightarrow> cache_t res" where
  "muda_ent g c a = bindr (ent_em c a) (\<lambda>e. Inr (c\<lparr>ent := (ent c)(a \<mapsto> g e)\<rparr>))"

section \<open>Removing entries\<close>

definition retirarDaCache :: "cache_t \<Rightarrow> int \<Rightarrow> (int \<times> cache_t) res" where
  "retirarDaCache c k =
     (let (antes, c) = le_lixo c in
      bindr (hashRemove (tabela c) k antes) (\<lambda>(status, blocoRemovido, h).
        let c = c\<lparr>tabela := h\<rparr> in
        if status \<noteq> 0 then Inr (-1, c)
        else
          bindr (ent_em c blocoRemovido) (\<lambda>e.
            let (st, d) = (if modificado e \<and> valido e
                           then block_write (disco c) (word_of_int k) (conteudobloco e)
                           else (0, disco c));
                c = c\<lparr>disco := d\<rparr>
            in if st < 0 then Inr (-1, c)
               else Inr (0, c\<lparr>numeroNosUtilizados := numeroNosUtilizados c - 1\<rparr>))))"

definition na_tabela :: "cache_t \<Rightarrow> SHashNode \<Rightarrow> bool" where
  "na_tabela c n \<longleftrightarrow> (\<exists>b \<in> set (elems (tabela c)). node n \<in> node ` set b)"

text \<open>
  One pass of libertarEspaco: over the nodes of the table in order, removes the entries that
  satisfy \<open>cond\<close> and counts them.
\<close>

fun varre :: "(icache \<Rightarrow> bool) \<Rightarrow> cache_t \<Rightarrow> nat \<Rightarrow> SHashNode list \<Rightarrow> (nat \<times> cache_t) res" where
  "varre cond c r [] = Inr (r, c)"
| "varre cond c r (n # ns) =
     bindr (ent_em c (val n)) (\<lambda>e.
     if cond e then
       bindr (retirarDaCache c (idBloco e)) (\<lambda>(_, c).
       if na_tabela c n then varre cond c (r + 1) ns else Inl (BadAddr (node n)))
     else varre cond c r ns)"

definition invalida :: "icache \<Rightarrow> bool" where
  "invalida e \<longleftrightarrow> \<not> valido e"

definition classe :: "bool \<Rightarrow> bool \<Rightarrow> icache \<Rightarrow> bool" where
  "classe r m e \<longleftrightarrow> referenciado e = r \<and> modificado e = m"

definition nos :: "cache_t \<Rightarrow> SHashNode list" where
  "nos c = concat (elems (tabela c))"

definition libertarEspaco :: "cache_t \<Rightarrow> cache_t res" where
  "libertarEspaco c =
     (let (r0, c) = le_lixo c in
      bindr (varre invalida c r0 (nos c)) (\<lambda>(r, c). if r \<noteq> 0 then Inr c else
      bindr (varre (classe False False) c 0 (nos c)) (\<lambda>(r, c). if r \<noteq> 0 then Inr c else
      bindr (varre (classe False True) c 0 (nos c)) (\<lambda>(r, c). if r \<noteq> 0 then Inr c else
      bindr (varre (classe True False) c 0 (nos c)) (\<lambda>(r, c). if r \<noteq> 0 then Inr c else
      bindr (varre (classe True True) c 0 (nos c)) (\<lambda>(r, c). Inr c))))))"

section \<open>Loading and storing blocks\<close>

definition novaEntradaCache :: "cache_t \<Rightarrow> int \<Rightarrow> bool \<Rightarrow> bloco \<Rightarrow> (addr \<times> cache_t) res" where
  "novaEntradaCache c k m dados =
     bindr (if numeroNosUtilizados c = numeroMaxNos c then libertarEspaco c else Inr c) (\<lambda>c.
       let a = prox_c c;
           c = c\<lparr>prox_c := a + 1,
                 ent := (ent c)(a \<mapsto> \<lparr>idBloco = k, valido = True, referenciado = True, modificado = m,
                                   tempoEmCache = 0, conteudobloco = take BLOCK_SIZE dados\<rparr>)\<rparr>
       in bindr (hashInsert (tabela c) k a) (\<lambda>(status, h).
          let c = c\<lparr>tabela := h\<rparr>;
              c = (if status = 1 then
                     c\<lparr>ent := (ent c)(a := map_option (\<lambda>e. e\<lparr>modificado := True, referenciado := True\<rparr>) (ent c a))\<rparr>
                   else c\<lparr>numeroNosUtilizados := numeroNosUtilizados c + 1\<rparr>)
          in Inr (a, c)))"

text \<open>carregarBlocoParaCache returns NULL when the disk read fails.\<close>

definition carregarBlocoParaCache :: "cache_t \<Rightarrow> int \<Rightarrow> (addr \<times> cache_t) res" where
  "carregarBlocoParaCache c k =
     (case block_read (disco c) (word_of_int k) of
        (status, Some b) \<Rightarrow> novaEntradaCache c k False b
      | (status, None) \<Rightarrow> Inr (NULL, c))"

definition escreverCache :: "cache_t \<Rightarrow> int \<Rightarrow> bloco \<Rightarrow> (int \<times> cache_t) res" where
  "escreverCache c k b =
     bindr (hashGet (tabela c) k) (\<lambda>(status, a).
     bindr (if status = 0 then bindr (ent_em c a) (\<lambda>e. Inr (\<not> valido e)) else Inr False) (\<lambda>inval.
     bindr (if inval then bindr (retirarDaCache c k) (\<lambda>(_, c). carregarBlocoParaCache c k)
            else Inr (a, c)) (\<lambda>(a, c).
     if status = 1 then
       bindr (novaEntradaCache c k True b) (\<lambda>(_, c). Inr (0, c))
     else if a = NULL then Inr (-1, c)
     else
       bindr (muda_ent (\<lambda>e. e\<lparr>conteudobloco := take BLOCK_SIZE b, referenciado := True,
                               modificado := True, valido := True\<rparr>) c a) (\<lambda>c. Inr (0, c)))))"

definition lerCache :: "cache_t \<Rightarrow> int \<Rightarrow> (bloco \<times> cache_t) res" where
  "lerCache c k =
     bindr (hashGet (tabela c) k) (\<lambda>(status, a).
     bindr (if status = 1 then
              bindr (carregarBlocoParaCache c k) (\<lambda>(a, c).
              bindr (muda_ent (valido_update (\<lambda>_. True)) c a) (\<lambda>c. Inr (a, c)))
            else Inr (a, c)) (\<lambda>(a, c).
     bindr (ent_em c a) (\<lambda>e.
     bindr (if \<not> valido e then
              bindr (retirarDaCache c k) (\<lambda>(_, c).
              bindr (carregarBlocoParaCache c k) (\<lambda>(a, c).
              bindr (muda_ent (valido_update (\<lambda>_. True)) c a) (\<lambda>c. Inr (a, c))))
            else Inr (a, c)) (\<lambda>(a, c).
     bindr (muda_ent (referenciado_update (\<lambda>_. True)) c a) (\<lambda>c.
     bindr (ent_em c a) (\<lambda>e. Inr (take BLOCK_SIZE (conteudobloco e), c)))))))"

definition invalidarBloco :: "cache_t \<Rightarrow> int \<Rightarrow> (int \<times> cache_t) res" where
  "invalidarBloco c k =
     bindr (hashGet (tabela c) k) (\<lambda>(status, a).
     if status = 1 then Inr (-1, c)
     else bindr (muda_ent (valido_update (\<lambda>_. False)) c a) (\<lambda>c. Inr (0, c)))"

definition eliminarBlocoCache :: "cache_t \<Rightarrow> int \<Rightarrow> (int \<times> cache_t) res" where
  "eliminarBlocoCache c k =
     bindr (hashGet (tabela c) k) (\<lambda>(status, a).
     bindr (if status = 0 then muda_ent (valido_update (\<lambda>_. False)) c a else Inr c) (\<lambda>c.
     Inr (1, c\<lparr>disco := snd (block_write (disco c) (word_of_int k) (zeros BLOCK_SIZE))\<rparr>)))"

text \<open>actualizarCache: the sweep of the background thread.\<close>

fun envelhece :: "cache_t \<Rightarrow> int \<Rightarrow> SHashNode list \<Rightarrow> cache_t res" where
  "envelhece c dt [] = Inr c"
| "envelhece c dt (n # ns) =
     bindr (muda_ent (\<lambda>e. e\<lparr>tempoEmCache := tempoEmCache e + dt, referenciado := False\<rparr>) c (val n)) (\<lambda>c.
     bindr (ent_em c (val n)) (\<lambda>e.
     if tempoEmCache e \<ge> 10 then
       bindr (retirarDaCache c (idBloco e)) (\<lambda>(_, c).
       if na_tabela c n then envelhece c dt ns else Inl (BadAddr (node n)))
     else envelhece c dt ns))"

definition actualizarCache :: "cache_t \<Rightarrow> int \<Rightarrow> (int \<times> cache_t) res" where
  "actualizarCache c dt = bindr (envelhece c dt (nos c)) (\<lambda>c. Inr (0, c))"

section \<open>The view through the cache\<close>

text \<open>
  What a reader of block \<open>k\<close> should see: the content of its valid entry, or else the disk.
\<close>

definition vista :: "cache_t \<Rightarrow> int \<Rightarrow> bloco" where
  "vista c k =
     (if k < 0 then []
      else case mapa (tabela c) k of
        None \<Rightarrow> blocks (disco c) ! nat k
      | Some a \<Rightarrow> (case ent c a of
            None \<Rightarrow> []
          | Some e \<Rightarrow> if valido e then conteudobloco e else blocks (disco c) ! nat k))"

definition entrada_ok :: "cache_t \<Rightarrow> int \<Rightarrow> addr \<Rightarrow> bool" where
  "entrada_ok c k a \<longleftrightarrow>
     0 \<le> k \<and> nat k < unat (num_blocks (disco c)) \<and> a \<noteq> NULL \<and> a < prox_c c \<and>
     (\<exists>e. ent c a = Some e \<and> idBloco e = k \<and> length (conteudobloco e) = BLOCK_SIZE \<and>
          (valido e \<longrightarrow> \<not> modificado e \<longrightarrow> conteudobloco e = blocks (disco c) ! nat k))"

definition cache_ok :: "cache_t \<Rightarrow> bool" where
  "cache_ok c \<longleftrightarrow>
     hash_ok (tabela c) \<and> disco_ok (disco c) \<and> block_size (disco c) = of_nat BLOCK_SIZE \<and>
     NULL < prox_c c \<and> numeroNosUtilizados c = size_h (tabela c) \<and>
     numeroNosUtilizados c \<le> numeroMaxNos c \<and>
     inj_on (mapa (tabela c)) (dom (mapa (tabela c))) \<and>
     (\<forall>k a. mapa (tabela c) k = Some a \<longrightarrow> entrada_ok c k a)"

definition bloco_valido :: "cache_t \<Rightarrow> int \<Rightarrow> bool" where
  "bloco_valido c k \<longleftrightarrow> 0 \<le> k \<and> nat k < unat (num_blocks (disco c))"

section \<open>What is seen through the cache\<close>

lemma cache_okD:
  assumes "cache_ok c"
  shows "hash_ok (tabela c)" "disco_ok (disco c)" "unat (block_size (disco c)) = BLOCK_SIZE"
    "\<And>k a. mapa (tabela c) k = Some a \<Longrightarrow> entrada_ok c k a"
    "\<And>k k' a. mapa (tabela c) k = Some a \<Longrightarrow> mapa (tabela c) k' = Some a \<Longrightarrow> k = k'"
    "numeroNosUtilizados c = size_h (tabela c)" "numeroNosUtilizados c \<le> numeroMaxNos c" "NULL < prox_c c"
    "block_size (disco c) = of_nat BLOCK_SIZE"
  using assms by (auto simp: cache_ok_def BLOCK_SIZE_def inj_on_def dom_def)

lemma cache_okI:
  assumes "hash_ok (tabela c)" "disco_ok (disco c)" "block_size (disco c) = of_nat BLOCK_SIZE"
    "\<And>k a. mapa (tabela c) k = Some a \<Longrightarrow> entrada_ok c k a"
    "\<And>k k' a. mapa (tabela c) k = Some a \<Longrightarrow> mapa (tabela c) k' = Some a \<Longrightarrow> k = k'"
    "numeroNosUtilizados c = size_h (tabela c)" "numeroNosUtilizados c \<le> numeroMaxNos c" "NULL < prox_c c"
  shows "cache_ok c"
  using assms by (auto simp: cache_ok_def inj_on_def dom_def)

lemma entrada_okD:
  assumes "entrada_ok c k a"
  obtains e where "bloco_valido c k" "0 \<le> k" "a \<noteq> NULL" "a < prox_c c" "ent c a = Some e" "idBloco e = k"
      "length (conteudobloco e) = BLOCK_SIZE"
      "valido e \<Longrightarrow> \<not> modificado e \<Longrightarrow> conteudobloco e = blocks (disco c) ! nat k"
  using assms by (auto simp: entrada_ok_def bloco_valido_def)

lemma unat_bloco: assumes "bloco_valido c k" shows "unat (word_of_int k :: 32 word) = nat k"
proof -
  have k: "0 \<le> k" "nat k < unat (num_blocks (disco c))" using assms by (auto simp: bloco_valido_def)
  have "unat (num_blocks (disco c)) < 2 ^ 32"
    using unsigned_less[of "num_blocks (disco c)"] by simp
  then have "nat k < 2 ^ 32" using k(2) by (rule less_trans[rotated])
  moreover have "(word_of_int k :: 32 word) = of_nat (nat k)"
    using k(1) by (metis of_int_of_nat_eq nat_0_le)
  ultimately show ?thesis by (simp only: unsigned_of_nat) (simp add: take_bit_nat_eq_self)
qed

lemma bloco_valido_menor: "bloco_valido c k \<Longrightarrow> (word_of_int k :: 32 word) < num_blocks (disco c)"
  using unat_bloco[of c k] by (simp add: word_less_nat_alt bloco_valido_def)

lemma le_bloco: "bloco_valido c k \<Longrightarrow>
    block_read (disco c) (word_of_int k) = (0, Some (blocks (disco c) ! nat k))"
  using bloco_valido_menor[of c k] by (simp add: block_read_def unat_bloco not_le)

lemma escreve_bloco: "bloco_valido c k \<Longrightarrow> length b = unat (block_size (disco c)) \<Longrightarrow>
    block_write (disco c) (word_of_int k) b = (0, (disco c)\<lparr>blocks := (blocks (disco c))[nat k := b]\<rparr>)"
  using bloco_valido_menor[of c k] by (simp add: block_write_def unat_bloco not_le)

lemma bloco_no_disco: "cache_ok c \<Longrightarrow> bloco_valido c k \<Longrightarrow>
    nat k < length (blocks (disco c)) \<and> length (blocks (disco c) ! nat k) = BLOCK_SIZE"
  by (auto simp: cache_ok_def disco_ok_def bloco_valido_def BLOCK_SIZE_def)

lemma disco_ok_muda: "disco_ok d \<Longrightarrow> length b = unat (block_size d) \<Longrightarrow> disco_ok (d\<lparr>blocks := (blocks d)[i := b]\<rparr>)"
  unfolding disco_ok_def by (auto dest!: set_update_subset_insert[THEN subsetD])

lemma vista_length:
  "cache_ok c \<Longrightarrow> bloco_valido c k \<Longrightarrow> length (vista c k) = BLOCK_SIZE"
  using bloco_no_disco[of c k] cache_okD(4)[of c k]
  by (auto simp: vista_def bloco_valido_def entrada_ok_def split: option.splits)

text \<open>Removing an entry writes it back: what is seen through the cache stays.\<close>

lemma retirarDaCache_vista:
  assumes c: "cache_ok c" and z: "lixo c (n_lixo c) \<noteq> NULL" and m: "mapa (tabela c) k = Some a"
  shows "\<exists>c'. retirarDaCache c k = Inr (0, c') \<and> cache_ok c' \<and> vista c' = vista c \<and>
     mapa (tabela c') = (mapa (tabela c))(k := None) \<and>
     numeroNosUtilizados c' = numeroNosUtilizados c - 1 \<and> numeroMaxNos c' = numeroMaxNos c \<and>
     num_blocks (disco c') = num_blocks (disco c) \<and> lixo c' = lixo c \<and> prox_c c' = prox_c c \<and> ent c' = ent c"
proof -
  note ok = cache_okD[OF c]
  obtain e where e: "bloco_valido c k" "0 \<le> k" "a \<noteq> NULL" "a < prox_c c" "ent c a = Some e" "idBloco e = k"
      "length (conteudobloco e) = BLOCK_SIZE"
      "valido e \<Longrightarrow> \<not> modificado e \<Longrightarrow> conteudobloco e = blocks (disco c) ! nat k"
    by (rule entrada_okD[OF ok(4)[OF m]]) blast
  note k0 = e(2)
  obtain h where h: "hashRemove (tabela c) k (lixo c (n_lixo c)) = Inr (0, a, h)"
      "mapa h = (mapa (tabela c))(k := None)"
      "size_h h = size_h (tabela c) - 1"
    using hashRemove_mapa[OF ok(1) k0, of "lixo c (n_lixo c)"] m z by auto
  have hok: "hash_ok h" using hashRemove_ok[OF ok(1) k0 h(1)] .
  define d where "d = (if modificado e \<and> valido e
     then (disco c)\<lparr>blocks := (blocks (disco c))[nat k := conteudobloco e]\<rparr> else disco c)"
  let ?c = "c\<lparr>n_lixo := n_lixo c + 1, tabela := h, disco := d, numeroNosUtilizados := numeroNosUtilizados c - 1\<rparr>"
  have r: "retirarDaCache c k = Inr (0, ?c)"
    using h(1) e ok(3) escreve_bloco[OF e(1), of "conteudobloco e"]
    by (auto simp: retirarDaCache_def le_lixo_def Let_def ent_em_def d_def)
  have d: "disco_ok d" "num_blocks d = num_blocks (disco c)" "block_size d = block_size (disco c)"
    using ok(2,3) e(7) by (auto simp: d_def intro!: disco_ok_muda)
  have dk: "blocks d ! nat k' = (if k' = k then (if valido e then conteudobloco e else blocks (disco c) ! nat k)
      else blocks (disco c) ! nat k')" if "0 \<le> k'" for k'
    using e(8) bloco_no_disco[OF c e(1)] that k0
    by (auto simp: d_def nth_list_update bloco_valido_def)
  show ?thesis
  proof (intro exI conjI, rule r)
    show "cache_ok ?c"
    proof (rule cache_okI)
      fix k' a' assume m': "mapa (tabela ?c) k' = Some a'"
      then have n: "k' \<noteq> k" "mapa (tabela c) k' = Some a'" using h(2) by (auto split: if_splits)
      have "entrada_ok c k' a'" using ok(4) n(2) .
      then show "entrada_ok ?c k' a'" using n(1) dk[of k'] d(2) by (auto simp: entrada_ok_def)
      fix k'' assume "mapa (tabela ?c) k'' = Some a'"
      then show "k' = k''" using h(2) n ok(5)[of k' a' k''] by (auto split: if_splits)
    qed (use hok d ok h in auto)
    show "vista ?c = vista c"
    proof
      fix k'
      show "vista ?c k' = vista c k'"
        using h(2) dk[of k'] e m by (auto simp: vista_def split: option.splits)
    qed
  qed (simp_all add: h(2) d(2))
qed

text \<open>Changing one entry.\<close>

lemma entrada_muda:
  assumes c: "cache_ok c" and m: "mapa (tabela c) k = Some a" and e: "ent c a = Some e"
    and g: "idBloco (g e) = k" "length (conteudobloco (g e)) = BLOCK_SIZE"
    "valido (g e) \<Longrightarrow> \<not> modificado (g e) \<Longrightarrow> conteudobloco (g e) = blocks (disco c) ! nat k"
  shows "\<exists>c'. muda_ent g c a = Inr c' \<and> c' = c\<lparr>ent := (ent c)(a \<mapsto> g e)\<rparr> \<and> cache_ok c' \<and>
    vista c' = (vista c)(k := (if valido (g e) then conteudobloco (g e) else blocks (disco c) ! nat k))"
proof -
  note ok = cache_okD[OF c]
  let ?c = "c\<lparr>ent := (ent c)(a \<mapsto> g e)\<rparr>"
  have k: "0 \<le> k" "entrada_ok c k a" using ok(4)[OF m] by (auto simp: entrada_ok_def)
  have "cache_ok ?c"
  proof (rule cache_okI)
    fix k' a' assume m': "mapa (tabela ?c) k' = Some a'"
    then have "entrada_ok c k' a'" using ok(4) by simp
    then show "entrada_ok ?c k' a'"
      using m' m ok(5)[of k a k'] g k(2) by (cases "a' = a") (auto simp: entrada_ok_def)
    fix k'' assume "mapa (tabela ?c) k'' = Some a'"
    then show "k' = k''" using m' ok(5)[of k' a' k''] by simp
  qed (use ok in auto)
  moreover have "vista ?c = (vista c)(k := (if valido (g e) then conteudobloco (g e) else blocks (disco c) ! nat k))"
  proof
    fix k'
    show "vista ?c k' = ((vista c)(k := (if valido (g e) then conteudobloco (g e) else blocks (disco c) ! nat k))) k'"
    proof (cases "k' = k")
      case True
      then show ?thesis using m k(1) by (simp add: vista_def)
    next
      case False
      then have "mapa (tabela c) k' \<noteq> Some a" using m ok(5) by blast
      then show ?thesis using False by (simp add: vista_def split: option.splits)
    qed
  qed
  ultimately show ?thesis using e by (simp add: muda_ent_def ent_em_def)
qed

text \<open>A new entry, when the cache has room for it.\<close>

lemma novaEntradaCache_vista:
  assumes c: "cache_ok c" and m: "mapa (tabela c) k = None" and b: "bloco_valido c k"
    and cabe: "numeroNosUtilizados c < numeroMaxNos c"
    and d: "length dados = BLOCK_SIZE" "mo \<or> dados = blocks (disco c) ! nat k"
  shows "\<exists>c'. novaEntradaCache c k mo dados = Inr (prox_c c, c') \<and> cache_ok c' \<and>
     vista c' = (vista c)(k := dados) \<and> mapa (tabela c') = (mapa (tabela c))(k \<mapsto> prox_c c) \<and>
     numeroNosUtilizados c' = numeroNosUtilizados c + 1 \<and> numeroMaxNos c' = numeroMaxNos c \<and>
     disco c' = disco c \<and> lixo c' = lixo c \<and>
     ent c' = (ent c)(prox_c c \<mapsto> \<lparr>idBloco = k, valido = True, referenciado = True, modificado = mo,
                                   tempoEmCache = 0, conteudobloco = dados\<rparr>)"
proof -
  note ok = cache_okD[OF c]
  have k: "0 \<le> k" "nat k < unat (num_blocks (disco c))" using b by (auto simp: bloco_valido_def)
  obtain h where h: "hashInsert (tabela c) k (prox_c c) = Inr (0, h)"
      "mapa h = (mapa (tabela c))(k \<mapsto> prox_c c)" "size_h h = size_h (tabela c) + 1"
    using hashInsert_mapa[OF ok(1) k(1), of "prox_c c"] m by auto
  have hok: "hash_ok h" using hashInsert_ok[OF ok(1) k(1) h(1)] .
  let ?e = "\<lparr>idBloco = k, valido = True, referenciado = True, modificado = mo,
             tempoEmCache = 0, conteudobloco = dados\<rparr>"
  let ?c = "c\<lparr>prox_c := prox_c c + 1, ent := (ent c)(prox_c c \<mapsto> ?e), tabela := h,
     numeroNosUtilizados := numeroNosUtilizados c + 1\<rparr>"
  have r: "novaEntradaCache c k mo dados = Inr (prox_c c, ?c)"
    using cabe h(1) d(1) by (auto simp: novaEntradaCache_def Let_def)
  have viv: "a' < prox_c c" if "mapa (tabela c) k' = Some a'" for k' a'
    using ok(4)[OF that] by (auto simp: entrada_ok_def)
  have "cache_ok ?c"
  proof (rule cache_okI)
    fix k' a' assume m': "mapa (tabela ?c) k' = Some a'"
    show "entrada_ok ?c k' a'"
    proof (cases "k' = k")
      case True
      then show ?thesis using m' h(2) k d ok(8) by (auto simp: entrada_ok_def)
    next
      case False
      then have n: "mapa (tabela c) k' = Some a'" using m' h(2) by simp
      show ?thesis using ok(4)[OF n] viv[OF n] by (auto simp: entrada_ok_def)
    qed
    fix k'' assume m'': "mapa (tabela ?c) k'' = Some a'"
    show "k' = k''"
      using m' m'' h(2) viv[of k' a'] viv[of k'' a'] ok(5)[of k' a' k''] by (auto split: if_splits)
  qed (use hok ok h(3) cabe in auto)
  moreover have "vista ?c = (vista c)(k := dados)"
  proof
    fix k'
    show "vista ?c k' = ((vista c)(k := dados)) k'"
    proof (cases "k' = k")
      case True
      then show ?thesis using h(2) k by (simp add: vista_def)
    next
      case False
      have "mapa (tabela c) k' \<noteq> Some (prox_c c)" using viv by blast
      then show ?thesis using False h(2) by (simp add: vista_def split: option.splits)
    qed
  qed
  ultimately show ?thesis using r h(2) by simp
qed

lemma carregarBlocoParaCache_vista:
  assumes c: "cache_ok c" and m: "mapa (tabela c) k = None" and b: "bloco_valido c k"
    and cabe: "numeroNosUtilizados c < numeroMaxNos c"
  shows "\<exists>c'. carregarBlocoParaCache c k = Inr (prox_c c, c') \<and> cache_ok c' \<and>
     vista c' = vista c \<and> mapa (tabela c') = (mapa (tabela c))(k \<mapsto> prox_c c) \<and>
     numeroNosUtilizados c' = numeroNosUtilizados c + 1 \<and> numeroMaxNos c' = numeroMaxNos c \<and>
     disco c' = disco c \<and> lixo c' = lixo c \<and>
     ent c' = (ent c)(prox_c c \<mapsto> \<lparr>idBloco = k, valido = True, referenciado = True, modificado = False,
                                   tempoEmCache = 0, conteudobloco = blocks (disco c) ! nat k\<rparr>)"
proof -
  have "vista c k = blocks (disco c) ! nat k"
    using m b by (simp add: vista_def bloco_valido_def)
  then have "(vista c)(k := blocks (disco c) ! nat k) = vista c" by auto
  then show ?thesis
    using novaEntradaCache_vista[OF c m b cabe, of "blocks (disco c) ! nat k" False] bloco_no_disco[OF c b]
    by (simp add: carregarBlocoParaCache_def le_bloco[OF b])
qed

text \<open>
  Whether block \<open>k\<close> can be used without an eviction, and the garbage that makes hashRemove
  return the removed entry.
\<close>

definition cabe :: "cache_t \<Rightarrow> int \<Rightarrow> bool" where
  "cabe c k \<longleftrightarrow> mapa (tabela c) k \<noteq> None \<or> numeroNosUtilizados c < numeroMaxNos c"

definition semente :: "cache_t \<Rightarrow> bool" where
  "semente c \<longleftrightarrow> (\<forall>i. lixo c i \<noteq> NULL)"

text \<open>What an operation on block \<open>k\<close> leaves alone.\<close>

definition segue :: "cache_t \<Rightarrow> int \<Rightarrow> cache_t \<Rightarrow> bool" where
  "segue c k c' \<longleftrightarrow>
     cache_ok c' \<and> num_blocks (disco c') = num_blocks (disco c) \<and> lixo c' = lixo c \<and>
     numeroMaxNos c' = numeroMaxNos c \<and>
     dom (mapa (tabela c')) = insert k (dom (mapa (tabela c))) \<and>
     numeroNosUtilizados c' = numeroNosUtilizados c + (if k \<in> dom (mapa (tabela c)) then 0 else 1)"

text \<open>An invalid entry is thrown away and loaded again.\<close>

lemma recarrega:
  assumes c: "cache_ok c" and z: "semente c" and m: "mapa (tabela c) k = Some a"
  shows "\<exists>c1 c2 a'. retirarDaCache c k = Inr (0, c1) \<and> carregarBlocoParaCache c1 k = Inr (a', c2) \<and>
    a' \<noteq> NULL \<and> mapa (tabela c2) k = Some a' \<and> segue c k c2 \<and> vista c2 = vista c \<and>
    (\<exists>e. ent c2 a' = Some e \<and> valido e \<and> idBloco e = k \<and> conteudobloco e = vista c k \<and> \<not> modificado e)"
proof -
  have "entrada_ok c k a" using cache_okD(4)[OF c m] .
  then have b: "bloco_valido c k" by (auto simp: entrada_ok_def bloco_valido_def)
  obtain c1 where 1: "retirarDaCache c k = Inr (0, c1)" "cache_ok c1" "vista c1 = vista c"
     "mapa (tabela c1) = (mapa (tabela c))(k := None)"
     "numeroNosUtilizados c1 = numeroNosUtilizados c - 1" "numeroMaxNos c1 = numeroMaxNos c"
     "num_blocks (disco c1) = num_blocks (disco c)" "lixo c1 = lixo c" "prox_c c1 = prox_c c"
    using retirarDaCache_vista[OF c _ m] z by (auto simp: semente_def)
  have b1: "bloco_valido c1 k" using b 1(7) by (simp add: bloco_valido_def)
  have m1: "mapa (tabela c1) k = None" using 1(4) by simp
  have cb: "numeroNosUtilizados c1 < numeroMaxNos c1" using 1 cache_okD(7)[OF c] by simp
  obtain c2 where 2: "carregarBlocoParaCache c1 k = Inr (prox_c c1, c2)" "cache_ok c2"
     "vista c2 = vista c1" "mapa (tabela c2) = (mapa (tabela c1))(k \<mapsto> prox_c c1)"
     "numeroNosUtilizados c2 = numeroNosUtilizados c1 + 1" "numeroMaxNos c2 = numeroMaxNos c1"
     "disco c2 = disco c1" "lixo c2 = lixo c1"
     "ent c2 (prox_c c1) = Some \<lparr>idBloco = k, valido = True, referenciado = True, modificado = False,
                                   tempoEmCache = 0, conteudobloco = blocks (disco c1) ! nat k\<rparr>"
    using carregarBlocoParaCache_vista[OF 1(2) m1 b1 cb] by auto
  have "vista c1 k = blocks (disco c1) ! nat k" using m1 b1 by (simp add: vista_def bloco_valido_def)
  moreover have "segue c k c2" using 1 2 m by (auto simp: segue_def)
  moreover have "prox_c c1 \<noteq> NULL" using cache_okD(8)[OF 1(2)] by simp
  ultimately show ?thesis using 1 2 by auto
qed

lemma hashGet_ausente: "cache_ok c \<Longrightarrow> bloco_valido c k \<Longrightarrow> mapa (tabela c) k = None \<Longrightarrow>
    hashGet (tabela c) k = Inr (1, NULL)"
  using hashGet_mapa[of "tabela c" k] cache_okD(1)[of c] by (simp add: bloco_valido_def)

lemma hashGet_presente: "cache_ok c \<Longrightarrow> mapa (tabela c) k = Some a \<Longrightarrow>
    hashGet (tabela c) k = Inr (0, a) \<and> a \<noteq> NULL"
  using hashGet_mapa[of "tabela c" k] cache_okD(1)[of c] cache_okD(4)[of c k a]
  by (simp add: entrada_ok_def)

lemma escreverCache_vista:
  assumes c: "cache_ok c" and z: "semente c" and b: "bloco_valido c k" and cb: "cabe c k"
    and l: "length dados = BLOCK_SIZE"
  shows "\<exists>c'. escreverCache c k dados = Inr (0, c') \<and> segue c k c' \<and> vista c' = (vista c)(k := dados)"
proof (cases "mapa (tabela c) k")
  case None
  then show ?thesis
    using novaEntradaCache_vista[OF c None b _ l, of True] cb hashGet_ausente[OF c b None]
    by (auto simp: escreverCache_def cabe_def segue_def)
next
  case (Some a)
  let ?g = "\<lambda>e. e\<lparr>conteudobloco := take BLOCK_SIZE dados, referenciado := True, modificado := True, valido := True\<rparr>"
  obtain e where e: "ent c a = Some e" "idBloco e = k"
    by (rule entrada_okD[OF cache_okD(4)[OF c Some]]) blast
  show ?thesis
  proof (cases "valido e")
    case True
    show ?thesis
      using entrada_muda[OF c Some e(1), of ?g] e l True hashGet_presente[OF c Some] Some
      by (auto simp: escreverCache_def ent_em_def segue_def)
  next
    case False
    obtain c1 c2 a' e' where r: "retirarDaCache c k = Inr (0, c1)" "carregarBlocoParaCache c1 k = Inr (a', c2)"
      "a' \<noteq> NULL" "mapa (tabela c2) k = Some a'" "segue c k c2" "vista c2 = vista c"
      "ent c2 a' = Some e'" "idBloco e' = k"
      using recarrega[OF c z Some] by blast
    have c2: "cache_ok c2" using r(5) by (simp add: segue_def)
    show ?thesis
      using entrada_muda[OF c2 r(4,7), of ?g] e l False hashGet_presente[OF c Some] r
      by (auto simp: escreverCache_def ent_em_def segue_def)
  qed
qed


lemma lerCache_vista:
  assumes c: "cache_ok c" and z: "semente c" and b: "bloco_valido c k" and cb: "cabe c k"
  shows "\<exists>c'. lerCache c k = Inr (vista c k, c') \<and> segue c k c' \<and> vista c' = vista c"
proof -
  let ?v = "valido_update (\<lambda>_. True)" and ?r = "referenciado_update (\<lambda>_. True)"
  have fim: "\<exists>c'. bindr (muda_ent ?r c2 a') (\<lambda>c. bindr (ent_em c a') (\<lambda>e. Inr (take BLOCK_SIZE (conteudobloco e), c)))
      = Inr (vista c2 k, c') \<and> segue c2 k c' \<and> vista c' = vista c2"
    if s: "cache_ok c2" and m: "mapa (tabela c2) k = Some a'" and e: "ent c2 a' = Some e" "valido e" for c2 a' e
  proof -
    have k: "idBloco e = k" "length (conteudobloco e) = BLOCK_SIZE" "0 \<le> k"
       "\<not> modificado e \<Longrightarrow> conteudobloco e = blocks (disco c2) ! nat k"
      using entrada_okD[OF cache_okD(4)[OF s m]] e by auto
    have v: "vista c2 k = conteudobloco e" using m e k(3) by (simp add: vista_def)
    show ?thesis
      using entrada_muda[OF s m e(1), of ?r] k e v m
      by (auto simp: ent_em_def segue_def fun_upd_idem)
  qed
  have valida: "\<exists>c3 e. muda_ent ?v c2 a' = Inr c3 \<and> segue c2 k c3 \<and> vista c3 = vista c2 \<and>
      mapa (tabela c3) k = Some a' \<and> ent c3 a' = Some e \<and> valido e"
    if s: "cache_ok c2" and m: "mapa (tabela c2) k = Some a'" and e: "ent c2 a' = Some e" "valido e" for c2 a' e
  proof -
    have k: "idBloco e = k" "length (conteudobloco e) = BLOCK_SIZE" "0 \<le> k"
       "\<not> modificado e \<Longrightarrow> conteudobloco e = blocks (disco c2) ! nat k"
      using entrada_okD[OF cache_okD(4)[OF s m]] e by auto
    have v: "vista c2 k = conteudobloco e" using m e k(3) by (simp add: vista_def)
    show ?thesis
      using entrada_muda[OF s m e(1), of ?v] k e v m
      by (auto simp: segue_def fun_upd_idem)
  qed
  have seg: "segue c k c3" if "segue c k c2" "segue c2 k c3" for c2 c3
    using that by (auto simp: segue_def)
  show ?thesis
  proof (cases "mapa (tabela c) k")
    case None
    obtain c2 where 2: "carregarBlocoParaCache c k = Inr (prox_c c, c2)" "cache_ok c2"
       "vista c2 = vista c" "mapa (tabela c2) k = Some (prox_c c)" "segue c k c2"
       "ent c2 (prox_c c) = Some \<lparr>idBloco = k, valido = True, referenciado = True, modificado = False,
                                     tempoEmCache = 0, conteudobloco = blocks (disco c) ! nat k\<rparr>"
      using carregarBlocoParaCache_vista[OF c None b] cb None by (auto simp: cabe_def segue_def domIff)
    obtain c3 e where 3: "muda_ent ?v c2 (prox_c c) = Inr c3" "segue c2 k c3" "vista c3 = vista c2"
        "mapa (tabela c3) k = Some (prox_c c)" "ent c3 (prox_c c) = Some e" "valido e"
      using valida[OF 2(2,4,6)] by auto
    have c3: "cache_ok c3" using 3(2) by (simp add: segue_def)
    obtain c4 where 4: "bindr (muda_ent ?r c3 (prox_c c)) (\<lambda>c'. bindr (ent_em c' (prox_c c)) (\<lambda>e. Inr (take BLOCK_SIZE (conteudobloco e), c')))
      = Inr (vista c3 k, c4)" "segue c3 k c4" "vista c4 = vista c3"
      using fim[OF c3 3(4,5,6)] by auto
    have "lerCache c k = Inr (vista c3 k, c4)"
      using hashGet_ausente[OF c b None] 2(1) 3(1,5,6) 4(1) by (simp add: lerCache_def ent_em_def)
    then show ?thesis using 2 3 4 seg by metis
  next
    case (Some a)
    obtain e where e: "ent c a = Some e" by (rule entrada_okD[OF cache_okD(4)[OF c Some]]) blast
    show ?thesis
    proof (cases "valido e")
      case True
      show ?thesis
        using fim[OF c Some e True] hashGet_presente[OF c Some] e True by (auto simp: lerCache_def ent_em_def)
    next
      case False
      obtain c1 c2 a' e' where r: "retirarDaCache c k = Inr (0, c1)" "carregarBlocoParaCache c1 k = Inr (a', c2)"
        "a' \<noteq> NULL" "mapa (tabela c2) k = Some a'" "segue c k c2" "vista c2 = vista c"
        "ent c2 a' = Some e'" "valido e'"
        using recarrega[OF c z Some] by blast
      have c2: "cache_ok c2" using r(5) by (simp add: segue_def)
      obtain c3 e3 where 3: "muda_ent ?v c2 a' = Inr c3" "segue c2 k c3" "vista c3 = vista c2"
          "mapa (tabela c3) k = Some a'" "ent c3 a' = Some e3" "valido e3"
        using valida[OF c2 r(4,7,8)] by auto
      have c3: "cache_ok c3" using 3(2) by (simp add: segue_def)
      obtain c4 where 4: "bindr (muda_ent ?r c3 a') (\<lambda>c'. bindr (ent_em c' a') (\<lambda>e. Inr (take BLOCK_SIZE (conteudobloco e), c')))
        = Inr (vista c3 k, c4)" "segue c3 k c4" "vista c4 = vista c3"
        using fim[OF c3 3(4,5,6)] by auto
      have "lerCache c k = Inr (vista c3 k, c4)"
        using hashGet_presente[OF c Some] r(1,2) e False 3(1) 4(1) by (simp add: lerCache_def ent_em_def)
      then show ?thesis using r 3 4 seg by metis
    qed
  qed
qed

text \<open>Erasing a block: its entry becomes invalid and the disk has zeros.\<close>

lemma eliminarBlocoCache_vista:
  assumes c: "cache_ok c" and b: "bloco_valido c k"
  shows "\<exists>c'. eliminarBlocoCache c k = Inr (1, c') \<and> cache_ok c' \<and>
    vista c' = (vista c)(k := zeros BLOCK_SIZE) \<and> mapa (tabela c') = mapa (tabela c) \<and>
    numeroNosUtilizados c' = numeroNosUtilizados c \<and> numeroMaxNos c' = numeroMaxNos c \<and>
    num_blocks (disco c') = num_blocks (disco c) \<and> lixo c' = lixo c"
proof -
  have grava: "cache_ok (c2\<lparr>disco := snd (block_write (disco c2) (word_of_int k) (zeros BLOCK_SIZE))\<rparr>) \<and>
      vista (c2\<lparr>disco := snd (block_write (disco c2) (word_of_int k) (zeros BLOCK_SIZE))\<rparr>) =
        (vista c2)(k := zeros BLOCK_SIZE) \<and>
      num_blocks (snd (block_write (disco c2) (word_of_int k) (zeros BLOCK_SIZE))) = num_blocks (disco c2)"
    if s: "cache_ok c2" and b2: "bloco_valido c2 k"
      and inv: "\<And>a e. mapa (tabela c2) k = Some a \<Longrightarrow> ent c2 a = Some e \<Longrightarrow> \<not> valido e" for c2
  proof -
    note ok = cache_okD[OF s]
    let ?d = "(disco c2)\<lparr>blocks := (blocks (disco c2))[nat k := zeros BLOCK_SIZE]\<rparr>"
    have w: "block_write (disco c2) (word_of_int k) (zeros BLOCK_SIZE) = (0, ?d)"
      using escreve_bloco[OF b2, of "zeros BLOCK_SIZE"] ok(3) by simp
    have k: "0 \<le> k" "nat k < length (blocks (disco c2))"
      using b2 bloco_no_disco[OF s b2] by (auto simp: bloco_valido_def)
    have "cache_ok (c2\<lparr>disco := ?d\<rparr>)"
    proof (rule cache_okI)
      fix k' a' assume m: "mapa (tabela (c2\<lparr>disco := ?d\<rparr>)) k' = Some a'"
      then have "entrada_ok c2 k' a'" using ok(4) by simp
      then show "entrada_ok (c2\<lparr>disco := ?d\<rparr>) k' a'"
        using inv m k by (cases "k' = k") (auto simp: entrada_ok_def nth_list_update)
      fix k'' assume "mapa (tabela (c2\<lparr>disco := ?d\<rparr>)) k'' = Some a'"
      then show "k' = k''" using m ok(5)[of k' a' k''] by simp
    qed (use ok in \<open>auto intro!: disco_ok_muda\<close>)
    moreover have "vista (c2\<lparr>disco := ?d\<rparr>) = (vista c2)(k := zeros BLOCK_SIZE)"
    proof
      fix k'
      show "vista (c2\<lparr>disco := ?d\<rparr>) k' = ((vista c2)(k := zeros BLOCK_SIZE)) k'"
      proof (cases "k' = k")
        case True
        have "ent c2 a \<noteq> None" if "mapa (tabela c2) k = Some a" for a
          using ok(4)[OF that] by (auto simp: entrada_ok_def)
        then show ?thesis using True inv k by (auto simp: vista_def split: option.splits)
      next
        case False
        then have "0 \<le> k' \<Longrightarrow> nat k \<noteq> nat k'" using k(1) by auto
        then show ?thesis using False by (simp add: vista_def split: option.splits)
      qed
    qed
    ultimately show ?thesis using w by simp
  qed
  show ?thesis
  proof (cases "mapa (tabela c) k")
    case None
    then show ?thesis
      using grava[OF c b] hashGet_ausente[OF c b None] by (auto simp: eliminarBlocoCache_def)
  next
    case (Some a)
    obtain e where e: "ent c a = Some e" "idBloco e = k" "length (conteudobloco e) = BLOCK_SIZE" "0 \<le> k"
      by (rule entrada_okD[OF cache_okD(4)[OF c Some]]) blast
    let ?g = "valido_update (\<lambda>_. False)"
    let ?c = "c\<lparr>ent := (ent c)(a \<mapsto> ?g e)\<rparr>"
    have 1: "muda_ent ?g c a = Inr ?c" "cache_ok ?c"
      using entrada_muda[OF c Some e(1), of ?g] e by auto
    have 2: "vista ?c = (vista c)(k := blocks (disco c) ! nat k)"
      using entrada_muda[OF c Some e(1), of ?g] e by auto
    have b2: "bloco_valido ?c k" using b by (simp add: bloco_valido_def)
    have inv: "\<not> valido e'" if "mapa (tabela ?c) k = Some a'" "ent ?c a' = Some e'" for a' e'
      using that Some by auto
    show ?thesis
      using grava[OF 1(2) b2 inv] 1(1) 2 Some hashGet_presente[OF c Some] by (simp add: eliminarBlocoCache_def)
  qed
qed

lemma criarCache_ok:
  assumes "disco_ok d" "block_size d = of_nat BLOCK_SIZE" "0 < n"
  shows "cache_ok (criarCache z n d)" "0 \<le> k \<Longrightarrow> vista (criarCache z n d) k = blocks d ! nat k"
proof -
  have "mapa (newHash n) k = None" for k by (rule newHash_ok(2))
  then show "cache_ok (criarCache z n d)" "0 \<le> k \<Longrightarrow> vista (criarCache z n d) k = blocks d ! nat k"
    using assms newHash_ok(1)[OF assms(3)]
    by (auto simp: cache_ok_def criarCache_def NULL_def vista_def newHash_def dom_def)
qed


section \<open>Eviction\<close>

text \<open>The nodes of a table are different memory.\<close>

definition nos_ok :: "HashMap \<Rightarrow> bool" where
  "nos_ok h \<longleftrightarrow> distinct (map node (concat (elems h)))"

lemma tira_no_parte:
  "distinct (map key ns) \<Longrightarrow> n \<in> set ns \<Longrightarrow> \<exists>as bs. ns = as @ n # bs \<and> tira_no (key n) ns = as @ bs"
proof (induction ns)
  case (Cons x xs)
  show ?case
  proof (cases "n = x")
    case True
    then have "x # xs = [] @ n # xs \<and> tira_no (key n) (x # xs) = [] @ xs" by (simp add: keyEquals_def)
    then show ?thesis by blast
  next
    case False
    then have nx: "n \<in> set xs" using Cons.prems by simp
    then have "key n \<in> key ` set xs" by (rule imageI)
    then have "key n \<noteq> key x" using Cons.prems(1) by auto
    moreover obtain as bs where "xs = as @ n # bs" "tira_no (key n) xs = as @ bs"
      using Cons nx by auto
    ultimately have "x # xs = (x # as) @ n # bs \<and> tira_no (key n) (x # xs) = (x # as) @ bs"
      by (simp add: keyEquals_def)
    then show ?thesis by blast
  qed
qed simp

lemma hashRemove_sem_no:
  assumes h: "hash_ok h" and d: "nos_ok h" and n: "n \<in> set (concat (elems h))"
    and r: "hashRemove h (key n) a = Inr (s, v, h')"
  shows "node n \<notin> node ` set (concat (elems h'))"
proof -
  obtain b where b: "b \<in> set (elems h)" "n \<in> set b" using n by auto
  then obtain i where i: "i < length (elems h)" "elems h ! i = b" by (auto simp: in_set_conv_nth)
  have ii: "indice h (key n) = Inr i" "0 \<le> key n" "distinct (map key b)"
    using h i b by (auto simp: hash_ok_def)
  obtain as bs where p: "b = as @ n # bs" "tira_no (key n) b = as @ bs"
    using tira_no_parte[OF ii(3) b(2)] by auto
  have "procura_no (key n) b \<noteq> None" using b(2) by (auto simp: procura_no_None)
  then have h': "elems h' = (elems h)[i := as @ bs]" using r ii(1) i p(2) by (auto simp: hashRemove_def)
  define E1 where "E1 = take i (elems h)"
  define E2 where "E2 = drop (Suc i) (elems h)"
  have "elems h = E1 @ b # E2" "elems h' = E1 @ (as @ bs) # E2"
    using i h' by (simp_all add: E1_def E2_def upd_conv_take_nth_drop) (metis id_take_nth_drop)
  then show ?thesis using d p(1) unfolding nos_ok_def by (auto simp: image_iff)
qed

text \<open>A node of the table carries the entry of its key.\<close>

lemma no_mapa:
  assumes h: "hash_ok h" and n: "n \<in> set (concat (elems h))"
  shows "mapa h (key n) = Some (val n) \<and> 0 \<le> key n"
proof -
  obtain b where b: "b \<in> set (elems h)" "n \<in> set b" using n by auto
  then obtain i where i: "i < length (elems h)" "elems h ! i = b" by (auto simp: in_set_conv_nth)
  have ii: "indice h (key n) = Inr i" "0 \<le> key n" "distinct (map key b)"
    using h i b by (auto simp: hash_ok_def)
  have "procura_no (key n) b = Some n"
    using ii(3) b(2) by (induction b) (auto simp: keyEquals_def rev_image_eqI)
  then show ?thesis using ii i by (simp add: mapa_def)
qed

text \<open>A pass that finds something to remove reads the node it has just freed.\<close>

lemma varre_para:
  assumes c: "cache_ok c" and z: "semente c" and d: "nos_ok (tabela c)" and ns: "set ns \<subseteq> set (nos c)"
  shows "varre cond c r ns = Inr (r, c) \<or> (\<exists>n \<in> set ns. varre cond c r ns = Inl (BadAddr (node n)))"
  using ns
proof (induction ns)
  case (Cons n ns)
  have n: "n \<in> set (concat (elems (tabela c)))" using Cons.prems by (simp add: nos_def)
  have m: "mapa (tabela c) (key n) = Some (val n)" using no_mapa[OF cache_okD(1)[OF c] n] by simp
  obtain e where e: "ent c (val n) = Some e" "idBloco e = key n"
    by (rule entrada_okD[OF cache_okD(4)[OF c m]]) blast
  show ?case
  proof (cases "cond e")
    case False
    then show ?thesis using Cons e by (auto simp: ent_em_def)
  next
    case True
    obtain c' where r: "retirarDaCache c (key n) = Inr (0, c')"
      using retirarDaCache_vista[OF c _ m] z by (auto simp: semente_def)
    have "\<exists>s v. hashRemove (tabela c) (key n) (lixo c (n_lixo c)) = Inr (s, v, tabela c')"
      using r by (auto simp: retirarDaCache_def le_lixo_def Let_def ent_em_def
          split: prod.splits if_splits option.splits elim!: bindr_InrE)
    then have "\<not> na_tabela c' n"
      using hashRemove_sem_no[OF cache_okD(1)[OF c] d n] by (fastforce simp: na_tabela_def)
    then show ?thesis using e r True by (simp add: ent_em_def)
  qed
qed simp

lemma libertarEspaco_inutil:
  assumes "cache_ok c" "semente c" "nos_ok (tabela c)"
  shows "(\<exists>c'. libertarEspaco c = Inr c' \<and> c' = c\<lparr>n_lixo := n_lixo c + 1\<rparr>) \<or>
    (\<exists>n \<in> set (nos c). libertarEspaco c = Inl (BadAddr (node n)))"
proof -
  define c1 where "c1 = c\<lparr>n_lixo := n_lixo c + 1\<rparr>"
  have ok: "cache_ok c1" "semente c1" "nos_ok (tabela c1)" "nos c1 = nos c"
    using assms by (auto simp: cache_ok_def entrada_ok_def semente_def nos_def c1_def)
  have v: "varre cond c1 r (nos c1) = Inr (r, c1) \<or> (\<exists>n \<in> set (nos c1). varre cond c1 r (nos c1) = Inl (BadAddr (node n)))"
    for cond r using varre_para[OF ok(1-3), of "nos c1" cond r] by simp
  have l: "libertarEspaco c =
      bindr (varre invalida c1 (lixo c (n_lixo c)) (nos c1)) (\<lambda>(r, c). if r \<noteq> 0 then Inr c else
      bindr (varre (classe False False) c 0 (nos c)) (\<lambda>(r, c). if r \<noteq> 0 then Inr c else
      bindr (varre (classe False True) c 0 (nos c)) (\<lambda>(r, c). if r \<noteq> 0 then Inr c else
      bindr (varre (classe True False) c 0 (nos c)) (\<lambda>(r, c). if r \<noteq> 0 then Inr c else
      bindr (varre (classe True True) c 0 (nos c)) (\<lambda>(r, c). Inr c)))))"
    by (simp add: libertarEspaco_def le_lixo_def c1_def)
  show ?thesis
    unfolding c1_def[symmetric] ok(4)[symmetric] l
    using v[of invalida "lixo c (n_lixo c)"] v[of "classe False False" 0] v[of "classe False True" 0]
      v[of "classe True False" 0] v[of "classe True True" 0]
    by (elim disjE) auto
qed

end
