(* ===== verification/ListaRef.thy ===== *)
theory ListaRef
  imports CPrelude "HOL-Library.Word"
begin

text \<open>
  The linked list of snfs_server/list.c.  The nodes hang from \<open>first\<close> in the order of the
  field \<open>nos\<close> and every operation keeps the two directions of the links consistent, so the
  chain is a list of nodes; \<open>size\<close> is a separate counter of the C structure and is kept
  separate here, because one branch of inserirOrdenado counts a node that it does not link.
  An access through the missing node of a chain shorter than its counter stops at NULL.
\<close>

section \<open>Lists\<close>

record 'a ListNode =
  inf :: 'a
  ordem :: "32 word"

record 'a List =
  size_l :: int
  nos_l :: "'a ListNode list"

definition newList :: "'a List" where
  "newList = \<lparr>size_l = 0, nos_l = []\<rparr>"

definition listSize :: "'a List \<Rightarrow> int" where
  "listSize l = size_l l"

text \<open>
  The insertions at the ends look at the counter, not at the pointers: with a counter of 0 the
  new node becomes the whole list.  They leave \<open>ordem\<close> as malloc returned it (\<open>z\<close>).
\<close>

definition listInsertFst :: "32 word \<Rightarrow> 'a List \<Rightarrow> 'a \<Rightarrow> (int \<times> 'a List) res" where
  "listInsertFst z l x =
     (let n = \<lparr>inf = x, ordem = z\<rparr> in
      if size_l l = 0 then Inr (0, \<lparr>size_l = 1, nos_l = [n]\<rparr>)
      else if nos_l l = [] then Inl (BadAddr NULL)
      else Inr (0, \<lparr>size_l = size_l l + 1, nos_l = n # nos_l l\<rparr>))"

definition listInsertLst :: "32 word \<Rightarrow> 'a List \<Rightarrow> 'a \<Rightarrow> (int \<times> 'a List) res" where
  "listInsertLst z l x =
     (let n = \<lparr>inf = x, ordem = z\<rparr> in
      if size_l l = 0 then Inr (0, \<lparr>size_l = 1, nos_l = [n]\<rparr>)
      else if nos_l l = [] then Inl (BadAddr NULL)
      else Inr (0, \<lparr>size_l = size_l l + 1, nos_l = nos_l l @ [n]\<rparr>))"

text \<open>
  listInsertAt walks from the nearer end.  From the end it takes \<open>size - index\<close> steps back from
  the last node and links the new node after the one it reaches, so the new node goes to
  position \<open>length - (size - index)\<close>; from the front it goes to position \<open>index\<close>.
\<close>

definition mete :: "nat \<Rightarrow> 'a \<Rightarrow> 'a list \<Rightarrow> 'a list" where
  "mete i x xs = take i xs @ x # drop i xs"

definition listInsertAt :: "32 word \<Rightarrow> 'a List \<Rightarrow> int \<Rightarrow> 'a \<Rightarrow> (int \<times> 'a List) res" where
  "listInsertAt z l index x =
     (let size = listSize l; n = \<lparr>inf = x, ordem = z\<rparr>; len = int (length (nos_l l)) in
      if index < 0 \<or> index > size then Inr (1, l)
      else if index = 0 then listInsertFst z l x
      else if index = size then listInsertLst z l x
      else if index > size div 2 then
        if size - index \<ge> len then Inl (BadAddr NULL)
        else Inr (0, l\<lparr>size_l := size_l l + 1, nos_l := mete (nat (len - (size - index))) n (nos_l l)\<rparr>)
      else if index \<ge> len then Inl (BadAddr NULL)
      else Inr (0, l\<lparr>size_l := size_l l + 1, nos_l := mete (nat index) n (nos_l l)\<rparr>))"

text \<open>
  The removals: status 1 and NULL (\<open>None\<close>) from a list whose counter is 0.  With more than one
  node counted, the node after the first (before the last) is dereferenced.
\<close>

definition listRemoveFst :: "'a List \<Rightarrow> (int \<times> 'a option \<times> 'a List) res" where
  "listRemoveFst l =
     (if size_l l = 0 then Inr (1, None, l)
      else case nos_l l of
        [] \<Rightarrow> Inl (BadAddr NULL)
      | n # ns \<Rightarrow>
          if size_l l = 1 then Inr (0, Some (inf n), \<lparr>size_l = 0, nos_l = []\<rparr>)
          else if ns = [] then Inl (BadAddr NULL)
          else Inr (0, Some (inf n), \<lparr>size_l = size_l l - 1, nos_l = ns\<rparr>))"

definition listRemoveLst :: "'a List \<Rightarrow> (int \<times> 'a option \<times> 'a List) res" where
  "listRemoveLst l =
     (if size_l l = 0 then Inr (1, None, l)
      else if nos_l l = [] then Inl (BadAddr NULL)
      else if size_l l = 1 then Inr (0, Some (inf (last (nos_l l))), \<lparr>size_l = 0, nos_l = []\<rparr>)
      else if length (nos_l l) = 1 then Inl (BadAddr NULL)
      else Inr (0, Some (inf (last (nos_l l))), \<lparr>size_l = size_l l - 1, nos_l = butlast (nos_l l)\<rparr>))"

text \<open>\<open>pos_l\<close> is the node listRemoveAt and listAt reach, by its position from the front.\<close>

definition pos_l :: "'a List \<Rightarrow> int \<Rightarrow> nat res" where
  "pos_l l index =
     (let len = int (length (nos_l l));
          p = (if index > size_l l div 2 then len - 1 - (size_l l - index - 1) else index)
      in if 0 \<le> p \<and> p < len then Inr (nat p) else Inl (BadAddr NULL))"

definition tira :: "nat \<Rightarrow> 'a list \<Rightarrow> 'a list" where
  "tira i xs = take i xs @ drop (Suc i) xs"

definition listRemoveAt :: "'a List \<Rightarrow> int \<Rightarrow> (int \<times> 'a option \<times> 'a List) res" where
  "listRemoveAt l index =
     (let size = listSize l in
      if index < 0 \<or> index > size - 1 then Inr (1, None, l)
      else if index = 0 then listRemoveFst l
      else if index = size - 1 then listRemoveLst l
      else bindr (pos_l l index) (\<lambda>p.
        if p = 0 \<or> p = length (nos_l l) - 1 then Inl (BadAddr NULL)
        else Inr (0, Some (inf (nos_l l ! p)), l\<lparr>size_l := size_l l - 1, nos_l := tira p (nos_l l)\<rparr>)))"

definition listFst :: "'a List \<Rightarrow> (int \<times> 'a option) res" where
  "listFst l =
     (if size_l l = 0 then Inr (1, None)
      else case nos_l l of [] \<Rightarrow> Inl (BadAddr NULL) | n # _ \<Rightarrow> Inr (0, Some (inf n)))"

definition listLst :: "'a List \<Rightarrow> (int \<times> 'a option) res" where
  "listLst l =
     (if size_l l = 0 then Inr (1, None)
      else if nos_l l = [] then Inl (BadAddr NULL) else Inr (0, Some (inf (last (nos_l l)))))"

definition listAt :: "'a List \<Rightarrow> int \<Rightarrow> (int \<times> 'a option) res" where
  "listAt l index =
     (if index < 0 \<or> index > listSize l - 1 then Inr (1, None)
      else bindr (pos_l l index) (\<lambda>p. Inr (0, Some (inf (nos_l l ! p)))))"

text \<open>listDelete frees every node of the chain; it fails on a missing one.\<close>

definition listDelete :: "'a List \<Rightarrow> nat res" where
  "listDelete l =
     (if size_l l = 0 then Inr 0
      else if nos_l l = [] then Inl (BadAddr NULL) else Inr (length (nos_l l)))"

section \<open>Ordered insertion\<close>

text \<open>
  The parameter \<open>ordem\<close> is an unsigned short.  The counter is increased before the place is
  looked for: when the first node that is not smaller is the head itself, the code returns -1
  with the new node counted and not linked.
\<close>

definition inserirOrdenado :: "'a List \<Rightarrow> 'a \<Rightarrow> 16 word \<Rightarrow> (int \<times> 'a List) res" where
  "inserirOrdenado l x ord =
     (let n = \<lparr>inf = x, ordem = ucast ord\<rparr>; ns = nos_l l in
      if size_l l = 0 then Inr (0, \<lparr>size_l = 1, nos_l = [n]\<rparr>)
      else if ns = [] then Inl (BadAddr NULL)
      else
        let l = l\<lparr>size_l := size_l l + 1\<rparr> in
        if ordem (hd ns) > ordem n then Inr (0, l\<lparr>nos_l := n # ns\<rparr>)
        else if ordem (last ns) < ordem n then Inr (0, l\<lparr>nos_l := ns @ [n]\<rparr>)
        else
          let antes = takeWhile (\<lambda>m. ordem m < ordem n) ns;
              resto = dropWhile (\<lambda>m. ordem m < ordem n) ns
          in if resto = [] \<or> antes = [] then Inr (-1, l)
             else Inr (0, l\<lparr>nos_l := antes @ n # resto\<rparr>))"

section \<open>Lemmas\<close>

text \<open>A list whose counter is right, and one that is sorted.\<close>

definition lista_ok :: "'a List \<Rightarrow> bool" where
  "lista_ok l \<longleftrightarrow> size_l l = int (length (nos_l l))"

definition ordenada :: "'a List \<Rightarrow> bool" where
  "ordenada l \<longleftrightarrow> sorted (map ordem (nos_l l))"

lemma newList_ok: "lista_ok newList" "ordenada newList"
  by (simp_all add: lista_ok_def ordenada_def newList_def)

lemma listRemoveFst_ok:
  "lista_ok l \<Longrightarrow> nos_l l = n # ns \<Longrightarrow>
   \<exists>l'. listRemoveFst l = Inr (0, Some (inf n), l') \<and> nos_l l' = ns \<and> lista_ok l'"
  by (auto simp: lista_ok_def listRemoveFst_def)

lemma listAt_ok:
  "lista_ok l \<Longrightarrow> 0 \<le> i \<Longrightarrow> i < listSize l \<Longrightarrow> listAt l i = Inr (0, Some (inf (nos_l l ! nat i)))"
  by (auto simp: lista_ok_def listAt_def pos_l_def listSize_def Let_def)

lemma listInsertAt_ok:
  assumes "lista_ok l" "0 \<le> i" "i \<le> listSize l"
  shows "\<exists>l'. listInsertAt z l i x = Inr (0, l') \<and> lista_ok l' \<and>
    nos_l l' = mete (nat i) \<lparr>inf = x, ordem = z\<rparr> (nos_l l)"
  using assms
  by (auto simp: lista_ok_def listInsertAt_def listInsertFst_def listInsertLst_def listSize_def
      mete_def Let_def)

lemma listRemoveAt_ok:
  assumes "lista_ok l" "0 \<le> i" "i < listSize l"
  shows "\<exists>l'. listRemoveAt l i = Inr (0, Some (inf (nos_l l ! nat i)), l') \<and> lista_ok l' \<and>
    nos_l l' = tira (nat i) (nos_l l)"
proof -
  let ?ns = "nos_l l"
  consider "i = 0" | "i \<noteq> 0" "i = listSize l - 1" | "0 < i" "i < listSize l - 1" using assms by linarith
  then show ?thesis
  proof cases
    case 1
    then obtain n ns where "?ns = n # ns" using assms by (cases ?ns) (auto simp: lista_ok_def listSize_def)
    then show ?thesis
      using 1 assms listRemoveFst_ok[of l n ns]
      by (auto simp: listRemoveAt_def listSize_def tira_def lista_ok_def)
  next
    case 2
    then have e: "int (length ?ns) = i + 1" "size_l l = int (length ?ns)"
      using assms by (simp_all add: lista_ok_def listSize_def)
    then have "length ?ns = Suc (nat i)" "length ?ns \<noteq> 1" using assms(2) 2(1) by linarith+
    then have n: "length ?ns = Suc (nat i)" "?ns \<noteq> []" "length ?ns \<noteq> 1" "size_l l = int (length ?ns)"
      using e by auto
    have "tira (nat i) ?ns = butlast ?ns" using n by (simp add: tira_def butlast_conv_take)
    moreover have "last ?ns = ?ns ! nat i" using n by (simp add: last_conv_nth)
    moreover have "listRemoveAt l i = listRemoveLst l"
      using 2 assms(2) by (simp add: listRemoveAt_def Let_def)
    moreover have "listRemoveLst l =
        Inr (0, Some (inf (last ?ns)), \<lparr>size_l = size_l l - 1, nos_l = butlast ?ns\<rparr>)"
      using n(2-4) by (simp add: listRemoveLst_def)
    ultimately show ?thesis using n(1,2,4) by (simp add: lista_ok_def)
  next
    case 3
    have n: "size_l l = int (length ?ns)" using assms by (simp add: lista_ok_def)
    have "pos_l l i = Inr (nat i)" using 3 n by (auto simp: pos_l_def listSize_def Let_def)
    moreover have "length (tira (nat i) ?ns) = length ?ns - 1"
      using 3 n by (auto simp: tira_def listSize_def)
    ultimately show ?thesis
      using 3 n by (auto simp: listRemoveAt_def listSize_def lista_ok_def)
  qed
qed

lemma insere_entre:
  assumes "r = Inr (0, l\<lparr>size_l := size_l l + 1, nos_l := as @ n # bs\<rparr>)" "nos_l l = as @ bs"
    "lista_ok l" "sorted (map ordem (as @ n # bs))"
  shows "\<exists>l'. r = Inr (0, l') \<and> lista_ok l' \<and> ordenada l' \<and>
    (\<exists>as bs. nos_l l = as @ bs \<and> nos_l l' = as @ n # bs)"
proof (intro exI conjI)
  show "r = Inr (0, l\<lparr>size_l := size_l l + 1, nos_l := as @ n # bs\<rparr>)" by (fact assms)
qed (use assms in \<open>auto simp: lista_ok_def ordenada_def\<close>)

text \<open>
  Ordered insertion keeps the order, and keeps the counter unless the order number is that of
  the head.
\<close>

lemma inserirOrdenado_ok:
  assumes "lista_ok l" "ordenada l" "nos_l l \<noteq> [] \<Longrightarrow> ordem (hd (nos_l l)) \<noteq> ucast k"
  shows "\<exists>l'. inserirOrdenado l x k = Inr (0, l') \<and> lista_ok l' \<and> ordenada l' \<and>
    (\<exists>as bs. nos_l l = as @ bs \<and> nos_l l' = as @ \<lparr>inf = x, ordem = ucast k\<rparr> # bs)"
proof (cases "nos_l l")
  case Nil
  then show ?thesis using assms by (simp add: inserirOrdenado_def lista_ok_def ordenada_def)
next
  case (Cons m ms)
  let ?n = "\<lparr>inf = x, ordem = ucast k :: 32 word\<rparr>" and ?ns = "nos_l l"
  let ?p = "\<lambda>m. ordem m < ordem ?n"
  have s: "sorted (map ordem ?ns)" using assms by (simp add: ordenada_def)
  have ne: "size_l l \<noteq> 0" "?ns \<noteq> []" using Cons assms by (auto simp: lista_ok_def)
  consider (a) "ordem (hd ?ns) > ordem ?n" | (b) "\<not> ordem (hd ?ns) > ordem ?n" "ordem (last ?ns) < ordem ?n"
    | (c) "\<not> ordem (hd ?ns) > ordem ?n" "\<not> ordem (last ?ns) < ordem ?n" by blast
  then show ?thesis
  proof cases
    case a
    then have "inserirOrdenado l x k = Inr (0, l\<lparr>size_l := size_l l + 1, nos_l := ?n # ?ns\<rparr>)"
      using ne by (simp add: inserirOrdenado_def Let_def)
    moreover have "sorted (map ordem (?n # ?ns))"
      using a s Cons by (auto intro: order.trans[OF less_imp_le])
    ultimately show ?thesis
      using assms(1) by (intro insere_entre[where as = "[]" and bs = ?ns]) simp_all
  next
    case b
    then have "inserirOrdenado l x k = Inr (0, l\<lparr>size_l := size_l l + 1, nos_l := ?ns @ [?n]\<rparr>)"
      using ne by (simp add: inserirOrdenado_def Let_def)
    moreover have "\<forall>m \<in> set ?ns. ordem m \<le> ordem (last ?ns)"
      using s ne(2) by (cases ?ns rule: rev_cases) (auto simp: sorted_append)
    then have "sorted (map ordem (?ns @ [?n]))"
      using b s by (auto simp: sorted_append)
    ultimately show ?thesis
      using assms(1) by (intro insere_entre[where as = ?ns and bs = "[]"]) simp_all
  next
    case c
    let ?A = "takeWhile ?p ?ns" and ?B = "dropWhile ?p ?ns"
    have h: "?p (hd ?ns)" using c(1) assms(3) ne(2) by auto
    have AB: "?A \<noteq> []" using h Cons by simp
    have "last ?ns \<in> set ?ns" using ne by simp
    then have B: "?B \<noteq> []" using c(2) by (auto simp: dropWhile_eq_Nil_conv)
    have r: "inserirOrdenado l x k = Inr (0, l\<lparr>size_l := size_l l + 1, nos_l := ?A @ ?n # ?B\<rparr>)"
      using ne c AB B by (simp add: inserirOrdenado_def Let_def)
    have "map ordem ?ns = map ordem ?A @ map ordem ?B"
      by (metis map_append takeWhile_dropWhile_id)
    then have sAB: "sorted (map ordem ?A)" "sorted (map ordem ?B)"
      using s by (simp_all add: sorted_append)
    have "\<forall>m \<in> set ?A. ordem m < ordem ?n" by (auto dest: set_takeWhileD)
    moreover have "\<forall>m \<in> set ?B. ordem ?n \<le> ordem m"
    proof -
      obtain b bs where "?B = b # bs" using B by (cases ?B) auto
      then show ?thesis using sAB(2) hd_dropWhile[of ?p ?ns] B
        by (auto simp: not_less intro: order.trans)
    qed
    ultimately have "sorted (map ordem (?A @ ?n # ?B))"
      using sAB by (auto simp: sorted_append less_imp_le intro: order.trans[OF less_imp_le])
    then show ?thesis
      using assms(1) r by (intro insere_entre[where as = ?A and bs = ?B]) simp_all
  qed
qed

text \<open>Inserting the order number of the head counts a node that is not in the list.\<close>

lemma inserirOrdenado_perde:
  assumes "lista_ok l" "nos_l l \<noteq> []" "ordem (hd (nos_l l)) = ucast k" "ordenada l"
  shows "inserirOrdenado l x k = Inr (-1, l\<lparr>size_l := size_l l + 1\<rparr>)"
proof -
  obtain m ms where m: "nos_l l = m # ms" using assms by (cases "nos_l l") auto
  have "ordem m \<le> ordem (last (m # ms))" using assms(4) m by (cases ms) (auto simp: ordenada_def)
  then show ?thesis using assms m by (auto simp: inserirOrdenado_def Let_def lista_ok_def not_less)
qed

end
