(* ===== verification/FsDados.thy ===== *)
theory FsDados
  imports Cache ListaRef
begin

text \<open>
  The data of the file system of snfs_server/fs.c and its internal functions: inodes,
  bitmaps, directory pages, the metadata on disk, the readers/writers protocol, and the
  reference counts with copy-on-write.

  Sizes and block numbers are unsigned 32-bit words; the cache takes the block number as a
  signed int.  An index outside a table of the structure stops with \<open>OutOfRange\<close>; a wait for a
  condition stops with \<open>Blocked\<close> (the sequential model has nobody to change it; the
  interleaved protocol is in Sincronizacao).  Local buffers are not initialised: their contents
  come from an arbitrary sequence \<open>pilha\<close>, one element per buffer.  Pointer arguments are
  values here, so the tests against NULL do not appear.
\<close>

section \<open>Constants\<close>

definition INODE_NUM_BLKS :: nat where "INODE_NUM_BLKS = 10"
definition ITAB_NUM_BLKS :: nat where "ITAB_NUM_BLKS = 8"
definition ITAB_SIZE :: nat where "ITAB_SIZE = 64"
definition DIR_PAGE_ENTRIES :: nat where "DIR_PAGE_ENTRIES = 32"
definition FS_MAX_FNAME_SZ :: nat where "FS_MAX_FNAME_SZ = 14"
definition MAX_PATH_NAME_SIZE :: nat where "MAX_PATH_NAME_SIZE = 200"
definition DIM_CACHE :: nat where "DIM_CACHE = 8"
definition NUM_BLOCOS_MAX :: nat where "NUM_BLOCOS_MAX = INODE_NUM_BLKS * ITAB_SIZE"

type_synonym inodeid_t = "16 word"
type_synonym nome = "byte list"

text \<open>The type of an inode is an enumeration; 0 is what fs_remove leaves in a freed inode.\<close>

type_synonym fs_itype_t = "32 word"

definition FS_DIR :: fs_itype_t where "FS_DIR = 1"
definition FS_FILE :: fs_itype_t where "FS_FILE = 2"

definition LEITURA :: int where "LEITURA = 0"
definition ESCRITA :: int where "ESCRITA = 1"

section \<open>The structures\<close>

record fs_inode =
  itype :: fs_itype_t
  isize :: "32 word"
  iblocks :: "32 word list"
  reserved :: "32 word list"

text \<open>
  \<open>fs->blocks\<close> and \<open>fs->cache->disco\<close> are the same pointer, so the disk is \<open>disco (cache fs)\<close>.
  \<open>defrag_state\<close> is the static variable of fs_defrag.
\<close>

record fs_t =
  cache :: cache_t
  referencias :: "8 word list"
  inode_bmap :: "byte list"
  blk_bmap :: "byte list"
  inode_tab :: "fs_inode list"
  leitores :: int
  escritores :: int
  wanna_leitor :: int
  wanna_escritor :: int
  turno :: int
  defrag_state :: int
  pilha :: "nat \<Rightarrow> bloco"
  n_pilha :: nat

definition bks :: "fs_t \<Rightarrow> blocks_t" where
  "bks fs = disco (cache fs)"

definition poe_bks :: "fs_t \<Rightarrow> blocks_t \<Rightarrow> fs_t" where
  "poe_bks fs d = fs\<lparr>cache := (cache fs)\<lparr>disco := d\<rparr>\<rparr>"

definition novo_buf :: "fs_t \<Rightarrow> bloco \<times> fs_t" where
  "novo_buf fs = (pilha fs (n_pilha fs), fs\<lparr>n_pilha := n_pilha fs + 1\<rparr>)"

section \<open>Inodes in memory and on disk\<close>

definition inode_bytes :: "fs_inode \<Rightarrow> byte list" where
  "inode_bytes i = le32 (itype i) @ le32 (isize i) @ concat (map le32 (iblocks i)) @ concat (map le32 (reserved i))"

definition le_words :: "nat \<Rightarrow> byte list \<Rightarrow> 32 word list" where
  "le_words n bs = map (\<lambda>j. un32 (drop (4 * j) bs)) [0..<n]"

definition inode_de :: "byte list \<Rightarrow> fs_inode" where
  "inode_de bs =
     \<lparr>itype = un32 bs, isize = un32 (drop 4 bs), iblocks = le_words INODE_NUM_BLKS (drop 8 bs),
      reserved = le_words 4 (drop 48 bs)\<rparr>"

definition inode_ok :: "fs_inode \<Rightarrow> bool" where
  "inode_ok i \<longleftrightarrow> length (iblocks i) = INODE_NUM_BLKS \<and> length (reserved i) = 4"

definition fsi_inode_init :: "fs_inode \<Rightarrow> fs_itype_t \<Rightarrow> fs_inode" where
  "fsi_inode_init i t =
     i\<lparr>itype := t, isize := 0, iblocks := replicate INODE_NUM_BLKS 0, reserved := replicate 4 0\<rparr>"

text \<open>The part of the inode table that block \<open>i + 2\<close> holds: eight inodes of 64 bytes.\<close>

definition fatia_tab :: "fs_inode list \<Rightarrow> nat \<Rightarrow> bloco" where
  "fatia_tab tab i = concat (map inode_bytes (take 8 (drop (8 * i) tab)))"

definition poe_fatia :: "fs_inode list \<Rightarrow> nat \<Rightarrow> bloco \<Rightarrow> fs_inode list" where
  "poe_fatia tab i b =
     take (8 * i) tab @ map (\<lambda>j. inode_de (drop (64 * j) b)) [0..<8] @ drop (8 * i + 8) tab"

text \<open>A read of the disk into a buffer; on error the buffer keeps its content.\<close>

definition le_disco :: "blocks_t \<Rightarrow> 32 word \<Rightarrow> bloco \<Rightarrow> bloco" where
  "le_disco d no buf = (case block_read d no of (_, Some b) \<Rightarrow> b | (_, None) \<Rightarrow> buf)"

definition carrega_fatia :: "blocks_t \<Rightarrow> fs_inode list \<Rightarrow> nat \<Rightarrow> fs_inode list" where
  "carrega_fatia d tab i =
     (case block_read d (of_nat (i + 2)) of
        (_, Some b) \<Rightarrow> poe_fatia tab i b
      | (_, None) \<Rightarrow> tab)"

definition fsi_load_fsdata :: "fs_t \<Rightarrow> fs_t" where
  "fsi_load_fsdata fs =
     fs\<lparr>blk_bmap := le_disco (bks fs) 0 (blk_bmap fs),
        inode_bmap := le_disco (bks fs) 1 (inode_bmap fs),
        inode_tab := foldl (carrega_fatia (bks fs)) (inode_tab fs) [0..<ITAB_NUM_BLKS]\<rparr>"

definition grava_fatia :: "fs_inode list \<Rightarrow> blocks_t \<Rightarrow> nat \<Rightarrow> blocks_t" where
  "grava_fatia tab d i = snd (block_write d (of_nat (i + 2)) (fatia_tab tab i))"

definition fsi_store_fsdata :: "fs_t \<Rightarrow> fs_t" where
  "fsi_store_fsdata fs =
     poe_bks fs
       (foldl (grava_fatia (inode_tab fs))
          (snd (block_write (snd (block_write (bks fs) 0 (blk_bmap fs))) 1 (inode_bmap fs)))
          [0..<ITAB_NUM_BLKS])"

section \<open>Bitmaps\<close>

definition BMAP_SET :: "byte list \<Rightarrow> nat \<Rightarrow> byte list res" where
  "BMAP_SET bm n =
     bindr (le_pos bm (n div 8)) (\<lambda>b. poe_pos bm (n div 8) (b OR push_bit (n mod 8) 1))"

definition BMAP_CLR :: "byte list \<Rightarrow> nat \<Rightarrow> byte list res" where
  "BMAP_CLR bm n =
     bindr (le_pos bm (n div 8)) (\<lambda>b. poe_pos bm (n div 8) (b AND NOT (push_bit (n mod 8) 1)))"

definition BMAP_ISSET :: "byte list \<Rightarrow> nat \<Rightarrow> bool res" where
  "BMAP_ISSET bm n =
     bindr (le_pos bm (n div 8)) (\<lambda>b. Inr (b AND push_bit (n mod 8) 1 \<noteq> 0))"

text \<open>The first clear bit from \<open>i\<close>, among the first \<open>i + n\<close>; \<open>None\<close> is the return value 0.\<close>

fun acha_livre :: "byte list \<Rightarrow> nat \<Rightarrow> nat \<Rightarrow> nat option res" where
  "acha_livre bm i 0 = Inr None"
| "acha_livre bm i (Suc n) =
     bindr (BMAP_ISSET bm i) (\<lambda>s. if \<not> s then Inr (Some i) else acha_livre bm (i + 1) n)"

definition fsi_bmap_find_free :: "byte list \<Rightarrow> nat \<Rightarrow> nat option res" where
  "fsi_bmap_find_free bm n = acha_livre bm 0 n"

definition limpa_bmap :: "byte list \<Rightarrow> byte list res" where
  "limpa_bmap bm = foldl (\<lambda>r i. bindr r (\<lambda>bm. BMAP_CLR bm i)) (Inr bm) [0..<BLOCK_SIZE * 8]"

text \<open>fsi_dump_bmap prints the bytes, with a line break after every 32 of them.\<close>

definition fsi_dump_bmap :: "byte list \<Rightarrow> nat \<Rightarrow> (byte \<times> bool) list res" where
  "fsi_dump_bmap bm n =
     (if n \<le> length bm then Inr (map (\<lambda>i. (bm ! i, i > 0 \<and> i mod 32 = 0)) [0..<n])
      else Inl (OutOfRange (length bm)))"

text \<open>Marking a block of the file system as used or free.\<close>

definition ocupa_blk :: "fs_t \<Rightarrow> nat \<Rightarrow> fs_t res" where
  "ocupa_blk fs n = bindr (BMAP_SET (blk_bmap fs) n) (\<lambda>bm. Inr (fs\<lparr>blk_bmap := bm\<rparr>))"

definition livra_blk :: "fs_t \<Rightarrow> nat \<Rightarrow> fs_t res" where
  "livra_blk fs n = bindr (BMAP_CLR (blk_bmap fs) n) (\<lambda>bm. Inr (fs\<lparr>blk_bmap := bm\<rparr>))"

definition blk_livre :: "fs_t \<Rightarrow> nat option res" where
  "blk_livre fs = fsi_bmap_find_free (blk_bmap fs) (unat (block_num_blocks (bks fs)))"

text \<open>The number of blocks a file of this size takes.\<close>

definition OFFSET_TO_BLOCKS :: "32 word \<Rightarrow> nat" where
  "OFFSET_TO_BLOCKS pos = unat (pos div 512) + (if pos mod 512 > 0 then 1 else 0)"

section \<open>Access to the inode table\<close>

definition inode_em :: "fs_t \<Rightarrow> nat \<Rightarrow> fs_inode res" where
  "inode_em fs n = le_pos (inode_tab fs) n"

definition poe_inode :: "fs_t \<Rightarrow> nat \<Rightarrow> fs_inode \<Rightarrow> fs_t res" where
  "poe_inode fs n i = bindr (poe_pos (inode_tab fs) n i) (\<lambda>t. Inr (fs\<lparr>inode_tab := t\<rparr>))"

definition poe_iblock :: "fs_t \<Rightarrow> nat \<Rightarrow> nat \<Rightarrow> 32 word \<Rightarrow> fs_t res" where
  "poe_iblock fs n k b =
     bindr (inode_em fs n) (\<lambda>i.
     bindr (poe_pos (iblocks i) k b) (\<lambda>bl. poe_inode fs n (i\<lparr>iblocks := bl\<rparr>)))"

section \<open>Reading and writing blocks\<close>

text \<open>The cache takes an int.\<close>

definition ler_c :: "fs_t \<Rightarrow> 32 word \<Rightarrow> (bloco \<times> fs_t) res" where
  "ler_c fs b = bindr (lerCache (cache fs) (sint b)) (\<lambda>(x, c). Inr (x, fs\<lparr>cache := c\<rparr>))"

definition escrever_c :: "fs_t \<Rightarrow> 32 word \<Rightarrow> bloco \<Rightarrow> fs_t res" where
  "escrever_c fs b x = bindr (escreverCache (cache fs) (sint b) x) (\<lambda>(_, c). Inr (fs\<lparr>cache := c\<rparr>))"

definition escrever_d :: "fs_t \<Rightarrow> 32 word \<Rightarrow> bloco \<Rightarrow> fs_t" where
  "escrever_d fs b x = poe_bks fs (snd (block_write (bks fs) b x))"

text \<open>
  The choice the code repeats: a file is read through the cache, a directory from the disk;
  writes test one of the two types.
\<close>

definition ler_tipo :: "fs_t \<Rightarrow> fs_itype_t \<Rightarrow> 32 word \<Rightarrow> bloco \<Rightarrow> (bloco \<times> fs_t) res" where
  "ler_tipo fs t b buf =
     (if t = FS_FILE then ler_c fs b else Inr (le_disco (bks fs) b buf, fs))"

section \<open>Directory pages\<close>

text \<open>Strings end at the first zero byte.\<close>

definition cstr :: "byte list \<Rightarrow> nome" where
  "cstr bs = takeWhile (\<lambda>x. x \<noteq> 0) bs"

definition dnome :: "bloco \<Rightarrow> nat \<Rightarrow> nome" where
  "dnome p i = cstr (drop (16 * i) p)"

definition dinode :: "bloco \<Rightarrow> nat \<Rightarrow> inodeid_t" where
  "dinode p i = ucast (p ! (16 * i + 14)) OR push_bit 8 (ucast (p ! (16 * i + 15)))"

definition poe_bytes :: "bloco \<Rightarrow> nat \<Rightarrow> byte list \<Rightarrow> bloco" where
  "poe_bytes p k bs = take k p @ bs @ drop (k + length bs) p"

definition poe_dnome :: "bloco \<Rightarrow> nat \<Rightarrow> nome \<Rightarrow> bloco" where
  "poe_dnome p i s = poe_bytes p (16 * i) (s @ [0])"

definition poe_dinode :: "bloco \<Rightarrow> nat \<Rightarrow> inodeid_t \<Rightarrow> bloco" where
  "poe_dinode p i w = poe_bytes p (16 * i + 14) [ucast w, ucast (drop_bit 8 w)]"

text \<open>
  fsi_dir_search: page by page, the first entry with the name.  \<open>num\<close> entries remain.
\<close>

fun procura_dir :: "fs_t \<Rightarrow> fs_inode \<Rightarrow> nome \<Rightarrow> nat \<Rightarrow> nat \<Rightarrow> bloco \<Rightarrow> (inodeid_t option \<times> fs_t) res" where
  "procura_dir fs idir file iblock num page =
     (if num = 0 then Inr (None, fs)
      else
        bindr (le_pos (iblocks idir) iblock) (\<lambda>b.
        bindr (ler_tipo fs (itype idir) b page) (\<lambda>(page, fs).
        case find (\<lambda>i. dnome page i = file) [0..<min DIR_PAGE_ENTRIES num] of
          Some i \<Rightarrow> Inr (Some (dinode page i), fs)
        | None \<Rightarrow>
            if num \<le> DIR_PAGE_ENTRIES then Inr (None, fs)
            else procura_dir fs idir file (iblock + 1) (num - 32) page)))"

declare procura_dir.simps [simp del]

definition num_dentrys :: "fs_inode \<Rightarrow> nat" where
  "num_dentrys i = unat (isize i div 16)"

definition fsi_dir_search :: "fs_t \<Rightarrow> nat \<Rightarrow> nome \<Rightarrow> (int \<times> inodeid_t option \<times> fs_t) res" where
  "fsi_dir_search fs dir file =
     (let (page, fs) = novo_buf fs in
      bindr (inode_em fs dir) (\<lambda>idir.
      bindr (procura_dir fs idir file 0 (num_dentrys idir) page) (\<lambda>(r, fs).
      Inr (if r = None then -1 else 0, r, fs))))"

section \<open>Readers and writers\<close>

definition iniciaLeitura :: "fs_t \<Rightarrow> fs_t res" where
  "iniciaLeitura fs =
     (let fs = fs\<lparr>wanna_leitor := wanna_leitor fs + 1\<rparr> in
      if escritores fs \<noteq> 0 \<or> turno fs \<noteq> LEITURA \<and> wanna_escritor fs > 0 then Inl Blocked
      else
        let fs = fs\<lparr>wanna_leitor := wanna_leitor fs - 1, leitores := leitores fs + 1\<rparr> in
        Inr (if wanna_leitor fs \<noteq> 0 then fs else fs\<lparr>turno := ESCRITA\<rparr>))"

definition terminaLeitura :: "fs_t \<Rightarrow> fs_t" where
  "terminaLeitura fs = fs\<lparr>leitores := leitores fs - 1\<rparr>"

definition iniciaEscrita :: "fs_t \<Rightarrow> fs_t res" where
  "iniciaEscrita fs =
     (let fs = fs\<lparr>wanna_escritor := wanna_escritor fs + 1\<rparr> in
      if escritores fs \<noteq> 0 \<or> leitores fs \<noteq> 0 then Inl Blocked
      else Inr (fs\<lparr>wanna_escritor := wanna_escritor fs - 1, escritores := escritores fs + 1\<rparr>))"

definition terminaEscrita :: "fs_t \<Rightarrow> fs_t" where
  "terminaEscrita fs = fs\<lparr>escritores := escritores fs - 1, turno := LEITURA\<rparr>"

section \<open>References and copy-on-write\<close>

text \<open>The counters are \<open>char\<close>: 8 bits, signed.\<close>

definition muda_ref :: "fs_t \<Rightarrow> nat \<Rightarrow> (8 word \<Rightarrow> 8 word) \<Rightarrow> fs_t res" where
  "muda_ref fs b g =
     bindr (le_pos (referencias fs) b) (\<lambda>n.
     bindr (poe_pos (referencias fs) b (g n)) (\<lambda>r. Inr (fs\<lparr>referencias := r\<rparr>)))"

definition eliminar_c :: "fs_t \<Rightarrow> 32 word \<Rightarrow> fs_t res" where
  "eliminar_c fs b = bindr (eliminarBlocoCache (cache fs) (sint b)) (\<lambda>(_, c). Inr (fs\<lparr>cache := c\<rparr>))"

definition apagarBloco :: "fs_t \<Rightarrow> 32 word \<Rightarrow> nat \<Rightarrow> (int \<times> fs_t) res" where
  "apagarBloco fs b inode =
     bindr (le_pos (referencias fs) (unat b)) (\<lambda>n.
     if sint n > 1 then bindr (muda_ref fs (unat b) (\<lambda>n. n - 1)) (\<lambda>fs. Inr (2, fs))
     else
       bindr (muda_ref fs (unat b) (\<lambda>_. 0)) (\<lambda>fs.
       bindr (inode_em fs inode) (\<lambda>i.
       bindr (if itype i = FS_DIR then Inr (escrever_d fs b (zeros BLOCK_SIZE)) else eliminar_c fs b) (\<lambda>fs.
       bindr (livra_blk fs (unat b)) (\<lambda>fs. Inr (0, fs))))))"

text \<open>The first entry of the inode that refers to the block.\<close>

fun indice_bloco :: "32 word list \<Rightarrow> 32 word \<Rightarrow> nat \<Rightarrow> nat option" where
  "indice_bloco [] b k = None"
| "indice_bloco (x # xs) b k = (if x = b then Some k else indice_bloco xs b (k + 1))"

definition copy_on_write :: "fs_t \<Rightarrow> 32 word \<Rightarrow> nat \<Rightarrow> (int \<times> fs_t) res" where
  "copy_on_write fs b idFile =
     bindr (le_pos (referencias fs) (unat b)) (\<lambda>n.
     if n = 0 then Inr (-2, fs)
     else if n = 1 then Inr (-1, fs)
     else
       let (block, fs) = novo_buf fs in
       bindr (inode_em fs idFile) (\<lambda>i.
       bindr (ler_tipo fs (itype i) b block) (\<lambda>(block, fs).
       bindr (blk_livre fs) (\<lambda>l.
       case l of
         None \<Rightarrow> Inr (-1, fs)
       | Some novo \<Rightarrow>
           bindr (ocupa_blk fs novo) (\<lambda>fs.
           case indice_bloco (iblocks i) b 0 of
             None \<Rightarrow> Inr (-1, fs)
           | Some k \<Rightarrow>
               bindr (poe_iblock fs idFile k (of_nat novo)) (\<lambda>fs.
               bindr (muda_ref fs novo (\<lambda>n. n + 1)) (\<lambda>fs.
               bindr (muda_ref fs (unat b) (\<lambda>n. n - 1)) (\<lambda>fs.
               bindr (if itype i = FS_FILE then escrever_c fs (of_nat novo) block
                      else Inr (escrever_d fs (of_nat novo) block)) (\<lambda>fs.
               Inr (int novo, fs))))))))))"

definition escreverBloco :: "fs_t \<Rightarrow> 32 word \<Rightarrow> nat \<Rightarrow> bloco \<Rightarrow> fs_t res" where
  "escreverBloco fs b idFile dados =
     bindr (copy_on_write fs b idFile) (\<lambda>(novoBloco, fs).
     bindr (inode_em fs idFile) (\<lambda>i.
     let alvo = (if novoBloco \<ge> 0 then word_of_int novoBloco else b) in
     if itype i = FS_DIR then Inr (escrever_d fs alvo dados)
     else escrever_c fs alvo dados))"

end
