(* ===== verification/FsOps.thy ===== *)
theory FsOps
  imports FsDados
begin

text \<open>
  The interface operations of snfs_server/fs.c on one file or directory: fs_new, fs_format,
  fs_get_attrs, fs_lookup, fs_read, fs_write, fs_create, fs_mkdir, fs_readdir and fs_remove.
  Each returns the status of the C function, the values it stores through its out parameters
  (\<open>None\<close> where it stores nothing) and the file system.
\<close>

section \<open>Creating and formatting a file system\<close>

text \<open>
  \<open>bruto\<close> is the memory malloc returns for the structure; the fields fs_new does not assign
  (\<open>turno\<close>) keep what it holds.  \<open>z\<close> is the garbage of the cache.  The last parameter says
  whether the ageing thread could be created.
\<close>

definition fs_new :: "fs_t \<Rightarrow> (nat \<Rightarrow> nat) \<Rightarrow> 32 word \<Rightarrow> bool \<Rightarrow> fs_t res" where
  "fs_new bruto z n criada =
     (case block_new n (of_nat BLOCK_SIZE) of
        None \<Rightarrow> Inl (BadAddr NULL)
      | Some d \<Rightarrow>
          let fs = fsi_load_fsdata
                (bruto\<lparr>cache := criarCache z DIM_CACHE d, referencias := replicate (unat n) 0,
                  leitores := 0, escritores := 0, wanna_escritor := 0, wanna_leitor := 0,
                  defrag_state := 0\<rparr>)
          in if criada then Inr fs else Inl (Exited (-1)))"

definition apaga_disco :: "blocks_t \<Rightarrow> blocks_t" where
  "apaga_disco d = foldl (\<lambda>d i. snd (block_write d (of_nat i) (zeros BLOCK_SIZE))) d
                     [0..<unat (block_num_blocks d)]"

definition reserva_meta :: "byte list \<Rightarrow> byte list res" where
  "reserva_meta bm =
     bindr (BMAP_SET bm 0) (\<lambda>bm. bindr (BMAP_SET bm 1) (\<lambda>bm.
     foldl (\<lambda>r i. bindr r (\<lambda>bm. BMAP_SET bm (i + 2))) (Inr bm) [0..<ITAB_NUM_BLKS]))"

definition fs_format :: "fs_t \<Rightarrow> (int \<times> fs_t) res" where
  "fs_format fs =
     bindr (iniciaEscrita fs) (\<lambda>fs.
     let fs = poe_bks fs (apaga_disco (bks fs));
         fs = fs\<lparr>referencias := replicate (unat (block_num_blocks (bks fs))) 0\<rparr> in
     bindr (limpa_bmap (blk_bmap fs)) (\<lambda>bb.
     bindr (limpa_bmap (inode_bmap fs)) (\<lambda>ib.
     bindr (reserva_meta bb) (\<lambda>bb.
     bindr (BMAP_SET ib 0) (\<lambda>ib.
     bindr (BMAP_SET ib 1) (\<lambda>ib.
     let fs = fs\<lparr>blk_bmap := bb, inode_bmap := ib\<rparr> in
     bindr (inode_em fs 1) (\<lambda>raiz.
     bindr (poe_inode fs 1 (fsi_inode_init raiz FS_DIR)) (\<lambda>fs.
     Inr (0, terminaEscrita (fsi_store_fsdata fs))))))))))"

section \<open>Attributes and lookup\<close>

record fs_file_attrs =
  inodeid :: inodeid_t
  atype :: fs_itype_t
  asize :: "32 word"
  num_entries :: int

definition fs_get_attrs :: "fs_t \<Rightarrow> inodeid_t \<Rightarrow> (int \<times> fs_file_attrs option) res" where
  "fs_get_attrs fs file =
     (if unat file \<ge> ITAB_SIZE then Inr (-1, None)
      else
        bindr (BMAP_ISSET (inode_bmap fs) (unat file)) (\<lambda>u.
        if \<not> u then Inr (-1, None)
        else
          bindr (inode_em fs (unat file)) (\<lambda>i.
          let a = \<lparr>inodeid = file, atype = itype i, asize = isize i, num_entries = 0\<rparr> in
          if itype i = FS_DIR then Inr (0, Some (a\<lparr>num_entries := int (num_dentrys i)\<rparr>))
          else if itype i = FS_FILE then Inr (0, Some (a\<lparr>num_entries := -1\<rparr>))
          else Inl (Exited (-1)))))"

text \<open>strtok with the separator "/": the maximal pieces without it.\<close>

definition BARRA :: byte where
  "BARRA = 47"

fun tokens_aux :: "nome \<Rightarrow> nome \<Rightarrow> nome list" where
  "tokens_aux ac [] = (if ac = [] then [] else [ac])"
| "tokens_aux ac (c # s) =
     (if c = BARRA then (if ac = [] then tokens_aux [] s else ac # tokens_aux [] s)
      else tokens_aux (ac @ [c]) s)"

definition tokens :: "nome \<Rightarrow> nome list" where
  "tokens s = tokens_aux [] s"

fun lookup_aux :: "fs_t \<Rightarrow> nome list \<Rightarrow> nat \<Rightarrow> inodeid_t option \<Rightarrow> (int \<times> inodeid_t option \<times> fs_t) res" where
  "lookup_aux fs [] dir fileid = Inr (1, fileid, terminaLeitura fs)"
| "lookup_aux fs (token # ts) dir fileid =
     bindr (BMAP_ISSET (inode_bmap fs) dir) (\<lambda>u.
     if \<not> u then Inr (-1, fileid, terminaLeitura fs)
     else
       bindr (inode_em fs dir) (\<lambda>idir.
       if itype idir \<noteq> FS_DIR then Inr (-1, fileid, terminaLeitura fs)
       else
         bindr (fsi_dir_search fs dir token) (\<lambda>(st, fid, fs).
         case fid of
           None \<Rightarrow> Inr (0, fileid, terminaLeitura fs)
         | Some f \<Rightarrow> lookup_aux fs ts (unat f) (Some f))))"

text \<open>The status is 1 when every part of the path was found and 0 when one was not.\<close>

definition fs_lookup :: "fs_t \<Rightarrow> nome \<Rightarrow> (int \<times> inodeid_t option \<times> fs_t) res" where
  "fs_lookup fs file =
     (if take 1 file \<noteq> [BARRA] then Inr (-1, None, fs)
      else if length file \<ge> MAX_PATH_NAME_SIZE then Inl (OutOfRange MAX_PATH_NAME_SIZE)
      else bindr (iniciaLeitura fs) (\<lambda>fs. lookup_aux fs (tokens file) 1 None))"

section \<open>Reading\<close>

text \<open>
  The loop of fs_read.  \<open>tbl\<close> is the variable tbl_pos: past the last entry of the table it
  keeps its value, and at first it has none.
\<close>

function read_aux :: "fs_t \<Rightarrow> fs_inode \<Rightarrow> nat \<Rightarrow> int \<Rightarrow> nat \<Rightarrow> nat \<Rightarrow> nat option \<Rightarrow> bloco \<Rightarrow> byte list \<Rightarrow> (byte list \<times> fs_t) res" where
  "read_aux fs ifile off maxi iblock used tbl block ac =
     (if int (length ac) < maxi \<and> iblock < used then
        case (if iblock < INODE_NUM_BLKS then Some iblock else tbl) of
          None \<Rightarrow> Inl (OutOfRange iblock)
        | Some t \<Rightarrow>
            bindr (le_pos (iblocks ifile) t) (\<lambda>b.
            bindr (ler_tipo fs (itype ifile) b block) (\<lambda>(block, fs).
            let start = (if ac = [] then off mod BLOCK_SIZE else 0);
                num = min (BLOCK_SIZE - start) (nat (maxi - int (length ac)))
            in read_aux fs ifile off maxi (iblock + 1) used (Some t) block (ac @ take num (drop start block))))
      else Inr (ac, fs))"
  by auto
termination by (relation "measure (\<lambda>(_, _, _, _, iblock, used, _). used - iblock)") auto

declare read_aux.simps [simp del]

text \<open>\<open>pos < max\<close> compares ints; the number of bytes is first cut to the end of the file.\<close>

definition fs_read :: "fs_t \<Rightarrow> inodeid_t \<Rightarrow> 32 word \<Rightarrow> 32 word \<Rightarrow> (int \<times> byte list option \<times> fs_t) res" where
  "fs_read fs file offset count =
     (if unat file \<ge> ITAB_SIZE then Inr (-1, None, fs)
      else
        bindr (iniciaLeitura fs) (\<lambda>fs.
        bindr (BMAP_ISSET (inode_bmap fs) (unat file)) (\<lambda>u.
        if \<not> u then Inr (-1, None, terminaLeitura fs)
        else
          bindr (inode_em fs (unat file)) (\<lambda>ifile.
          if itype ifile \<noteq> FS_FILE then Inr (-1, None, terminaLeitura fs)
          else if offset \<ge> isize ifile then Inr (0, Some [], terminaLeitura fs)
          else
            let (block, fs) = novo_buf fs in
            bindr (read_aux fs ifile (unat offset) (sint (min count (isize ifile - offset)))
                     (unat (offset div 512)) (OFFSET_TO_BLOCKS (isize ifile)) None block [])
              (\<lambda>(dados, fs). Inr (0, Some dados, terminaLeitura fs))))))"

section \<open>Writing\<close>

text \<open>Reserving the blocks a longer file needs; \<open>False\<close> when the disk has no free block.\<close>

fun reserva :: "fs_t \<Rightarrow> nat \<Rightarrow> nat \<Rightarrow> nat \<Rightarrow> (bool \<times> fs_t) res" where
  "reserva fs file i 0 = Inr (True, fs)"
| "reserva fs file i (Suc n) =
     bindr (blk_livre fs) (\<lambda>l.
     case l of
       None \<Rightarrow> Inr (False, fs)
     | Some b \<Rightarrow>
         bindr (poe_iblock fs file i (of_nat b)) (\<lambda>fs.
         bindr (ocupa_blk fs b) (\<lambda>fs.
         bindr (muda_ref fs b (\<lambda>n. n + 1)) (\<lambda>fs.
         reserva fs file (i + 1) n))))"

text \<open>The copy loop \<open>for (i = start; i < BLOCK_SIZE && num < count; i++, num++)\<close>.\<close>

definition enche :: "bloco \<Rightarrow> nat \<Rightarrow> byte list \<Rightarrow> nat \<Rightarrow> nat \<Rightarrow> (bloco \<times> nat) res" where
  "enche block start buffer num count =
     (let n = min (BLOCK_SIZE - start) (count - num) in
      if num + n \<le> length buffer then Inr (poe_bytes block start (take n (drop num buffer)), num + n)
      else Inl (OutOfRange (length buffer)))"

text \<open>
  The two writing loops: \<open>dentro\<close> is true in the first, which reads the block it changes and
  starts at the offset inside it.
\<close>

function escreve_aux :: "bool \<Rightarrow> fs_t \<Rightarrow> nat \<Rightarrow> nat \<Rightarrow> byte list \<Rightarrow> nat \<Rightarrow> nat \<Rightarrow> nat \<Rightarrow> nat option \<Rightarrow> bloco \<Rightarrow> nat
    \<Rightarrow> (fs_t \<times> nat \<times> nat option \<times> bloco \<times> nat) res" where
  "escreve_aux dentro fs file off buffer count iblock lim pos block num =
     (if num < count \<and> iblock < lim then
        case (if iblock < INODE_NUM_BLKS then Some iblock else pos) of
          None \<Rightarrow> Inl (OutOfRange iblock)
        | Some p \<Rightarrow>
            bindr (inode_em fs file) (\<lambda>ifile.
            bindr (le_pos (iblocks ifile) p) (\<lambda>b.
            bindr (if dentro then ler_tipo fs (itype ifile) b block else Inr (block, fs)) (\<lambda>(block, fs).
            bindr (enche block (if dentro \<and> num = 0 then off mod BLOCK_SIZE else 0) buffer num count) (\<lambda>(block, num).
            bindr (if itype ifile = FS_FILE then escreverBloco fs b file block
                   else Inr (escrever_d fs b block)) (\<lambda>fs.
            escreve_aux dentro fs file off buffer count (iblock + 1) lim (Some p) block num)))))
      else Inr (fs, iblock, pos, block, num))"
  by auto
termination
  by (relation "measure (\<lambda>(_, _, _, _, _, _, iblock, lim, _). lim - iblock)") auto

declare escreve_aux.simps [simp del]

definition fs_write :: "fs_t \<Rightarrow> inodeid_t \<Rightarrow> 32 word \<Rightarrow> 32 word \<Rightarrow> byte list \<Rightarrow> (int \<times> fs_t) res" where
  "fs_write fs file offset count buffer =
     (if unat file \<ge> ITAB_SIZE then Inr (-1, fs)
      else
        bindr (iniciaEscrita fs) (\<lambda>fs.
        bindr (BMAP_ISSET (inode_bmap fs) (unat file)) (\<lambda>u.
        if \<not> u then Inr (-1, terminaEscrita fs)
        else
          bindr (inode_em fs (unat file)) (\<lambda>ifile.
          if itype ifile \<noteq> FS_FILE then Inr (-1, terminaEscrita fs)
          else
            let offset = (if offset > isize ifile then isize ifile else offset);
                used = OFFSET_TO_BLOCKS (isize ifile);
                req = max (OFFSET_TO_BLOCKS (offset + count)) used - used
            in if req > 0 \<and> int req > int INODE_NUM_BLKS - int used then Inr (-1, terminaEscrita fs)
            else
              bindr (reserva fs (unat file) used req) (\<lambda>(ok, fs).
              if \<not> ok then Inr (-1, terminaEscrita fs)
              else
                let (block, fs) = novo_buf fs in
                bindr (escreve_aux True fs (unat file) (unat offset) buffer (unat count)
                         (unat (offset div 512)) used None block 0) (\<lambda>(fs, iblock, pos, block, num).
                bindr (escreve_aux False fs (unat file) (unat offset) buffer (unat count)
                         iblock (used + req) pos block num) (\<lambda>(fs, iblock, pos, block, num).
                if num \<noteq> unat count then Inl (Exited (-1))
                else
                  bindr (inode_em fs (unat file)) (\<lambda>ifile.
                  bindr (poe_inode fs (unat file) (ifile\<lparr>isize := max (offset + count) (isize ifile)\<rparr>)) (\<lambda>fs.
                  Inr (0, terminaEscrita (fsi_store_fsdata fs))))))))))) "

section \<open>Creating files and directories\<close>

text \<open>
  The part fs_create and fs_mkdir share, from the search of the name on; \<open>t\<close> is the type of
  the new inode.  A new page is added to the directory when its size is a multiple of the
  block size.
\<close>

definition nova_pagina :: "fs_t \<Rightarrow> nat \<Rightarrow> (bool \<times> fs_t) res" where
  "nova_pagina fs dir =
     bindr (inode_em fs dir) (\<lambda>idir.
     if isize idir mod 512 = 0 then
       bindr (blk_livre fs) (\<lambda>l.
       case l of
         None \<Rightarrow> Inr (False, fs)
       | Some b \<Rightarrow>
           bindr (ocupa_blk fs b) (\<lambda>fs.
           bindr (poe_iblock fs dir (unat (isize idir div 512)) (of_nat b)) (\<lambda>fs.
           Inr (True, fs))))
     else Inr (True, fs))"

definition acrescenta :: "fs_t \<Rightarrow> nat \<Rightarrow> nome \<Rightarrow> nat \<Rightarrow> fs_t res" where
  "acrescenta fs dir file finode =
     (let (page, fs) = novo_buf fs in
      bindr (inode_em fs dir) (\<lambda>idir.
      bindr (le_pos (iblocks idir) (unat (isize idir div 512))) (\<lambda>b.
      bindr (ler_tipo fs (itype idir) b page) (\<lambda>(page, fs).
      let e = unat (isize idir mod 512 div 16);
          page = poe_dinode (poe_dnome page e file) e (of_nat finode) in
      bindr (if itype idir = FS_FILE then escreverBloco fs b dir page
             else Inr (escrever_d fs b page)) (\<lambda>fs.
      bindr (inode_em fs dir) (\<lambda>idir.
      poe_inode fs dir (idir\<lparr>isize := isize idir + 16\<rparr>)))))))"

definition cria_entrada :: "fs_t \<Rightarrow> nat \<Rightarrow> nome \<Rightarrow> fs_itype_t \<Rightarrow> (int \<times> inodeid_t option \<times> fs_t) res" where
  "cria_entrada fs dir file t =
     bindr (inode_em fs dir) (\<lambda>idir.
     if itype idir \<noteq> FS_DIR then Inr (-1, None, terminaEscrita fs)
     else
       bindr (fsi_dir_search fs dir file) (\<lambda>(st, fid, fs).
       if st = 0 then Inr (-1, fid, terminaEscrita fs)
       else
         bindr (fsi_bmap_find_free (inode_bmap fs) ITAB_SIZE) (\<lambda>l.
         case l of
           None \<Rightarrow> Inr (-1, None, terminaEscrita fs)
         | Some finode \<Rightarrow>
             bindr (nova_pagina fs dir) (\<lambda>(ok, fs).
             if \<not> ok then Inr (-1, None, terminaEscrita fs)
             else
               bindr (acrescenta fs dir file finode) (\<lambda>fs.
               bindr (BMAP_SET (inode_bmap fs) finode) (\<lambda>ib.
               let fs = fs\<lparr>inode_bmap := ib\<rparr> in
               bindr (inode_em fs finode) (\<lambda>i.
               bindr (poe_inode fs finode (fsi_inode_init i t)) (\<lambda>fs.
               Inr (0, Some (of_nat finode), terminaEscrita (fsi_store_fsdata fs))))))))))"

definition nome_mau :: "nome \<Rightarrow> bool" where
  "nome_mau file \<longleftrightarrow> length file = 0 \<or> length file + 1 > FS_MAX_FNAME_SZ"

definition fs_create :: "fs_t \<Rightarrow> inodeid_t \<Rightarrow> nome \<Rightarrow> (int \<times> inodeid_t option \<times> fs_t) res" where
  "fs_create fs dir file =
     (if unat dir \<ge> ITAB_SIZE then Inr (-1, None, fs)
      else if nome_mau file then Inr (-1, None, fs)
      else
        bindr (iniciaEscrita fs) (\<lambda>fs.
        bindr (BMAP_ISSET (inode_bmap fs) (unat dir)) (\<lambda>u.
        if \<not> u then Inr (-1, None, terminaEscrita fs)
        else cria_entrada fs (unat dir) file FS_FILE)))"

text \<open>fs_mkdir leaves the writers' section open when the inode of \<open>dir\<close> is not in use.\<close>

definition fs_mkdir :: "fs_t \<Rightarrow> inodeid_t \<Rightarrow> nome \<Rightarrow> (int \<times> inodeid_t option \<times> fs_t) res" where
  "fs_mkdir fs dir newdir =
     (if unat dir \<ge> ITAB_SIZE then Inr (-1, None, fs)
      else if nome_mau newdir then Inr (-1, None, fs)
      else
        bindr (iniciaEscrita fs) (\<lambda>fs.
        bindr (BMAP_ISSET (inode_bmap fs) (unat dir)) (\<lambda>u.
        if \<not> u then Inr (-1, None, fs)
        else cria_entrada fs (unat dir) newdir FS_DIR)))"

section \<open>Listing a directory\<close>

type_synonym fs_file_name = "nome \<times> fs_itype_t"

definition entrada_dir :: "fs_t \<Rightarrow> bloco \<Rightarrow> nat \<Rightarrow> fs_file_name res" where
  "entrada_dir fs page i =
     (if length (dnome page i) \<ge> FS_MAX_FNAME_SZ then Inl (OutOfRange FS_MAX_FNAME_SZ)
      else bindr (inode_em fs (unat (dinode page i))) (\<lambda>n. Inr (dnome page i, itype n)))"

fun mapr :: "('a \<Rightarrow> 'b res) \<Rightarrow> 'a list \<Rightarrow> 'b list res" where
  "mapr f [] = Inr []"
| "mapr f (x # xs) = bindr (f x) (\<lambda>y. bindr (mapr f xs) (\<lambda>ys. Inr (y # ys)))"

fun readdir_aux :: "fs_t \<Rightarrow> fs_inode \<Rightarrow> nat \<Rightarrow> nat \<Rightarrow> bloco \<Rightarrow> (fs_file_name list \<times> fs_t) res" where
  "readdir_aux fs idir iblock num page =
     (if num = 0 then Inr ([], fs)
      else
        bindr (le_pos (iblocks idir) iblock) (\<lambda>b.
        bindr (ler_tipo fs (itype idir) b page) (\<lambda>(page, fs).
        bindr (mapr (entrada_dir fs page) [0..<min DIR_PAGE_ENTRIES num]) (\<lambda>es.
        bindr (if num \<le> DIR_PAGE_ENTRIES then Inr ([], fs)
               else readdir_aux fs idir (iblock + 1) (num - 32) page) (\<lambda>(es', fs).
        Inr (es @ es', fs))))))"

declare readdir_aux.simps [simp del]

definition fs_readdir :: "fs_t \<Rightarrow> inodeid_t \<Rightarrow> int \<Rightarrow> (int \<times> fs_file_name list option \<times> fs_t) res" where
  "fs_readdir fs dir maxentries =
     (if unat dir \<ge> ITAB_SIZE \<or> maxentries < 0 then Inr (-1, None, fs)
      else
        bindr (iniciaLeitura fs) (\<lambda>fs.
        bindr (BMAP_ISSET (inode_bmap fs) (unat dir)) (\<lambda>u.
        if \<not> u then Inr (-1, None, terminaLeitura fs)
        else
          bindr (inode_em fs (unat dir)) (\<lambda>idir.
          if itype idir \<noteq> FS_DIR then Inr (-1, None, terminaLeitura fs)
          else
            let (page, fs) = novo_buf fs in
            bindr (readdir_aux fs idir 0 (min (num_dentrys idir) (nat maxentries)) page) (\<lambda>(es, fs).
            Inr (0, Some es, terminaLeitura fs))))))"

end
