(* ===== verification/FsCopia.thy ===== *)
theory FsCopia
  imports FsOps
begin

text \<open>
  The operations of snfs_server/fs.c that move references to blocks: fs_remove, fs_copy,
  fs_append, fs_defrag, and fs_diskUsage, which walks the tree of directories.
\<close>

section \<open>Removing a file\<close>

text \<open>
  Freeing the blocks of the file.  The result is false when a block number below 10 (as an int)
  is met; the blocks before it are already freed.
\<close>

fun apaga_blocos :: "fs_t \<Rightarrow> nat \<Rightarrow> nat \<Rightarrow> nat \<Rightarrow> (bool \<times> fs_t) res" where
  "apaga_blocos fs file i 0 = Inr (True, fs)"
| "apaga_blocos fs file i (Suc n) =
     bindr (inode_em fs file) (\<lambda>ifile.
     bindr (le_pos (iblocks ifile) i) (\<lambda>b.
     if sint b < 10 then Inr (False, fs)
     else
       bindr (apagarBloco fs b file) (\<lambda>(_, fs).
       bindr (poe_iblock fs file i 0) (\<lambda>fs.
       apaga_blocos fs file (i + 1) n))))"

text \<open>
  The search of the entry in the pages of the directory: the page that has it and the last
  index in that page with the name (the inner loop does not stop).
\<close>

fun procura_ult :: "fs_t \<Rightarrow> fs_inode \<Rightarrow> nome \<Rightarrow> nat \<Rightarrow> nat \<Rightarrow> bloco \<Rightarrow> ((nat \<times> nat \<times> bloco) option \<times> fs_t) res" where
  "procura_ult fs idir file iblock num page =
     (if num = 0 then Inr (None, fs)
      else
        bindr (le_pos (iblocks idir) iblock) (\<lambda>b.
        bindr (ler_tipo fs (itype idir) b page) (\<lambda>(page, fs).
        case find (\<lambda>i. dnome page i = file) (rev [0..<min DIR_PAGE_ENTRIES num]) of
          Some i \<Rightarrow> Inr (Some (iblock + 1, i, page), fs)
        | None \<Rightarrow>
            if num \<le> DIR_PAGE_ENTRIES then Inr (None, fs)
            else procura_ult fs idir file (iblock + 1) (num - 32) page)))"

declare procura_ult.simps [simp del]

text \<open>
  Replacing the entry by the last one.  \<open>contidos\<close> is the local page the entry is replaced in;
  the code writes back only the page of the last entry, so \<open>contidos\<close> is lost.
\<close>

definition tira_entrada :: "fs_t \<Rightarrow> nat \<Rightarrow> nome \<Rightarrow> (bool \<times> fs_t) res" where
  "tira_entrada fs dir file =
     (let (page, fs) = novo_buf fs in
      bindr (inode_em fs dir) (\<lambda>idir.
      let num = num_dentrys idir in
      if num = 1 then
        bindr (le_pos (iblocks idir) 0) (\<lambda>b.
        bindr (apagarBloco fs b dir) (\<lambda>(_, fs).
        bindr (poe_iblock fs dir 0 0) (\<lambda>fs. Inr (True, fs))))
      else
        bindr (procura_ult fs idir file 0 num page) (\<lambda>(r, fs).
        case r of
          None \<Rightarrow> Inr (False, fs)
        | Some (iblock, entrada, contidos) \<Rightarrow>
            let ultimoBloco = num div DIR_PAGE_ENTRIES;
                ult = (if ultimoBloco = 0 then num - 1 else (num - 1) mod (ultimoBloco * DIR_PAGE_ENTRIES)) in
            if \<not> (ultimoBloco = 0 \<and> ult = 0) then
              let (ultPag, fs) = novo_buf fs in
              bindr (le_pos (iblocks idir) ultimoBloco) (\<lambda>b.
              bindr (ler_tipo fs (itype idir) b ultPag) (\<lambda>(ultPag, fs).
              if DIR_PAGE_ENTRIES \<le> ult then Inl (OutOfRange ult)
              else
                let contidos = poe_dinode (poe_dnome contidos entrada (dnome ultPag ult)) entrada (dinode ultPag ult) in
                if ult = 0 then
                  bindr (apagarBloco fs b dir) (\<lambda>(_, fs).
                  bindr (poe_iblock fs dir ultimoBloco 0) (\<lambda>fs. Inr (True, fs)))
                else
                  bindr (escreverBloco fs b dir (poe_dinode (poe_dnome ultPag ult []) ult (-1))) (\<lambda>fs.
                  Inr (True, fs))))
            else
              bindr (le_pos (iblocks idir) iblock) (\<lambda>b.
              bindr (apagarBloco fs b dir) (\<lambda>(_, fs). Inr (True, fs))))))"

text \<open>What fs_remove does once the file is known to be there and removable.\<close>

definition remove_aux :: "fs_t \<Rightarrow> nat \<Rightarrow> nome \<Rightarrow> inodeid_t \<Rightarrow> (int \<times> inodeid_t option \<times> fs_t) res" where
  "remove_aux fs dir file idFile =
     bindr (inode_em fs (unat idFile)) (\<lambda>ifile.
     if itype ifile = FS_DIR \<and> isize ifile \<noteq> 0 then Inr (-1, None, terminaEscrita fs)
     else
       bindr (apaga_blocos fs (unat idFile) 0 (OFFSET_TO_BLOCKS (isize ifile))) (\<lambda>(ok, fs).
       if \<not> ok then Inr (-1, None, terminaEscrita fs)
       else
         bindr (tira_entrada fs dir file) (\<lambda>(ok, fs).
         if \<not> ok then Inr (-1, None, terminaEscrita fs)
         else
           bindr (inode_em fs dir) (\<lambda>idir.
           bindr (poe_inode fs dir (idir\<lparr>isize := isize idir - 16\<rparr>)) (\<lambda>fs.
           bindr (inode_em fs (unat idFile)) (\<lambda>ifile.
           bindr (poe_inode fs (unat idFile) (fsi_inode_init ifile 0)) (\<lambda>fs.
           bindr (BMAP_CLR (inode_bmap fs) (unat idFile)) (\<lambda>ib.
           Inr (0, Some idFile, terminaEscrita (fsi_store_fsdata (fs\<lparr>inode_bmap := ib\<rparr>)))))))))))"

definition fs_remove :: "fs_t \<Rightarrow> inodeid_t \<Rightarrow> nome \<Rightarrow> (int \<times> inodeid_t option \<times> fs_t) res" where
  "fs_remove fs dir file =
     (if unat dir \<ge> ITAB_SIZE then Inr (-1, None, fs)
      else if nome_mau file then Inr (-1, None, fs)
      else
        bindr (iniciaEscrita fs) (\<lambda>fs.
        bindr (BMAP_ISSET (inode_bmap fs) (unat dir)) (\<lambda>u.
        if \<not> u then Inr (-1, None, terminaEscrita fs)
        else
          bindr (inode_em fs (unat dir)) (\<lambda>idir.
          if itype idir \<noteq> FS_DIR then Inr (-1, None, terminaEscrita fs)
          else
            bindr (fsi_dir_search fs (unat dir) file) (\<lambda>(st, fid, fs).
            case fid of
              None \<Rightarrow> Inr (-1, None, terminaEscrita fs)
            | Some f \<Rightarrow> remove_aux fs (unat dir) file f)))))"

section \<open>Copying a file\<close>

text \<open>
  The checks on the origin and on the directory of the destination that fs_copy and fs_append
  share.  \<open>None\<close> is the error return, after the writers' section was closed.  The number of the
  destination directory is not checked against the table.
\<close>

definition verifica_dir :: "fs_t \<Rightarrow> nat \<Rightarrow> bool res" where
  "verifica_dir fs d =
     bindr (BMAP_ISSET (inode_bmap fs) d) (\<lambda>u.
     if \<not> u then Inr False else bindr (inode_em fs d) (\<lambda>i. Inr (itype i = FS_DIR)))"

definition verifica_copia :: "fs_t \<Rightarrow> inodeid_t \<Rightarrow> nome \<Rightarrow> inodeid_t \<Rightarrow> nome \<Rightarrow> (inodeid_t option \<times> fs_t) res" where
  "verifica_copia fs dirO nomeO dirD nomeD =
     bindr (verifica_dir fs (unat dirO)) (\<lambda>ok.
     if \<not> ok then Inr (None, terminaEscrita fs)
     else
       bindr (fsi_dir_search fs (unat dirO) nomeO) (\<lambda>(st, fid, fs).
       case fid of
         None \<Rightarrow> Inr (None, terminaEscrita fs)
       | Some idO \<Rightarrow>
           bindr (inode_em fs (unat idO)) (\<lambda>iO.
           if itype iO \<noteq> FS_FILE then Inr (None, terminaEscrita fs)
           else if nome_mau nomeD then Inr (None, terminaEscrita fs)
           else
             bindr (verifica_dir fs (unat dirD)) (\<lambda>ok.
             if \<not> ok then Inr (None, terminaEscrita fs) else Inr (Some idO, fs)))))"

text \<open>
  The destination: an existing file, or a new one made by fs_create outside the writers'
  section.  When fs_create fails, the section is closed a second time.
\<close>

definition destino_copia :: "fs_t \<Rightarrow> inodeid_t \<Rightarrow> nome \<Rightarrow> (inodeid_t option \<times> fs_t) res" where
  "destino_copia fs dirD nomeD =
     bindr (fsi_dir_search fs (unat dirD) nomeD) (\<lambda>(st, fid, fs).
     case fid of
       Some idD \<Rightarrow> Inr (Some idD, fs)
     | None \<Rightarrow>
         let fs = terminaEscrita fs in
         bindr (fs_create fs dirD nomeD) (\<lambda>(st, fid, fs).
         if st = -1 then Inr (None, terminaEscrita fs)
         else
           bindr (iniciaEscrita fs) (\<lambda>fs.
           bindr (fsi_dir_search fs (unat dirD) nomeD) (\<lambda>(st, fid, fs).
           case fid of
             None \<Rightarrow> Inr (None, terminaEscrita fs)
           | Some idD \<Rightarrow> Inr (Some idD, fs)))))"

fun apaga_destino :: "fs_t \<Rightarrow> nat \<Rightarrow> nat \<Rightarrow> nat \<Rightarrow> fs_t res" where
  "apaga_destino fs file k 0 = Inr fs"
| "apaga_destino fs file k (Suc n) =
     bindr (inode_em fs file) (\<lambda>i.
     bindr (le_pos (iblocks i) k) (\<lambda>b.
     bindr (apagarBloco fs b file) (\<lambda>(_, fs). apaga_destino fs file (k + 1) n)))"

text \<open>Entry \<open>de + i\<close> of the inode \<open>para\<close> becomes entry \<open>i\<close> of \<open>orig\<close>, for \<open>n\<close> entries.\<close>

fun copia_refs :: "fs_t \<Rightarrow> nat \<Rightarrow> nat \<Rightarrow> nat \<Rightarrow> nat \<Rightarrow> nat \<Rightarrow> fs_t res" where
  "copia_refs fs orig para de i 0 = Inr fs"
| "copia_refs fs orig para de i (Suc n) =
     bindr (inode_em fs orig) (\<lambda>o1.
     bindr (le_pos (iblocks o1) i) (\<lambda>b.
     bindr (poe_iblock fs para (de + i) b) (\<lambda>fs.
     bindr (muda_ref fs (unat b) (\<lambda>n. n + 1)) (\<lambda>fs.
     copia_refs fs orig para de (i + 1) n))))"

definition copia_ficheiro :: "fs_t \<Rightarrow> nat \<Rightarrow> nat \<Rightarrow> (int \<times> fs_t) res" where
  "copia_ficheiro fs idO idD =
     bindr (inode_em fs idD) (\<lambda>iD.
     if itype iD \<noteq> FS_FILE then Inr (-1, terminaEscrita fs)
     else
       bindr (apaga_destino fs idD 0 (OFFSET_TO_BLOCKS (isize iD))) (\<lambda>fs.
       bindr (inode_em fs idO) (\<lambda>iO.
       bindr (copia_refs fs idO idD 0 0 (OFFSET_TO_BLOCKS (isize iO))) (\<lambda>fs.
       bindr (inode_em fs idD) (\<lambda>iD.
       bindr (poe_inode fs idD (iD\<lparr>isize := isize iO\<rparr>)) (\<lambda>fs.
       Inr (0, terminaEscrita fs)))))))"

text \<open>fs_copy stores nothing through its out parameter.\<close>

definition fs_copy :: "fs_t \<Rightarrow> inodeid_t \<Rightarrow> nome \<Rightarrow> inodeid_t \<Rightarrow> nome \<Rightarrow> (int \<times> fs_t) res" where
  "fs_copy fs dirO nomeO dirD nomeD =
     (if unat dirO \<ge> ITAB_SIZE then Inr (-1, fs)
      else if nome_mau nomeO then Inr (-1, fs)
      else
        bindr (iniciaEscrita fs) (\<lambda>fs.
        bindr (verifica_copia fs dirO nomeO dirD nomeD) (\<lambda>(r, fs).
        case r of
          None \<Rightarrow> Inr (-1, fs)
        | Some idO \<Rightarrow>
            bindr (destino_copia fs dirD nomeD) (\<lambda>(r, fs).
            case r of
              None \<Rightarrow> Inr (-1, fs)
            | Some idD \<Rightarrow> copia_ficheiro fs (unat idO) (unat idD)))))"

section \<open>Appending a file to another\<close>

text \<open>
  The blocks of the second file are appended to the table of the first, whatever the first one
  has in its last block.  The second result is the new size; the type of the second file is
  not tested (the code tests the first one again).
\<close>

definition fs_append :: "fs_t \<Rightarrow> inodeid_t \<Rightarrow> nome \<Rightarrow> inodeid_t \<Rightarrow> nome \<Rightarrow> (int \<times> 32 word option \<times> fs_t) res" where
  "fs_append fs dirO nomeO dirD nomeD =
     (if unat dirO \<ge> ITAB_SIZE then Inr (-1, None, fs)
      else if nome_mau nomeO then Inr (-1, None, fs)
      else
        bindr (iniciaEscrita fs) (\<lambda>fs.
        bindr (verifica_copia fs dirO nomeO dirD nomeD) (\<lambda>(r, fs).
        case r of
          None \<Rightarrow> Inr (-1, None, fs)
        | Some idO \<Rightarrow>
            bindr (fsi_dir_search fs (unat dirD) nomeD) (\<lambda>(st, fid, fs).
            case fid of
              None \<Rightarrow> Inr (-1, None, terminaEscrita fs)
            | Some idD \<Rightarrow>
                bindr (inode_em fs (unat idD)) (\<lambda>iD.
                bindr (inode_em fs (unat idO)) (\<lambda>iO.
                if itype iO \<noteq> FS_FILE then Inr (-1, None, terminaEscrita fs)
                else
                  let num = OFFSET_TO_BLOCKS (isize iO); num2 = OFFSET_TO_BLOCKS (isize iD) in
                  if int INODE_NUM_BLKS - int num < int num2 then Inr (-1, None, terminaEscrita fs)
                  else
                    bindr (copia_refs fs (unat idD) (unat idO) num 0 num2) (\<lambda>fs.
                    bindr (inode_em fs (unat idD)) (\<lambda>iD.
                    bindr (inode_em fs (unat idO)) (\<lambda>iO.
                    let s = isize iO + isize iD in
                    bindr (poe_inode fs (unat idO) (iO\<lparr>isize := s\<rparr>)) (\<lambda>fs.
                    Inr (0, Some s, terminaEscrita fs)))))))))))"

section \<open>Defragmentation\<close>

text \<open>The inodes, from 1 on, that refer to a block.\<close>

definition refs_bloco :: "fs_inode list \<Rightarrow> 32 word \<Rightarrow> nat list" where
  "refs_bloco tab b = filter (\<lambda>j. b \<in> set (iblocks (tab ! j))) [1..<ITAB_SIZE]"

fun troca_prim :: "32 word \<Rightarrow> 32 word \<Rightarrow> 32 word list \<Rightarrow> 32 word list" where
  "troca_prim b d [] = []"
| "troca_prim b d (x # xs) = (if x = b then d # xs else x # troca_prim b d xs)"

definition troca_refs :: "fs_inode list \<Rightarrow> nat list \<Rightarrow> 32 word \<Rightarrow> 32 word \<Rightarrow> fs_inode list" where
  "troca_refs tab js b d =
     foldl (\<lambda>t j. t[j := (t ! j)\<lparr>iblocks := troca_prim b d (iblocks (t ! j))\<rparr>]) tab js"

text \<open>The search for a free bit from 640 down to 10; 9 when there is none.\<close>

fun livre_do_fim :: "byte list \<Rightarrow> nat \<Rightarrow> nat res" where
  "livre_do_fim bm k =
     (if k > 9 then bindr (BMAP_ISSET bm k) (\<lambda>s. if \<not> s then Inr k else livre_do_fim bm (k - 1))
      else Inr k)"

declare livre_do_fim.simps [simp del]

definition invalidar_c :: "fs_t \<Rightarrow> 32 word \<Rightarrow> fs_t res" where
  "invalidar_c fs b = bindr (invalidarBloco (cache fs) (sint b)) (\<lambda>(_, c). Inr (fs\<lparr>cache := c\<rparr>))"

text \<open>One copy between blocks of the disk, followed by the change of the references.\<close>

definition copia_disco :: "fs_t \<Rightarrow> bloco \<Rightarrow> nat list \<Rightarrow> 32 word \<Rightarrow> 32 word \<Rightarrow> (bloco \<times> fs_t) res" where
  "copia_disco fs tp js de para =
     (let tp = le_disco (bks fs) de tp;
          fs = escrever_d fs para tp in
      bindr (ocupa_blk fs (unat para)) (\<lambda>fs.
      Inr (tp, fs\<lparr>inode_tab := troca_refs (inode_tab fs) js de para\<rparr>)))"

definition mexeBlocoPara :: "fs_t \<Rightarrow> 32 word \<Rightarrow> 32 word \<Rightarrow> fs_t res" where
  "mexeBlocoPara fs bl dest =
     (let (tp, fs) = novo_buf fs; js = refs_bloco (inode_tab fs) bl in
      bindr (BMAP_ISSET (blk_bmap fs) (unat dest)) (\<lambda>ocupado.
      bindr (if \<not> ocupado then bindr (copia_disco fs tp js bl dest) (\<lambda>(_, fs). Inr fs)
             else
               bindr (livre_do_fim (blk_bmap fs) NUM_BLOCOS_MAX) (\<lambda>k.
               bindr (ocupa_blk fs k) (\<lambda>fs.
               let js2 = refs_bloco (inode_tab fs) dest in
               bindr (copia_disco fs tp js2 dest (of_nat k)) (\<lambda>(tp, fs).
               bindr (invalidar_c fs dest) (\<lambda>fs.
               bindr (copia_disco fs tp js bl dest) (\<lambda>(_, fs). Inr fs)))))) (\<lambda>fs.
      bindr (invalidar_c fs bl) (\<lambda>fs.
      bindr (livra_blk fs (unat bl)) (\<lambda>fs. Inr (fsi_store_fsdata fs))))))"

text \<open>The test before the work: whether some block bit from 10 to 639 is set.\<close>

fun ha_ocupado :: "byte list \<Rightarrow> nat \<Rightarrow> nat \<Rightarrow> bool res" where
  "ha_ocupado bm i 0 = Inr False"
| "ha_ocupado bm i (Suc n) = bindr (BMAP_ISSET bm i) (\<lambda>s. if s then Inr True else ha_ocupado bm (i + 1) n)"

fun arruma :: "fs_t \<Rightarrow> 32 word \<Rightarrow> (nat \<times> nat) list \<Rightarrow> fs_t res" where
  "arruma fs pos [] = Inr fs"
| "arruma fs pos ((z, q) # zs) =
     bindr (inode_em fs z) (\<lambda>i.
     bindr (le_pos (iblocks i) q) (\<lambda>b.
     if b = pos then arruma fs (pos + 1) zs
     else if b > pos then bindr (mexeBlocoPara fs b pos) (\<lambda>fs. arruma fs (pos + 1) zs)
     else arruma fs pos zs))"

definition fs_defrag :: "fs_t \<Rightarrow> (int \<times> fs_t) res" where
  "fs_defrag fs =
     (if defrag_state fs = 1 then Inr (0, fs)
      else
        bindr (iniciaEscrita fs) (\<lambda>fs.
        let fs = fs\<lparr>defrag_state := 1\<rparr> in
        bindr (ha_ocupado (blk_bmap fs) 10 (NUM_BLOCOS_MAX - 10)) (\<lambda>h.
        if \<not> h then Inr (-1, terminaEscrita (fs\<lparr>defrag_state := 0\<rparr>))
        else
          bindr (arruma fs 10 (List.product [1..<ITAB_SIZE] [0..<INODE_NUM_BLKS])) (\<lambda>fs.
          Inr (1, terminaEscrita (fs\<lparr>defrag_state := 0\<rparr>))))))"

section \<open>The use of the disk\<close>

record noRef =
  blockId :: "32 word"
  pathname :: nome

text \<open>
  The references of a file or of a directory and everything below it.  A path longer than its
  buffer is out of range; the depth of the tree is the fuel.  The field inodeId of the C record is
  never read and is left out.
\<close>

fun refs_ficheiro :: "noRef List \<Rightarrow> nome \<Rightarrow> 32 word list \<Rightarrow> noRef List res" where
  "refs_ficheiro l path [] = Inr l"
| "refs_ficheiro l path (b # bs) =
     bindr (inserirOrdenado l \<lparr>blockId = b, pathname = path\<rparr> (ucast b)) (\<lambda>(_, l). refs_ficheiro l path bs)"

definition junta_path :: "nome \<Rightarrow> nome \<Rightarrow> nome res" where
  "junta_path path n =
     (if length path + 1 + length n > MAX_PATH_NAME_SIZE then Inl (OutOfRange MAX_PATH_NAME_SIZE)
      else Inr (path @ [BARRA] @ n))"

fun foldr_res :: "('a \<Rightarrow> 'b \<Rightarrow> 'b res) \<Rightarrow> 'a list \<Rightarrow> 'b \<Rightarrow> 'b res" where
  "foldr_res f [] s = Inr s"
| "foldr_res f (x # xs) s = bindr (f x s) (foldr_res f xs)"

text \<open>The pages of a directory: the number of entries used and the index of the block.\<close>

fun paginas :: "nat \<Rightarrow> nat \<Rightarrow> (nat \<times> nat) list" where
  "paginas i num =
     (if num = 0 then []
      else if num \<le> DIR_PAGE_ENTRIES then [(i, num)] else (i, 32) # paginas (i + 1) (num - 32))"

declare paginas.simps [simp del]

fun gerar_aux :: "nat \<Rightarrow> nat \<Rightarrow> nome \<Rightarrow> (noRef List \<times> fs_t) \<Rightarrow> (noRef List \<times> fs_t) res" where
  "gerar_aux 0 inode path (l, fs) = Inl NoFuel"
| "gerar_aux (Suc f) inode path (l, fs) =
     bindr (inode_em fs inode) (\<lambda>idir.
     if itype idir = FS_FILE then
       let n = OFFSET_TO_BLOCKS (isize idir) in
       if n \<le> length (iblocks idir) then
         bindr (refs_ficheiro l path (take n (iblocks idir))) (\<lambda>l. Inr (l, fs))
       else Inl (OutOfRange (length (iblocks idir)))
     else
       let (page0, fs) = novo_buf fs in
       bindr (foldr_res (\<lambda>(iblock, num) (page, l, fs).
         bindr (le_pos (iblocks idir) iblock) (\<lambda>b.
         let page = le_disco (bks fs) b page;
             p = (if inode = 1 then [BARRA] else path) in
         bindr (inserirOrdenado l \<lparr>blockId = b, pathname = p\<rparr> (ucast b)) (\<lambda>(_, l).
         bindr (foldr_res (\<lambda>i lf.
             bindr (junta_path path (dnome page i)) (\<lambda>q. gerar_aux f (unat (dinode page i)) q lf))
           [0..<num] (l, fs)) (\<lambda>(l, fs). Inr (page, l, fs)))))
         (paginas 0 (num_dentrys idir)) (page0, l, fs)) (\<lambda>(_, l, fs). Inr (l, fs)))"

definition gerar_lista_referencias :: "nat \<Rightarrow> fs_t \<Rightarrow> (noRef List \<times> fs_t) res" where
  "gerar_lista_referencias fuel fs = gerar_aux fuel 1 [] (newList, fs)"

text \<open>The lines fs_diskUsage prints.\<close>

datatype linha = BlkId "32 word" | FileName nat nome

fun lista_refs :: "nat \<Rightarrow> noRef List \<Rightarrow> 32 word option \<Rightarrow> nat \<Rightarrow> linha list res" where
  "lista_refs 0 l ult i = Inl NoFuel"
| "lista_refs (Suc f) l ult i =
     (if listSize l = 0 then Inr []
      else
        bindr (listRemoveFst l) (\<lambda>(_, r, l).
        case r of
          None \<Rightarrow> Inl (BadAddr NULL)
        | Some x \<Rightarrow>
            if ult = Some (blockId x) then
              bindr (lista_refs f l ult (i + 1)) (\<lambda>ls. Inr (FileName i (pathname x) # ls))
            else
              bindr (lista_refs f l (Some (blockId x)) 2) (\<lambda>ls.
              Inr (BlkId (blockId x) # FileName 1 (pathname x) # ls))))"

definition fs_diskUsage :: "nat \<Rightarrow> fs_t \<Rightarrow> (int \<times> linha list \<times> fs_t) res" where
  "fs_diskUsage fuel fs =
     bindr (iniciaLeitura fs) (\<lambda>fs.
     bindr (gerar_lista_referencias fuel fs) (\<lambda>(l, fs).
     bindr (lista_refs (Suc (length (nos_l l))) l None 1) (\<lambda>ls.
     Inr (0, ls, terminaLeitura fs))))"

text \<open>fs_dump and fs_dumpcache print the state inside a section; they change nothing else.\<close>

definition fs_dump :: "fs_t \<Rightarrow> (((byte \<times> bool) list \<times> (byte \<times> bool) list) \<times> fs_t) res" where
  "fs_dump fs =
     bindr (iniciaLeitura fs) (\<lambda>fs.
     bindr (fsi_dump_bmap (blk_bmap fs) BLOCK_SIZE) (\<lambda>b.
     bindr (fsi_dump_bmap (inode_bmap fs) BLOCK_SIZE) (\<lambda>i.
     Inr ((b, i), terminaLeitura fs))))"

definition thread_actualiza_Cache :: "fs_t \<Rightarrow> fs_t res" where
  "thread_actualiza_Cache fs = bindr (actualizarCache (cache fs) 2) (\<lambda>(st, c). Inr (fs\<lparr>cache := c\<rparr>))"

text \<open>visualizarCache prints every entry of the table, in the order of the chains.\<close>

definition visualizarCache :: "cache_t \<Rightarrow> (int \<times> icache list) res" where
  "visualizarCache c =
     (if hashSize (tabela c) = 0 then Inr (0, [])
      else bindr (mapr (\<lambda>n. ent_em c (val n)) (nos c)) (\<lambda>es. Inr (0, es)))"

definition fs_dumpcache :: "fs_t \<Rightarrow> (int \<times> icache list \<times> fs_t) res" where
  "fs_dumpcache fs =
     bindr (iniciaEscrita fs) (\<lambda>fs.
     bindr (visualizarCache (cache fs)) (\<lambda>(st, es). Inr (st, es, terminaEscrita fs)))"

end
