(* ===== verification/FsLemas.thy ===== *)
theory FsLemas
  imports FsCopia
begin

text \<open>
  Lemmas on the data of the file system: the bitmaps as sets of numbers, the metadata written
  to the disk and read back, the entries of a directory page, and the readers/writers section
  when the requests come one after the other.
\<close>

section \<open>Bitmaps\<close>

definition ocupado :: "byte list \<Rightarrow> nat \<Rightarrow> bool" where
  "ocupado bm n \<longleftrightarrow> bit (bm ! (n div 8)) (n mod 8)"

lemma div8: "n div 8 < length bm \<longleftrightarrow> n < 8 * length bm"
  by (simp add: less_mult_imp_div_less div_less_iff_less_mult mult.commute)

lemma BMAP_ISSET_ok [simp]: "n < 8 * length bm \<Longrightarrow> BMAP_ISSET bm n = Inr (ocupado bm n)"
  by (simp add: BMAP_ISSET_def div8 ocupado_def bit_iff_and_push_bit_not_eq_0 push_bit_eq_mult)

lemma byte_muda:
  assumes "n < 8 * length bm" "j < 8 * length bm" "\<And>k. k < 8 \<Longrightarrow> bit b k = (if k = n mod 8 then v else bit (bm ! (n div 8)) k)"
  shows "ocupado (bm[n div 8 := b]) j = (if j = n then v else ocupado bm j)"
proof (cases "j div 8 = n div 8")
  case True
  then have "j = n \<longleftrightarrow> j mod 8 = n mod 8" by (metis div_mult_mod_eq)
  then show ?thesis using True assms div8[of n bm] by (simp add: ocupado_def)
next
  case False
  then show ?thesis by (auto simp: ocupado_def)
qed

lemma BMAP_SET_ok:
  assumes "n < 8 * length bm"
  shows "\<exists>bm'. BMAP_SET bm n = Inr bm' \<and> length bm' = length bm \<and>
    (\<forall>j < 8 * length bm. ocupado bm' j = (j = n \<or> ocupado bm j))"
  using assms div8[of n bm] byte_muda[OF assms, of _ "(bm ! (n div 8)) OR push_bit (n mod 8) 1" True]
  by (auto simp: BMAP_SET_def bit_simps)

lemma BMAP_CLR_ok:
  assumes "n < 8 * length bm"
  shows "\<exists>bm'. BMAP_CLR bm n = Inr bm' \<and> length bm' = length bm \<and>
    (\<forall>j < 8 * length bm. ocupado bm' j = (j \<noteq> n \<and> ocupado bm j))"
  using assms div8[of n bm] byte_muda[OF assms, of _ "(bm ! (n div 8)) AND NOT (push_bit (n mod 8) 1)" False]
  by (auto simp: BMAP_CLR_def bit_simps)

lemma acha_livre_ok:
  "i + n \<le> 8 * length bm \<Longrightarrow>
   \<exists>r. acha_livre bm i n = Inr r \<and>
     (case r of None \<Rightarrow> \<forall>j. i \<le> j \<longrightarrow> j < i + n \<longrightarrow> ocupado bm j
      | Some k \<Rightarrow> i \<le> k \<and> k < i + n \<and> \<not> ocupado bm k \<and> (\<forall>j. i \<le> j \<longrightarrow> j < k \<longrightarrow> ocupado bm j))"
proof (induction n arbitrary: i)
  case (Suc n)
  show ?case
  proof (cases "ocupado bm i")
    case True
    then obtain r where r: "acha_livre bm (i + 1) n = Inr r"
      "case r of None \<Rightarrow> \<forall>j. i + 1 \<le> j \<longrightarrow> j < i + 1 + n \<longrightarrow> ocupado bm j
       | Some k \<Rightarrow> i + 1 \<le> k \<and> k < i + 1 + n \<and> \<not> ocupado bm k \<and> (\<forall>j. i + 1 \<le> j \<longrightarrow> j < k \<longrightarrow> ocupado bm j)"
      using Suc.IH[of "i + 1"] Suc.prems by auto
    have m: "ocupado bm j" if "i \<le> j" "i + 1 \<le> j \<Longrightarrow> ocupado bm j" for j
      using that True by (cases "j = i") auto
    have "acha_livre bm i (Suc n) = Inr r" using r(1) True Suc.prems by simp
    moreover have "case r of None \<Rightarrow> \<forall>j. i \<le> j \<longrightarrow> j < i + Suc n \<longrightarrow> ocupado bm j
       | Some k \<Rightarrow> i \<le> k \<and> k < i + Suc n \<and> \<not> ocupado bm k \<and> (\<forall>j. i \<le> j \<longrightarrow> j < k \<longrightarrow> ocupado bm j)"
      using r(2) m by (cases r) auto
    ultimately show ?thesis by blast
  next
    case False
    then show ?thesis using Suc.prems by auto
  qed
qed auto

lemma fsi_bmap_find_free_ok:
  assumes "n \<le> 8 * length bm"
  shows "\<exists>r. fsi_bmap_find_free bm n = Inr r \<and>
     (case r of None \<Rightarrow> \<forall>j < n. ocupado bm j
      | Some k \<Rightarrow> k < n \<and> \<not> ocupado bm k \<and> (\<forall>j < k. ocupado bm j))"
  using acha_livre_ok[of 0 n bm] assms by (auto simp: fsi_bmap_find_free_def split: option.splits)

section \<open>Inodes on disk\<close>

lemma concat_le32: "length (concat (map le32 ws)) = 4 * length ws"
  by (induction ws) auto

lemma le_words_le32: "le_words (length ws) (concat (map le32 ws) @ r) = ws"
proof (induction ws)
  case (Cons w ws)
  have "le_words (Suc n) bs = un32 bs # le_words n (drop 4 bs)" for n bs
    unfolding le_words_def by (simp add: upt_rec[of 0 "Suc n"] map_Suc_upt[symmetric] add.commute del: upt_Suc)
  then show ?case using Cons by (simp add: un32_le32)
qed (simp add: le_words_def)

lemma inode_bytes_length: "inode_ok i \<Longrightarrow> length (inode_bytes i) = 64"
  by (simp add: inode_bytes_def inode_ok_def concat_le32 INODE_NUM_BLKS_def)

lemma inode_ida_volta: "inode_ok i \<Longrightarrow> inode_de (inode_bytes i @ r) = i"
proof -
  assume ok: "inode_ok i"
  then have l: "length (iblocks i) = 10" "length (reserved i) = 4"
    by (simp_all add: inode_ok_def INODE_NUM_BLKS_def)
  let ?b = "concat (map le32 (iblocks i))" and ?r = "concat (map le32 (reserved i))"
  have "drop 48 (inode_bytes i @ r) = ?r @ r"
    using l by (simp add: inode_bytes_def concat_le32)
  moreover have "drop 8 (inode_bytes i @ r) = ?b @ ?r @ r" "drop 4 (inode_bytes i @ r) = le32 (isize i) @ ?b @ ?r @ r"
    by (simp_all add: inode_bytes_def)
  ultimately show ?thesis
    using le_words_le32[of "iblocks i" "?r @ r"] le_words_le32[of "reserved i" r] l
    by (simp add: inode_de_def INODE_NUM_BLKS_def un32_le32) (simp add: inode_bytes_def un32_le32)
qed

definition tab_ok :: "fs_inode list \<Rightarrow> bool" where
  "tab_ok tab \<longleftrightarrow> length tab = ITAB_SIZE \<and> (\<forall>i \<in> set tab. inode_ok i)"

lemma fatia_length: "tab_ok tab \<Longrightarrow> i < 8 \<Longrightarrow> length (fatia_tab tab i) = BLOCK_SIZE"
proof -
  assume ok: "tab_ok tab" and i: "i < 8"
  have "\<forall>b \<in> set (map inode_bytes (take 8 (drop (8 * i) tab))). length b = 64"
    using ok inode_bytes_length by (auto simp: tab_ok_def dest!: in_set_takeD in_set_dropD)
  then show ?thesis
    using concat_length[of "map inode_bytes (take 8 (drop (8 * i) tab))" 64] ok i
    by (simp add: fatia_tab_def tab_ok_def ITAB_SIZE_def BLOCK_SIZE_def)
qed

lemma drop_concat_map:
  "\<forall>x \<in> set xs. length (f x) = n \<Longrightarrow> drop (n * j) (concat (map f xs)) = concat (map f (drop j xs))"
proof (induction xs arbitrary: j)
  case (Cons x xs)
  then show ?case by (cases j) auto
qed simp

text \<open>Writing a slice of the table and reading it back.\<close>

lemma fatia_ida_volta:
  assumes ok: "tab_ok tab" and i: "i < 8"
  shows "map (\<lambda>j. inode_de (drop (64 * j) (fatia_tab tab i))) [0..<8] = take 8 (drop (8 * i) tab)"
proof (rule nth_equalityI)
  let ?xs = "take 8 (drop (8 * i) tab)"
  have l: "length ?xs = 8" using ok i by (simp add: tab_ok_def ITAB_SIZE_def)
  then show "length (map (\<lambda>j. inode_de (drop (64 * j) (fatia_tab tab i))) [0..<8]) = length ?xs" by simp
  have oks: "\<forall>x \<in> set ?xs. inode_ok x" using ok by (auto simp: tab_ok_def dest!: in_set_takeD in_set_dropD)
  fix j assume "j < length (map (\<lambda>j. inode_de (drop (64 * j) (fatia_tab tab i))) [0..<8])"
  then have j: "j < length ?xs" using l by simp
  have "drop (64 * j) (fatia_tab tab i) = concat (map inode_bytes (drop j ?xs))"
    unfolding fatia_tab_def by (rule drop_concat_map) (use oks inode_bytes_length in auto)
  also have "\<dots> = inode_bytes (?xs ! j) @ concat (map inode_bytes (drop (Suc j) ?xs))"
    by (simp only: Cons_nth_drop_Suc[OF j, symmetric]) simp
  finally have "inode_de (drop (64 * j) (fatia_tab tab i)) = ?xs ! j"
    using inode_ida_volta oks j by (simp only:) (meson nth_mem)
  then show "map (\<lambda>j. inode_de (drop (64 * j) (fatia_tab tab i))) [0..<8] ! j = ?xs ! j"
    using j l by simp
qed


section \<open>The metadata on disk\<close>

text \<open>The disk of a file system: well formed, blocks of 512 bytes, room for the metadata.\<close>

definition meta_disco :: "blocks_t \<Rightarrow> bool" where
  "meta_disco d \<longleftrightarrow> disco_ok d \<and> unat (block_size d) = BLOCK_SIZE \<and> 10 \<le> unat (num_blocks d)"

lemma of_nat_bloco:
  "k < unat (num_blocks d) \<Longrightarrow> i < unat (num_blocks d) \<Longrightarrow> (of_nat k :: 32 word) = of_nat i \<longleftrightarrow> k = i"
  "k < unat (num_blocks d) \<Longrightarrow> (of_nat k :: 32 word) < num_blocks d"
proof -
  have b: "unat (of_nat k :: 32 word) = k" if "k < unat (num_blocks d)" for k
  proof -
    have "unat (num_blocks d) < 2 ^ 32" using unsigned_less[of "num_blocks d"] by simp
    then have "k < 2 ^ 32" using that by (rule less_trans[rotated])
    then show ?thesis by (simp only: unsigned_of_nat) (simp add: take_bit_nat_eq_self)
  qed
  show "k < unat (num_blocks d) \<Longrightarrow> i < unat (num_blocks d) \<Longrightarrow> (of_nat k :: 32 word) = of_nat i \<longleftrightarrow> k = i"
    using b by metis
  show "k < unat (num_blocks d) \<Longrightarrow> (of_nat k :: 32 word) < num_blocks d"
    using b[of k] by (simp add: word_less_nat_alt)
qed

lemma escreve_meta:
  assumes d: "meta_disco d" and k: "k < unat (num_blocks d)" and l: "length b = BLOCK_SIZE"
  shows "meta_disco (snd (block_write d (of_nat k) b))"
    "i < unat (num_blocks d) \<Longrightarrow> block_read (snd (block_write d (of_nat k) b)) (of_nat i) =
       (if i = k then (0, Some b) else block_read d (of_nat i))"
proof -
  show "meta_disco (snd (block_write d (of_nat k) b))"
    using d l block_write_ok[of d b "of_nat k"] by (simp add: meta_disco_def)
  show "block_read (snd (block_write d (of_nat k) b)) (of_nat i) =
       (if i = k then (0, Some b) else block_read d (of_nat i))" if "i < unat (num_blocks d)"
    using block_read_write[of d "of_nat k" b "of_nat i"] d l of_nat_bloco[of k d] of_nat_bloco(1)[of i d k] that k
    by (simp add: meta_disco_def)
qed

lemma grava_fatias:
  assumes d: "meta_disco d" and t: "tab_ok tab" and n: "n \<le> 8"
  shows "meta_disco (foldl (grava_fatia tab) d [0..<n]) \<and>
    num_blocks (foldl (grava_fatia tab) d [0..<n]) = num_blocks d \<and>
    (\<forall>k < unat (num_blocks d). block_read (foldl (grava_fatia tab) d [0..<n]) (of_nat k) =
      (if 2 \<le> k \<and> k < n + 2 then (0, Some (fatia_tab tab (k - 2))) else block_read d (of_nat k)))"
  using n
proof (induction n)
  case (Suc n)
  let ?d = "foldl (grava_fatia tab) d [0..<n]"
  have m: "meta_disco ?d" "num_blocks ?d = num_blocks d" using Suc by auto
  have l: "length (fatia_tab tab n) = BLOCK_SIZE" using fatia_length[OF t] Suc.prems by simp
  have k: "n + 2 < unat (num_blocks ?d)" using d Suc.prems m by (simp add: meta_disco_def)
  note e = escreve_meta[OF m(1) k l]
  have f: "foldl (grava_fatia tab) d [0..<Suc n] = snd (block_write ?d (of_nat (n + 2)) (fatia_tab tab n))"
    by (simp add: grava_fatia_def)
  have r: "block_read (foldl (grava_fatia tab) d [0..<Suc n]) (of_nat j) =
      (if 2 \<le> j \<and> j < Suc n + 2 then (0, Some (fatia_tab tab (j - 2))) else block_read d (of_nat j))"
    if j: "j < unat (num_blocks d)" for j
  proof -
    have "block_read (foldl (grava_fatia tab) d [0..<Suc n]) (of_nat j) =
      (if j = n + 2 then (0, Some (fatia_tab tab n)) else block_read ?d (of_nat j))"
      using e(2)[of j] j m(2) f by simp
    moreover have "block_read ?d (of_nat j) =
      (if 2 \<le> j \<and> j < n + 2 then (0, Some (fatia_tab tab (j - 2))) else block_read d (of_nat j))"
      using Suc j by simp
    ultimately show ?thesis by auto
  qed
  show ?case using e(1) m(2) f r by simp
qed (use d in auto)

lemma carrega_fatias:
  assumes r: "\<And>i. i < 8 \<Longrightarrow> block_read d (of_nat (i + 2)) = (0, Some (fatia_tab tab i))"
    and t: "tab_ok tab" and z: "length z = ITAB_SIZE" and n: "n \<le> 8"
  shows "foldl (carrega_fatia d) z [0..<n] = take (8 * n) tab @ drop (8 * n) z"
  using n
proof (induction n)
  case (Suc n)
  have lt: "length tab = 64" using t by (simp add: tab_ok_def ITAB_SIZE_def)
  have z64: "length z = 64" using z by (simp add: ITAB_SIZE_def)
  have f: "foldl (carrega_fatia d) z [0..<Suc n] =
      poe_fatia (take (8 * n) tab @ drop (8 * n) z) n (fatia_tab tab n)"
  proof -
    have "carrega_fatia d X n = poe_fatia X n (fatia_tab tab n)" for X
      using r[of n] Suc.prems by (simp add: carrega_fatia_def)
    then show ?thesis using Suc by simp
  qed
  have "poe_fatia (take (8 * n) tab @ drop (8 * n) z) n (fatia_tab tab n) = take (8 * n) tab @ take 8 (drop (8 * n) tab) @ drop (8 * n + 8) z"
    unfolding poe_fatia_def using fatia_ida_volta[OF t, of n] Suc.prems lt z64 by (simp add: add.commute)
  also have "\<dots> = take (8 * Suc n) tab @ drop (8 * Suc n) z"
    by (simp add: take_add[of "8 * n" 8 tab, symmetric] add.commute)
  finally show ?case using f by simp
qed simp

definition fs_meta :: "fs_t \<Rightarrow> bool" where
  "fs_meta fs \<longleftrightarrow>
     meta_disco (bks fs) \<and> length (blk_bmap fs) = BLOCK_SIZE \<and> length (inode_bmap fs) = BLOCK_SIZE \<and>
     tab_ok (inode_tab fs)"

lemma store_le:
  assumes m: "fs_meta fs"
  shows "meta_disco (bks (fsi_store_fsdata fs))" "num_blocks (bks (fsi_store_fsdata fs)) = num_blocks (bks fs)"
    "\<And>k. k < unat (num_blocks (bks fs)) \<Longrightarrow> block_read (bks (fsi_store_fsdata fs)) (of_nat k) =
       (if k = 0 then (0, Some (blk_bmap fs)) else if k = 1 then (0, Some (inode_bmap fs))
        else if k < 10 then (0, Some (fatia_tab (inode_tab fs) (k - 2))) else block_read (bks fs) (of_nat k))"
proof -
  have m: "meta_disco (bks fs)" "length (blk_bmap fs) = BLOCK_SIZE" "length (inode_bmap fs) = BLOCK_SIZE"
    "tab_ok (inode_tab fs)" "10 \<le> unat (num_blocks (bks fs))" using m by (auto simp: fs_meta_def meta_disco_def)
  let ?d1 = "snd (block_write (bks fs) (of_nat 0) (blk_bmap fs))"
  let ?d2 = "snd (block_write ?d1 (of_nat 1) (inode_bmap fs))"
  have k: "0 < unat (num_blocks (bks fs))" "1 < unat (num_blocks ?d1)" using m(5) by simp_all
  note e1 = escreve_meta[OF m(1) k(1) m(2)]
  note e2 = escreve_meta[OF e1(1) k(2) m(3)]
  have s: "bks (fsi_store_fsdata fs) = foldl (grava_fatia (inode_tab fs)) ?d2 [0..<8]"
    by (simp add: fsi_store_fsdata_def bks_def poe_bks_def ITAB_NUM_BLKS_def)
  note g = grava_fatias[OF e2(1) m(4) order.refl]
  show "meta_disco (bks (fsi_store_fsdata fs))" "num_blocks (bks (fsi_store_fsdata fs)) = num_blocks (bks fs)"
    using g s by auto
  fix k assume k: "k < unat (num_blocks (bks fs))"
  then have "block_read (bks (fsi_store_fsdata fs)) (of_nat k) =
      (if 2 \<le> k \<and> k < 8 + 2 then (0, Some (fatia_tab (inode_tab fs) (k - 2))) else block_read ?d2 (of_nat k))"
    using g s by simp
  moreover have "block_read ?d2 (of_nat k) = (if k = 1 then (0, Some (inode_bmap fs)) else block_read ?d1 (of_nat k))"
    using e2(2)[of k] k by simp
  moreover have "block_read ?d1 (of_nat k) = (if k = 0 then (0, Some (blk_bmap fs)) else block_read (bks fs) (of_nat k))"
    using e1(2)[of k] k by simp
  ultimately show "block_read (bks (fsi_store_fsdata fs)) (of_nat k) =
       (if k = 0 then (0, Some (blk_bmap fs)) else if k = 1 then (0, Some (inode_bmap fs))
        else if k < 10 then (0, Some (fatia_tab (inode_tab fs) (k - 2))) else block_read (bks fs) (of_nat k))"
    by auto
qed

text \<open>Loading what was stored restores the three tables, whatever they held.\<close>

lemma load_store:
  assumes m: "fs_meta fs" and z: "length z = ITAB_SIZE"
  shows "fsi_load_fsdata ((fsi_store_fsdata fs)\<lparr>blk_bmap := x, inode_bmap := y, inode_tab := z\<rparr>) = fsi_store_fsdata fs"
proof -
  let ?s = "fsi_store_fsdata fs"
  have n: "10 \<le> unat (num_blocks (bks fs))" using m by (simp add: fs_meta_def meta_disco_def)
  have t: "tab_ok (inode_tab fs)" using m by (simp add: fs_meta_def)
  note r = store_le(3)[OF m]
  have rr: "block_read (bks ?s) (of_nat (i + 2)) = (0, Some (fatia_tab (inode_tab fs) i))" if "i < 8" for i
    using r[of "i + 2"] n that by simp
  have "foldl (carrega_fatia (bks ?s)) z [0..<8] = inode_tab fs"
    using carrega_fatias[OF rr t z order.refl] t z by (simp add: tab_ok_def ITAB_SIZE_def)
  moreover have "block_read (bks ?s) 0 = (0, Some (blk_bmap fs))" "block_read (bks ?s) 1 = (0, Some (inode_bmap fs))"
    using r[of 0] r[of 1] n by simp_all
  moreover have "blk_bmap ?s = blk_bmap fs" "inode_bmap ?s = inode_bmap fs" "inode_tab ?s = inode_tab fs"
    by (simp_all add: fsi_store_fsdata_def poe_bks_def)
  ultimately show ?thesis
    by (simp add: fsi_load_fsdata_def le_disco_def bks_def ITAB_NUM_BLKS_def)
qed


section \<open>Directory pages\<close>

lemma cstr_junta: "0 \<notin> set s \<Longrightarrow> cstr (s @ 0 # r) = s"
  by (induction s) (auto simp: cstr_def)

lemma poe_bytes_length: "k + length bs \<le> length p \<Longrightarrow> length (poe_bytes p k bs) = length p"
  by (simp add: poe_bytes_def)

lemma poe_bytes_nth:
  "k + length bs \<le> length p \<Longrightarrow> j < length p \<Longrightarrow>
   poe_bytes p k bs ! j = (if k \<le> j \<and> j < k + length bs then bs ! (j - k) else p ! j)"
  by (auto simp: poe_bytes_def nth_append min_def)

lemma dinode_bytes:
  "(ucast (ucast w :: byte) :: 16 word) OR push_bit 8 (ucast (ucast (drop_bit 8 w) :: byte)) = w"
  by (rule bit_word_eqI) (auto simp: bit_simps)

text \<open>Writing an entry: its name and its inode are read back.\<close>

lemma entrada_escrita:
  fixes w :: inodeid_t
  assumes p: "length p = BLOCK_SIZE" and e: "e < DIR_PAGE_ENTRIES" and s: "0 \<notin> set s" "length s < FS_MAX_FNAME_SZ"
  defines "q \<equiv> poe_dinode (poe_dnome p e s) e w"
  shows "length q = BLOCK_SIZE" "dnome q e = s" "dinode q e = w"
    "\<And>j. j < 16 * e \<Longrightarrow> q ! j = p ! j" "\<And>j. 16 * e + 16 \<le> j \<Longrightarrow> j < BLOCK_SIZE \<Longrightarrow> q ! j = p ! j"
proof -
  have n: "16 * e + 16 \<le> 512" "length s < 14" "length p = 512"
    using e s p by (simp_all add: DIR_PAGE_ENTRIES_def FS_MAX_FNAME_SZ_def BLOCK_SIZE_def)
  let ?p = "poe_dnome p e s"
  have l1: "length ?p = 512" using n by (simp add: poe_dnome_def poe_bytes_length)
  have n1: "?p ! j = (if 16 * e \<le> j \<and> j < 16 * e + length s + 1 then (s @ [0]) ! (j - 16 * e) else p ! j)"
    if "j < 512" for j
    using that n poe_bytes_nth[of "16 * e" "s @ [0]" p j] by (simp add: poe_dnome_def)
  have lq: "length q = 512" using n l1 by (simp add: q_def poe_dinode_def poe_bytes_length)
  then show "length q = BLOCK_SIZE" by (simp add: BLOCK_SIZE_def)
  have nq: "q ! j = (if 16 * e + 14 \<le> j \<and> j < 16 * e + 16 then [ucast w, ucast (drop_bit 8 w)] ! (j - (16 * e + 14)) else ?p ! j)"
    if "j < 512" for j
    using that n l1 poe_bytes_nth[of "16 * e + 14" "[ucast w, ucast (drop_bit 8 w)]" ?p j]
    by (simp add: q_def poe_dinode_def)
  show "\<And>j. j < 16 * e \<Longrightarrow> q ! j = p ! j" "\<And>j. 16 * e + 16 \<le> j \<Longrightarrow> j < BLOCK_SIZE \<Longrightarrow> q ! j = p ! j"
    using nq n1 n by (auto simp: BLOCK_SIZE_def)
  have "q ! (16 * e + 14) = ucast w" "q ! (16 * e + 15) = ucast (drop_bit 8 w)"
    using nq[of "16 * e + 14"] nq[of "16 * e + 15"] n by simp_all
  then show "dinode q e = w" by (simp add: dinode_def dinode_bytes)
  have "take (length s + 1) (drop (16 * e) q) = s @ [0]"
  proof (rule nth_equalityI)
    show "length (take (length s + 1) (drop (16 * e) q)) = length (s @ [0])" using lq n by simp
    fix j assume "j < length (take (length s + 1) (drop (16 * e) q))"
    then have j: "j < length s + 1" using lq n by simp
    then show "take (length s + 1) (drop (16 * e) q) ! j = (s @ [0]) ! j"
      using nq[of "16 * e + j"] n1[of "16 * e + j"] n lq by simp
  qed
  then have "drop (16 * e) q = s @ 0 # drop (length s + 1) (drop (16 * e) q)"
    by (metis append_take_drop_id append.assoc append_Cons append_Nil)
  then show "dnome q e = s" unfolding dnome_def using cstr_junta[OF s(1)] by metis
qed

text \<open>Entries in other places keep their bytes, hence their names and inodes.\<close>

lemma dnome_igual:
  assumes "length p = BLOCK_SIZE" "length q = BLOCK_SIZE" "i < DIR_PAGE_ENTRIES"
    and "\<And>j. 16 * i \<le> j \<Longrightarrow> j < 16 * i + 16 \<Longrightarrow> q ! j = p ! j" "length (dnome p i) < 16"
  shows "dnome q i = dnome p i" "dinode q i = dinode p i"
proof -
  have n: "16 * i + 16 \<le> 512" "length p = 512" "length q = 512"
    using assms by (simp_all add: DIR_PAGE_ENTRIES_def BLOCK_SIZE_def)
  have t: "take 16 (drop (16 * i) q) = take 16 (drop (16 * i) p)"
    by (rule nth_equalityI) (use n assms(4) in auto)
  have c: "takeWhile P (take 16 xs @ ys) = takeWhile P xs" if "length (takeWhile P xs) < 16" "16 \<le> length xs" for P and xs ys :: "byte list"
  proof -
    have "\<exists>x \<in> set (take 16 xs). \<not> P x"
    proof (rule ccontr)
      assume "\<not> ?thesis"
      then have "takeWhile P (take 16 xs @ drop 16 xs) = take 16 xs @ takeWhile P (drop 16 xs)"
        by (intro takeWhile_append2) auto
      then show False using that by simp
    qed
    then obtain x where "x \<in> set (take 16 xs)" "\<not> P x" by blast
    then have "takeWhile P (take 16 xs @ zs) = takeWhile P (take 16 xs)" for zs by (rule takeWhile_append1)
    then show ?thesis by (metis append_take_drop_id)
  qed
  have "takeWhile (\<lambda>x. x \<noteq> 0) (take 16 (drop (16 * i) p) @ drop 16 (drop (16 * i) q)) = dnome p i"
    using c[of "\<lambda>x. x \<noteq> 0" "drop (16 * i) p"] assms(5) n by (simp add: dnome_def cstr_def)
  then show "dnome q i = dnome p i"
    unfolding t[symmetric] append_take_drop_id by (simp only: dnome_def cstr_def)
  show "dinode q i = dinode p i" using assms(4) by (simp add: dinode_def)
qed

section \<open>Readers and writers, one after the other\<close>

text \<open>The state in which nobody is inside and nobody waits.\<close>

definition livre :: "fs_t \<Rightarrow> bool" where
  "livre fs \<longleftrightarrow> leitores fs = 0 \<and> escritores fs = 0 \<and> wanna_leitor fs = 0 \<and> wanna_escritor fs = 0"

lemma leitura_livre:
  assumes "livre fs"
  shows "\<exists>fs'. iniciaLeitura fs = Inr fs' \<and> fs' = fs\<lparr>leitores := 1, turno := ESCRITA\<rparr> \<and> livre (terminaLeitura fs')"
  using assms by (simp add: livre_def iniciaLeitura_def terminaLeitura_def Let_def)

lemma escrita_livre:
  assumes "livre fs"
  shows "\<exists>fs'. iniciaEscrita fs = Inr fs' \<and> fs' = fs\<lparr>escritores := 1\<rparr> \<and> livre (terminaEscrita fs')"
  using assms by (simp add: livre_def iniciaEscrita_def terminaEscrita_def Let_def)

text \<open>A section that is never closed stops everybody.\<close>

lemma escritor_preso:
  "escritores fs \<noteq> 0 \<Longrightarrow> iniciaEscrita fs = Inl Blocked \<and> iniciaLeitura fs = Inl Blocked"
  by (simp add: iniciaEscrita_def iniciaLeitura_def Let_def)

end
