(* ===== verification/FsLeitura.thy ===== *)
theory FsLeitura
  imports FsLemas
begin

text \<open>
  Files of the file system as sequences of bytes.  The content of a file (\<open>conteudo_f\<close>) is the
  concatenation of its blocks as the cache shows them, cut at the size of the inode; \<open>fs_ok\<close> is
  what holds between two operations.  fs_read returns a part of the content and changes nothing
  but the cache and the buffers.
\<close>

section \<open>Concatenated blocks\<close>

lemma length_concat_blocos: "(\<And>b. b \<in> set bs \<Longrightarrow> length (v b) = n) \<Longrightarrow> length (concat (map v bs)) = n * length bs"
  by (induction bs) auto

lemma drop_concat_blocos:
  "(\<And>b. b \<in> set bs \<Longrightarrow> length (v b) = n) \<Longrightarrow> drop (n * i) (concat (map v bs)) = concat (map v (drop i bs))"
  using drop_concat_map[of bs v n i] by auto

text \<open>Bytes \<open>s\<close> to \<open>s + m\<close> of block \<open>i\<close> in the concatenation.\<close>

lemma concat_pedaco:
  assumes l: "\<And>b. b \<in> set bs \<Longrightarrow> length (v b) = n" and i: "i < length bs" and s: "s + m \<le> n"
  shows "take m (drop (n * i + s) (concat (map v bs))) = take m (drop s (v (bs ! i)))"
proof -
  have "drop (n * i) (concat (map v bs)) = v (bs ! i) @ concat (map v (drop (Suc i) bs))"
    using drop_concat_blocos[of bs v n i, OF l] Cons_nth_drop_Suc[OF i, symmetric] by simp
  moreover have "length (v (bs ! i)) = n" using l i by simp
  ultimately have "drop (n * i + s) (concat (map v bs)) = drop s (v (bs ! i)) @ concat (map v (drop (Suc i) bs))"
    using s by (simp add: drop_drop[symmetric] add.commute del: drop_drop)
  then show ?thesis using s \<open>length (v (bs ! i)) = n\<close> by simp
qed

lemma concat_muda:
  assumes l: "\<And>b. b \<in> set bs \<Longrightarrow> length (v b) = n" and i: "i < length bs" and d: "distinct bs"
  shows "concat (map (v(bs ! i := x)) bs) = take (n * i) (concat (map v bs)) @ x @ drop (n * Suc i) (concat (map v bs))"
proof -
  have bs: "bs = take i bs @ bs ! i # drop (Suc i) bs" using i by (simp add: id_take_nth_drop)
  then have "distinct (take i bs @ bs ! i # drop (Suc i) bs)" using d by metis
  then have ni: "bs ! i \<notin> set (take i bs)" "bs ! i \<notin> set (drop (Suc i) bs)" by auto
  have "concat (map v bs) = concat (map v (take i bs)) @ concat (map v (drop i bs))"
    by (metis append_take_drop_id concat_append map_append)
  moreover have "length (concat (map v (take i bs))) = n * i"
    using length_concat_blocos[of "take i bs" v n] l i by (auto dest!: in_set_takeD simp: min_def)
  ultimately have t: "take (n * i) (concat (map v bs)) = concat (map v (take i bs))" by simp
  have "concat (map (v(bs ! i := x)) bs) =
      concat (map (v(bs ! i := x)) (take i bs)) @ x @ concat (map (v(bs ! i := x)) (drop (Suc i) bs))"
    by (subst (2) bs) simp
  also have "map (v(bs ! i := x)) (take i bs) = map v (take i bs)" using ni(1) by auto
  also have "map (v(bs ! i := x)) (drop (Suc i) bs) = map v (drop (Suc i) bs)" using ni(2) by auto
  finally show ?thesis using t drop_concat_blocos[of bs v n "Suc i", OF l] by (metis mult_Suc_right)
qed

section \<open>Files\<close>

text \<open>The blocks of a file and its content, seen through the cache.\<close>

definition blocos :: "fs_t \<Rightarrow> nat \<Rightarrow> nat list" where
  "blocos fs f = map unat (take (OFFSET_TO_BLOCKS (isize (inode_tab fs ! f))) (iblocks (inode_tab fs ! f)))"

definition bytes :: "cache_t \<Rightarrow> nat list \<Rightarrow> byte list" where
  "bytes c bs = concat (map (\<lambda>b. vista c (int b)) bs)"

definition conteudo_f :: "fs_t \<Rightarrow> nat \<Rightarrow> byte list" where
  "conteudo_f fs f = take (unat (isize (inode_tab fs ! f))) (bytes (cache fs) (blocos fs f))"

text \<open>
  A file system between two operations: nobody inside, metadata and cache well formed, no
  metadata block in the cache, free blocks without references.
\<close>

definition fs_ok :: "fs_t \<Rightarrow> bool" where
  "fs_ok fs \<longleftrightarrow>
     fs_meta fs \<and> cache_ok (cache fs) \<and> semente (cache fs) \<and> livre fs \<and>
     dom (mapa (tabela (cache fs))) \<subseteq> {10..} \<and> unat (num_blocks (bks fs)) \<le> 4096 \<and>
     length (referencias fs) = unat (num_blocks (bks fs)) \<and>
     (\<forall>i. length (pilha fs i) = BLOCK_SIZE) \<and> (\<forall>b < 10. ocupado (blk_bmap fs) b) \<and>
     (\<forall>b < unat (num_blocks (bks fs)). \<not> ocupado (blk_bmap fs) b \<longrightarrow> referencias fs ! b = 0)"

text \<open>A file in use whose blocks are its own.\<close>

definition blocos_ok :: "fs_t \<Rightarrow> nat list \<Rightarrow> bool" where
  "blocos_ok fs bs \<longleftrightarrow>
     distinct bs \<and> (\<forall>b \<in> set bs. 10 \<le> b \<and> b < unat (num_blocks (bks fs)) \<and> ocupado (blk_bmap fs) b)"

definition ficheiro :: "fs_t \<Rightarrow> nat \<Rightarrow> bool" where
  "ficheiro fs f \<longleftrightarrow>
     f < ITAB_SIZE \<and> ocupado (inode_bmap fs) f \<and> itype (inode_tab fs ! f) = FS_FILE \<and>
     unat (isize (inode_tab fs ! f)) \<le> 5120 \<and> blocos_ok fs (blocos fs f)"

text \<open>Room in the cache for a set of blocks and \<open>r\<close> more, without an eviction.\<close>

definition espaco :: "cache_t \<Rightarrow> nat set \<Rightarrow> nat \<Rightarrow> bool" where
  "espaco c B r \<longleftrightarrow> finite B \<and>
     numeroNosUtilizados c + int (card (int ` B - dom (mapa (tabela c)))) + int r \<le> numeroMaxNos c"

text \<open>The cache between two accesses; what an access to the blocks \<open>B\<close> leaves alone.\<close>

definition mesma_cache :: "nat set \<Rightarrow> cache_t \<Rightarrow> cache_t \<Rightarrow> bool" where
  "mesma_cache B c c' \<longleftrightarrow>
     cache_ok c' \<and> semente c' \<and> num_blocks (disco c') = num_blocks (disco c) \<and>
     (\<forall>k. k \<notin> int ` B \<longrightarrow> vista c' k = vista c k) \<and>
     dom (mapa (tabela c')) \<subseteq> dom (mapa (tabela c)) \<union> int ` B \<and>
     (\<forall>D r. B \<subseteq> D \<longrightarrow> espaco c D r \<longrightarrow> espaco c' D r)"

lemma mesma_cacheD:
  assumes "mesma_cache B c c'"
  shows "cache_ok c'" "semente c'" "num_blocks (disco c') = num_blocks (disco c)"
    "\<And>k. k \<notin> int ` B \<Longrightarrow> vista c' k = vista c k"
    "dom (mapa (tabela c')) \<subseteq> dom (mapa (tabela c)) \<union> int ` B"
    "\<And>D r. B \<subseteq> D \<Longrightarrow> espaco c D r \<Longrightarrow> espaco c' D r"
  using assms unfolding mesma_cache_def by blast+

lemma mesma_refl: "cache_ok c \<Longrightarrow> semente c \<Longrightarrow> mesma_cache B c c"
  unfolding mesma_cache_def by blast

lemma mesma_trans:
  assumes a: "mesma_cache B c c'" and b: "mesma_cache B c' c''"
  shows "mesma_cache B c c''"
proof -
  note a = mesma_cacheD[OF a] and b = mesma_cacheD[OF b]
  have v: "vista c'' k = vista c k" if "k \<notin> int ` B" for k using a(4)[OF that] b(4)[OF that] by (rule trans[rotated])
  have d: "dom (mapa (tabela c'')) \<subseteq> dom (mapa (tabela c)) \<union> int ` B" using a(5) b(5) by blast
  have "num_blocks (disco c'') = num_blocks (disco c)" using a(3) b(3) by (rule trans[rotated])
  then show ?thesis unfolding mesma_cache_def using v d a(6) b(1,2,6) by blast
qed

lemma mesma_maior:
  assumes "mesma_cache B c c'" "B \<subseteq> D"
  shows "mesma_cache D c c'"
proof -
  note a = mesma_cacheD[OF assms(1)]
  have "dom (mapa (tabela c')) \<subseteq> dom (mapa (tabela c)) \<union> int ` D" using a(5) assms(2) by blast
  moreover have "vista c' k = vista c k" if "k \<notin> int ` D" for k using a(4)[of k] that assms(2) by blast
  ultimately show ?thesis unfolding mesma_cache_def using a(1-3,6) assms(2) by blast
qed

lemma espaco_cabe:
  assumes "espaco c B r" "b \<in> B"
  shows "cabe c (int b)"
proof (cases "mapa (tabela c) (int b) = None")
  case True
  then have "int b \<in> int ` B - dom (mapa (tabela c))" using assms by auto
  then have "0 < card (int ` B - dom (mapa (tabela c)))" using assms by (auto simp: espaco_def card_gt_0_iff)
  then show ?thesis using assms by (simp add: espaco_def cabe_def)
qed (simp add: cabe_def)

lemma espaco_segue:
  assumes s: "segue c (int b) c'" and e: "espaco c B r" "b \<in> B"
  shows "espaco c' B r"
proof -
  have d: "dom (mapa (tabela c')) = insert (int b) (dom (mapa (tabela c)))"
    "numeroMaxNos c' = numeroMaxNos c"
    "numeroNosUtilizados c' = numeroNosUtilizados c + (if int b \<in> dom (mapa (tabela c)) then 0 else 1)"
    using s by (simp_all add: segue_def)
  define D where "D = int ` B - dom (mapa (tabela c))"
  have f: "finite D" using e by (simp add: espaco_def D_def)
  have D: "int ` B - dom (mapa (tabela c')) = D - {int b}" unfolding d(1) D_def by auto
  have n: "numeroNosUtilizados c + int (card D) + int r \<le> numeroMaxNos c" "finite B"
    using e by (simp_all add: espaco_def D_def)
  have "numeroNosUtilizados c' + int (card (D - {int b})) = numeroNosUtilizados c + int (card D)"
  proof (cases "int b \<in> dom (mapa (tabela c))")
    case True
    then have "D - {int b} = D" by (auto simp: D_def)
    then show ?thesis using d(3) True by simp
  next
    case False
    then have "int b \<in> D" using e by (auto simp: D_def)
    then have "card D = Suc (card (D - {int b}))" using f by (metis card_Suc_Diff1)
    then show ?thesis using d(3) False by simp
  qed
  then show ?thesis unfolding espaco_def D d(2) using n by simp
qed

lemma espaco_mais: "espaco c B (Suc r) \<Longrightarrow> espaco c (insert b B) r"
proof -
  assume e: "espaco c B (Suc r)"
  let ?D = "dom (mapa (tabela c))"
  have "int ` insert b B - ?D \<subseteq> insert (int b) (int ` B - ?D)" by auto
  then have "card (int ` insert b B - ?D) \<le> card (insert (int b) (int ` B - ?D))"
    using e by (intro card_mono) (auto simp: espaco_def)
  also have "\<dots> \<le> Suc (card (int ` B - ?D))" using e by (simp add: card_insert_if espaco_def)
  finally have "card (int ` insert b B - ?D) \<le> Suc (card (int ` B - ?D))" .
  then show ?thesis using e by (simp add: espaco_def)
qed

lemma espaco_menos: "espaco c D r \<Longrightarrow> B \<subseteq> D \<Longrightarrow> q \<le> r \<Longrightarrow> espaco c B q"
proof -
  assume e: "espaco c D r" and b: "B \<subseteq> D" "q \<le> r"
  have "card (int ` B - dom (mapa (tabela c))) \<le> card (int ` D - dom (mapa (tabela c)))"
    using e b by (intro card_mono) (auto simp: espaco_def)
  then show ?thesis using e b by (auto simp: espaco_def intro: finite_subset)
qed

lemma sint_bloco: "b < 4096 \<Longrightarrow> sint (of_nat b :: 32 word) = int b" "b < 4096 \<Longrightarrow> unat (of_nat b :: 32 word) = b"
proof -
  assume b: "b < 4096"
  then show u: "unat (of_nat b :: 32 word) = b" by (simp add: unsigned_of_nat take_bit_nat_eq_self)
  show "sint (of_nat b :: 32 word) = int b"
    using b by (simp add: signed_of_nat signed_take_bit_int_eq_self)
qed

lemma sint_unat: "unat (w :: 32 word) < 4096 \<Longrightarrow> sint w = int (unat w)"
  using sint_bloco(1)[of "unat w"] by simp

section \<open>Access to a block\<close>

lemma ler_c_ok:
  assumes "cache_ok (cache fs)" "semente (cache fs)" "espaco (cache fs) B r" "unat w \<in> B"
    "unat w < unat (num_blocks (bks fs))" "unat (num_blocks (bks fs)) \<le> 4096"
  shows "\<exists>c'. ler_c fs w = Inr (vista (cache fs) (int (unat w)), fs\<lparr>cache := c'\<rparr>) \<and> mesma_cache {unat w} (cache fs) c' \<and>
    vista c' = vista (cache fs)"
proof -
  have s: "sint w = int (unat w)" by (rule sint_unat) (use assms in linarith)
  have b: "bloco_valido (cache fs) (int (unat w))" using assms by (simp add: bloco_valido_def bks_def)
  obtain c' where c': "lerCache (cache fs) (int (unat w)) = Inr (vista (cache fs) (int (unat w)), c')"
    "segue (cache fs) (int (unat w)) c'" "vista c' = vista (cache fs)"
    using lerCache_vista[OF assms(1,2) b espaco_cabe[OF assms(3,4)]] by blast
  have "mesma_cache {unat w} (cache fs) c'"
    using c'(2,3) espaco_segue[OF c'(2)] assms(2) by (auto simp: mesma_cache_def segue_def semente_def)
  then show ?thesis using c' s by (auto simp: ler_c_def)
qed

lemma escrever_c_ok:
  assumes "cache_ok (cache fs)" "semente (cache fs)" "espaco (cache fs) B r" "unat w \<in> B"
    "unat w < unat (num_blocks (bks fs))" "unat (num_blocks (bks fs)) \<le> 4096" "length x = BLOCK_SIZE"
  shows "\<exists>c'. escrever_c fs w x = Inr (fs\<lparr>cache := c'\<rparr>) \<and> mesma_cache {unat w} (cache fs) c' \<and>
    vista c' = (vista (cache fs))(int (unat w) := x)"
proof -
  have s: "sint w = int (unat w)" by (rule sint_unat) (use assms in linarith)
  have b: "bloco_valido (cache fs) (int (unat w))" using assms by (simp add: bloco_valido_def bks_def)
  obtain c' where c': "escreverCache (cache fs) (int (unat w)) x = Inr (0, c')"
    "segue (cache fs) (int (unat w)) c'" "vista c' = (vista (cache fs))(int (unat w) := x)"
    using escreverCache_vista[OF assms(1,2) b espaco_cabe[OF assms(3,4)] assms(7)] by blast
  have "mesma_cache {unat w} (cache fs) c'"
    using c'(2,3) espaco_segue[OF c'(2)] assms(2) by (auto simp: mesma_cache_def segue_def semente_def)
  then show ?thesis using c' s by (auto simp: escrever_c_def)
qed

section \<open>Reading a file\<close>

lemma vista_bloco_length:
  "cache_ok c \<Longrightarrow> b < unat (num_blocks (disco c)) \<Longrightarrow> length (vista c (int b)) = 512"
  using vista_length[of c "int b"] by (simp add: bloco_valido_def BLOCK_SIZE_def)

lemma read_aux_ok:
  assumes "bs = map unat (take used (iblocks ifile))" "length bs = used" "used \<le> 10" "length (iblocks ifile) = 10"
    "itype ifile = FS_FILE" "\<forall>b \<in> set bs. b < unat (num_blocks (bks fs))" "unat (num_blocks (bks fs)) \<le> 4096"
    "cache_ok (cache fs)" "semente (cache fs)" "espaco (cache fs) (set bs) r" "off + m \<le> 512 * used"
    "ac = take (length ac) (drop off (bytes (cache fs) bs))" "length ac \<le> m"
    "ac = [] \<longrightarrow> iblock = off div 512" "ac \<noteq> [] \<longrightarrow> off + length ac = 512 * iblock \<or> length ac = m"
  shows "\<exists>c'. read_aux fs ifile off (int m) iblock used tbl block ac =
      Inr (take m (drop off (bytes (cache fs) bs)), fs\<lparr>cache := c'\<rparr>) \<and>
    mesma_cache (set bs) (cache fs) c' \<and> vista c' = vista (cache fs)"
  using assms
proof (induction "used - iblock" arbitrary: fs iblock tbl block ac)
  case 0
  then have u: "used \<le> iblock" by simp
  have "\<not> length ac < m"
  proof
    assume l: "length ac < m"
    show False
    proof (cases "ac = []")
      case True
      then have "512 * used \<le> 512 * (off div 512)" using u "0.prems"(14) by simp
      also have "\<dots> \<le> off" by simp
      finally show False using l "0.prems"(11) True by simp
    next
      case False
      then have "512 * used \<le> off + length ac" using u "0.prems"(15) l by simp
      then show False using l "0.prems"(11) by simp
    qed
  qed
  then have "length ac = m" using "0.prems"(13) by simp
  then have "read_aux fs ifile off (int m) iblock used tbl block ac = Inr (ac, fs)" "ac = take m (drop off (bytes (cache fs) bs))"
    using "0.prems"(12) by (simp_all add: read_aux.simps)
  then show ?case using mesma_refl[OF "0.prems"(8,9), of "set bs"] by (intro exI[of _ "cache fs"]) simp
next
  case (Suc n)
  note P = Suc.prems
  have u: "iblock < used" using Suc.hyps(2) by simp
  show ?case
  proof (cases "length ac < m")
    case False
    then have l: "length ac = m" using P(13) by simp
    then have "read_aux fs ifile off (int m) iblock used tbl block ac = Inr (ac, fs)" "ac = take m (drop off (bytes (cache fs) bs))"
      using P(12) by (simp_all add: read_aux.simps)
    then show ?thesis using mesma_refl[OF P(8,9), of "set bs"] by (intro exI[of _ "cache fs"]) simp
  next
    case True
    let ?w = "iblocks ifile ! iblock"
    have b: "bs ! iblock = unat ?w" using P(1,2) u by simp
    have bin: "unat ?w \<in> set bs" using b u P(2) by (metis nth_mem)
    obtain c1 where c1: "ler_c fs ?w = Inr (vista (cache fs) (int (unat ?w)), fs\<lparr>cache := c1\<rparr>)"
      "mesma_cache {unat ?w} (cache fs) c1" "vista c1 = vista (cache fs)"
      using ler_c_ok[OF P(8,9,10) bin _ P(7)] P(6) bin by blast
    let ?C = "bytes (cache fs) bs"
    define start where "start = (if ac = [] then off mod 512 else 0)"
    define num where "num = min (512 - start) (m - length ac)"
    have st: "512 * iblock + start = off + length ac"
      using P(14,15) True by (auto simp: start_def)
    have sl: "start < 512" by (simp add: start_def)
    have lv: "\<And>b. b \<in> set bs \<Longrightarrow> length (vista (cache fs) (int b)) = 512"
      using P(6,8) vista_bloco_length by (simp add: bks_def)
    have "take num (drop start (vista (cache fs) (int (unat ?w)))) = take num (drop (512 * iblock + start) ?C)"
      unfolding bytes_def using concat_pedaco[of bs "\<lambda>b. vista (cache fs) (int b)" 512 iblock start num] lv u P(2) b sl
      by (simp add: num_def)
    then have pc: "take num (drop start (vista (cache fs) (int (unat ?w)))) = take num (drop (off + length ac) ?C)" using st by simp
    have lC: "length ?C = 512 * used" unfolding bytes_def using length_concat_blocos[of bs "\<lambda>b. vista (cache fs) (int b)" 512] lv P(2) by simp
    define ac' where "ac' = ac @ take num (drop start (vista (cache fs) (int (unat ?w))))"
    have la: "length ac' = length ac + num" using pc lC P(11) True by (simp add: ac'_def num_def)
    have "ac' = take (length ac) (drop off ?C) @ take num (drop (length ac) (drop off ?C))"
      using pc P(12) by (simp add: ac'_def add.commute)
    then have ac': "ac' = take (length ac') (drop off ?C)" unfolding la by (simp add: take_add)
    have np: "0 < num" using sl True by (simp add: num_def)
    have nx: "off + length ac' = 512 * (iblock + 1) \<or> length ac' = m" using la st sl True by (auto simp: num_def min_def)
    have nd: "nat (int m - int (length ac)) = m - length ac" by simp
    have step: "read_aux fs ifile off (int m) iblock used tbl block ac =
      read_aux (fs\<lparr>cache := c1\<rparr>) ifile off (int m) (iblock + 1) used (Some iblock) (vista (cache fs) (int (unat ?w))) ac'"
      using True u c1(1) P(3,4,5)
      by (subst read_aux.simps) (simp add: INODE_NUM_BLKS_def ler_tipo_def Let_def ac'_def num_def start_def BLOCK_SIZE_def nd)
    note d = mesma_cacheD[OF c1(2)]
    have bq: "bytes c1 bs = ?C" using c1(3) by (simp add: bytes_def)
    have "\<exists>c'. read_aux (fs\<lparr>cache := c1\<rparr>) ifile off (int m) (iblock + 1) used (Some iblock) (vista (cache fs) (int (unat ?w))) ac' =
      Inr (take m (drop off (bytes (cache (fs\<lparr>cache := c1\<rparr>)) bs)), fs\<lparr>cache := c1\<rparr>\<lparr>cache := c'\<rparr>) \<and>
      mesma_cache (set bs) (cache (fs\<lparr>cache := c1\<rparr>)) c' \<and> vista c' = vista (cache (fs\<lparr>cache := c1\<rparr>))"
    proof (rule Suc.hyps(1))
      show "n = used - (iblock + 1)" using Suc.hyps(2) by simp
      show "espaco (cache (fs\<lparr>cache := c1\<rparr>)) (set bs) r" using d(6)[OF _ P(10)] bin by simp
      show "\<forall>b \<in> set bs. b < unat (num_blocks (bks (fs\<lparr>cache := c1\<rparr>)))" "unat (num_blocks (bks (fs\<lparr>cache := c1\<rparr>))) \<le> 4096"
        using P(6,7) d(3) by (simp_all add: bks_def)
      show "cache_ok (cache (fs\<lparr>cache := c1\<rparr>))" "semente (cache (fs\<lparr>cache := c1\<rparr>))" using d(1,2) by simp_all
      show "ac' = take (length ac') (drop off (bytes (cache (fs\<lparr>cache := c1\<rparr>)) bs))" using ac' bq by simp
      show "length ac' \<le> m" using la True by (simp add: num_def)
      show "ac' = [] \<longrightarrow> iblock + 1 = off div 512" using la np by auto
      show "ac' \<noteq> [] \<longrightarrow> off + length ac' = 512 * (iblock + 1) \<or> length ac' = m" using nx by blast
    qed (use P(1-5,11) in blast)+
    then obtain c' where c': "read_aux (fs\<lparr>cache := c1\<rparr>) ifile off (int m) (iblock + 1) used (Some iblock) (vista (cache fs) (int (unat ?w))) ac' =
      Inr (take m (drop off ?C), fs\<lparr>cache := c'\<rparr>)" "mesma_cache (set bs) c1 c'" "vista c' = vista (cache fs)"
      using bq c1(3) by auto
    have "mesma_cache (set bs) (cache fs) c1" using mesma_maior[OF c1(2)] bin by simp
    then show ?thesis using step c' mesma_trans by fastforce
  qed
qed

text \<open>The blocks of a file of at most ten blocks.\<close>

lemma div512: "n div 512 + (if n mod 512 \<noteq> 0 then 1 else 0) = (n + 511) div (512 :: nat)"
proof -
  have "n + 511 = 512 * (n div 512) + (n mod 512 + 511)" by simp
  then have "(n + 511) div 512 = n div 512 + (n mod 512 + 511) div 512" by (metis div_mult_self4 zero_neq_numeral)
  moreover have "(n mod 512 + 511) div 512 = (if n mod 512 \<noteq> 0 then 1 else 0)"
    using mod_less_divisor[of 512 n] by (auto simp: div_nat_eqI)
  ultimately show ?thesis by simp
qed
lemma sint_pequeno: "unat (w :: 32 word) < 2 ^ 31 \<Longrightarrow> sint w = int (unat w)"
proof -
  assume w: "unat w < 2 ^ 31"
  then have "int (unat w) < int (2 ^ 31)" by (simp only: of_nat_less_iff)
  then have "uint w < 2 ^ 31" by simp
  moreover have "- (2 ^ 31) \<le> uint w" by (rule order.trans[OF _ uint_ge_0]) simp
  ultimately have "sint w = uint w" unfolding sint_uint by (intro signed_take_bit_int_eq_self) simp_all
  then show ?thesis by simp
qed

lemma OFFSET_TO_BLOCKS_ok: "OFFSET_TO_BLOCKS w = (unat w + 511) div 512"
proof -
  have m: "unat (w mod 512) = unat w mod 512" and d: "unat (w div 512) = unat w div 512" by (simp_all add: unat_mod unat_div)
  have p: "w mod 512 > 0 \<longleftrightarrow> unat w mod 512 \<noteq> 0"
    unfolding m[symmetric] by (simp only: word_greater_zero_iff unat_eq_0)
  show ?thesis using div512[of "unat w"] unfolding OFFSET_TO_BLOCKS_def d p .
qed

lemma inode_do_ficheiro:
  assumes "fs_ok fs" "f < ITAB_SIZE"
  shows "length (iblocks (inode_tab fs ! f)) = 10" "f < length (inode_tab fs)" "length (inode_bmap fs) = 512" "length (blk_bmap fs) = 512"
proof -
  have t: "tab_ok (inode_tab fs)" using assms(1) by (simp add: fs_ok_def fs_meta_def)
  then show "f < length (inode_tab fs)" using assms(2) by (simp add: tab_ok_def)
  then have "inode_ok (inode_tab fs ! f)" using t by (simp add: tab_ok_def)
  then show "length (iblocks (inode_tab fs ! f)) = 10" by (simp add: inode_ok_def INODE_NUM_BLKS_def)
  show "length (inode_bmap fs) = 512" "length (blk_bmap fs) = 512" using assms(1) by (simp_all add: fs_ok_def fs_meta_def BLOCK_SIZE_def)
qed

lemma blocos_length:
  assumes "fs_ok fs" "ficheiro fs f"
  shows "length (blocos fs f) = OFFSET_TO_BLOCKS (isize (inode_tab fs ! f))" "OFFSET_TO_BLOCKS (isize (inode_tab fs ! f)) \<le> 10"
    "unat (isize (inode_tab fs ! f)) \<le> 512 * length (blocos fs f)"
    "length (bytes (cache fs) (blocos fs f)) = 512 * length (blocos fs f)"
    "length (conteudo_f fs f) = unat (isize (inode_tab fs ! f))"
proof -
  have s: "unat (isize (inode_tab fs ! f)) \<le> 5120" "f < ITAB_SIZE" using assms(2) by (simp_all add: ficheiro_def)
  show t: "OFFSET_TO_BLOCKS (isize (inode_tab fs ! f)) \<le> 10" using s(1) by (simp add: OFFSET_TO_BLOCKS_ok)
  then show l: "length (blocos fs f) = OFFSET_TO_BLOCKS (isize (inode_tab fs ! f))"
    using inode_do_ficheiro(1)[OF assms(1) s(2)] by (simp add: blocos_def)
  then show m: "unat (isize (inode_tab fs ! f)) \<le> 512 * length (blocos fs f)" by (simp add: OFFSET_TO_BLOCKS_ok)
  have "length (vista (cache fs) (int b)) = 512" if "b \<in> set (blocos fs f)" for b
    using that assms by (intro vista_bloco_length) (auto simp: ficheiro_def blocos_ok_def bks_def fs_ok_def)
  then show b: "length (bytes (cache fs) (blocos fs f)) = 512 * length (blocos fs f)"
    unfolding bytes_def by (rule length_concat_blocos)
  then show "length (conteudo_f fs f) = unat (isize (inode_tab fs ! f))" using m by (simp add: conteudo_f_def)
qed

lemma fs_read_ok:
  assumes ok: "fs_ok fs" and f: "ficheiro fs (unat file)" and e: "espaco (cache fs) (set (blocos fs (unat file))) r"
  shows "\<exists>c' p. fs_read fs file off cnt =
      Inr (0, Some (take (unat cnt) (drop (unat off) (conteudo_f fs (unat file)))),
        fs\<lparr>cache := c', leitores := 0, turno := ESCRITA, n_pilha := p\<rparr>) \<and>
    mesma_cache (set (blocos fs (unat file))) (cache fs) c' \<and> vista c' = vista (cache fs)"
proof -
  let ?f = "unat file" and ?i = "inode_tab fs ! unat file"
  have F: "?f < ITAB_SIZE" "ocupado (inode_bmap fs) ?f" "itype ?i = FS_FILE" "unat (isize ?i) \<le> 5120" "blocos_ok fs (blocos fs ?f)"
    using f by (auto simp: ficheiro_def)
  have l: "livre fs" "cache_ok (cache fs)" "semente (cache fs)" "unat (num_blocks (bks fs)) \<le> 4096" using ok by (simp_all add: fs_ok_def)
  note i = inode_do_ficheiro[OF ok F(1)] and b = blocos_length[OF ok f]
  have li: "leitores fs = 0" using l(1) by (simp add: livre_def)
  obtain fs1 where f1: "iniciaLeitura fs = Inr fs1" "fs1 = fs\<lparr>leitores := 1, turno := ESCRITA\<rparr>" using leitura_livre[OF l(1)] by blast
  have bi: "?f < 8 * length (inode_bmap fs)" using F(1) i(3) by (simp add: ITAB_SIZE_def)
  show ?thesis
  proof (cases "isize ?i \<le> off")
    case True
    then have "unat (isize ?i) \<le> unat off" by (simp add: word_le_nat_alt)
    then have "drop (unat off) (conteudo_f fs ?f) = []" using b(5) by simp
    moreover have "fs_read fs file off cnt = Inr (0, Some [], terminaLeitura fs1)"
      using f1 F bi i True by (simp add: fs_read_def inode_em_def)
    ultimately show ?thesis using f1(2) mesma_refl[OF l(2,3)]
      by (intro exI[of _ "cache fs"] exI[of _ "n_pilha fs"]) (simp add: terminaLeitura_def)
  next
    case False
    then have o: "off < isize ?i" "unat off < unat (isize ?i)" by (simp_all add: not_le word_less_nat_alt)
    let ?m = "min (unat cnt) (unat (isize ?i) - unat off)"
    have m0: "unat (min cnt (isize ?i - off)) = ?m"
      using o unat_sub[of off "isize ?i"] by (simp add: min_def word_le_nat_alt)
    have m: "sint (min cnt (isize ?i - off)) = int ?m"
    proof -
      have "?m \<le> 5120" using F(4) by linarith
      then have "unat (min cnt (isize ?i - off)) < 2 ^ 31" unfolding m0 by (rule order.strict_trans1) simp
      then show ?thesis using m0 sint_pequeno by metis
    qed
    define fs2 where "fs2 = fs1\<lparr>n_pilha := n_pilha fs1 + 1\<rparr>"
    have c2: "cache fs2 = cache fs" "bks fs2 = bks fs" using f1(2) by (simp_all add: fs2_def bks_def)
    have "\<exists>c'. read_aux fs2 ?i (unat off) (int ?m) (unat off div 512) (length (blocos fs ?f)) None (pilha fs1 (n_pilha fs1)) [] =
      Inr (take ?m (drop (unat off) (bytes (cache fs2) (blocos fs ?f))), fs2\<lparr>cache := c'\<rparr>) \<and>
      mesma_cache (set (blocos fs ?f)) (cache fs2) c' \<and> vista c' = vista (cache fs2)"
      by (rule read_aux_ok[where r = r])
         (use b i F(3,5) l e o(2) in \<open>auto simp: c2 blocos_def blocos_ok_def\<close>)
    then obtain c' where c': "read_aux fs2 ?i (unat off) (int ?m) (unat off div 512) (length (blocos fs ?f)) None (pilha fs1 (n_pilha fs1)) [] =
      Inr (take ?m (drop (unat off) (bytes (cache fs) (blocos fs ?f))), fs2\<lparr>cache := c'\<rparr>)"
      "mesma_cache (set (blocos fs ?f)) (cache fs) c'" "vista c' = vista (cache fs)" unfolding c2(1) by blast
    have d: "take ?m (drop (unat off) (bytes (cache fs) (blocos fs ?f))) = take (unat cnt) (drop (unat off) (conteudo_f fs ?f))"
      by (simp add: conteudo_f_def drop_take)
    have f2: "fs2 = fs\<lparr>leitores := 1, turno := ESCRITA, n_pilha := Suc (n_pilha fs)\<rparr>" using f1(2) by (simp add: fs2_def)
    have "unat (off div 512) = unat off div 512" by (simp add: unat_div)
    then have "fs_read fs file off cnt = Inr (0, Some (take (unat cnt) (drop (unat off) (conteudo_f fs ?f))), terminaLeitura (fs2\<lparr>cache := c'\<rparr>))"
      using f1 F bi i False c'(1) m b(1) unfolding d
      by (simp add: fs_read_def inode_em_def novo_buf_def Let_def f2[symmetric])
    then show ?thesis using c'(2,3) f1(2)
      by (intro exI[of _ c'] exI[of _ "n_pilha fs + 1"]) (simp add: terminaLeitura_def fs2_def)
  qed
qed

end
