(* ===== verification/FsEscrita.thy ===== *)
theory FsEscrita
  imports FsLeitura
begin

text \<open>
  fs_write as an update of the content of a file: the blocks the file lacks are reserved, the
  first loop keeps the bytes around the written ones, the second fills new blocks, and the
  metadata goes to the disk.  \<open>pronto\<close> says that the file can grow: its blocks are its own, there
  are free blocks, and the cache has room.
\<close>

section \<open>Reserving blocks\<close>

definition blocos_livres :: "fs_t \<Rightarrow> nat set" where
  "blocos_livres fs = {b. b < unat (num_blocks (bks fs)) \<and> \<not> ocupado (blk_bmap fs) b}"

lemma blocos_livres_finito [simp]: "finite (blocos_livres fs)"
  by (simp add: blocos_livres_def)

lemma poe_iblock_ok:
  "f < length (inode_tab fs) \<Longrightarrow> k < length (iblocks (inode_tab fs ! f)) \<Longrightarrow>
   poe_iblock fs f k w = Inr (fs\<lparr>inode_tab := (inode_tab fs)[f := (inode_tab fs ! f)\<lparr>iblocks := (iblocks (inode_tab fs ! f))[k := w]\<rparr>]\<rparr>)"
  by (simp add: poe_iblock_def inode_em_def poe_inode_def)

lemma muda_ref_ok: "b < length (referencias fs) \<Longrightarrow> muda_ref fs b g = Inr (fs\<lparr>referencias := (referencias fs)[b := g (referencias fs ! b)]\<rparr>)"
  by (simp add: muda_ref_def)

lemma reserva_ok:
  assumes "f < length (inode_tab fs)" "length (iblocks (inode_tab fs ! f)) = 10" "i + n \<le> 10"
    "unat (num_blocks (bks fs)) \<le> 4096" "length (blk_bmap fs) = 512" "length (referencias fs) = unat (num_blocks (bks fs))"
    "\<forall>b < unat (num_blocks (bks fs)). \<not> ocupado (blk_bmap fs) b \<longrightarrow> referencias fs ! b = 0" "n \<le> card (blocos_livres fs)"
  shows "\<exists>ns bm rf. reserva fs f i n = Inr (True, fs\<lparr>inode_tab := (inode_tab fs)[f := (inode_tab fs ! f)
        \<lparr>iblocks := take i (iblocks (inode_tab fs ! f)) @ map of_nat ns @ drop (i + n) (iblocks (inode_tab fs ! f))\<rparr>],
        blk_bmap := bm, referencias := rf\<rparr>) \<and>
    length ns = n \<and> distinct ns \<and> set ns \<subseteq> blocos_livres fs \<and> length bm = 512 \<and> length rf = length (referencias fs) \<and>
    (\<forall>b < 4096. ocupado bm b = (b \<in> set ns \<or> ocupado (blk_bmap fs) b)) \<and>
    (\<forall>b < length rf. rf ! b = (if b \<in> set ns then 1 else referencias fs ! b))"
  using assms
proof (induction n arbitrary: fs i)
  case 0
  then show ?case by (intro exI[of _ "[]"] exI[of _ "blk_bmap fs"] exI[of _ "referencias fs"]) simp
next
  case (Suc n)
  note P = Suc.prems
  let ?nb = "unat (num_blocks (bks fs))" and ?I = "inode_tab fs ! f"
  have "blocos_livres fs \<noteq> {}" using P(8) by (metis card.empty not_less_eq_eq le0)
  then obtain b0 where "b0 < ?nb" "\<not> ocupado (blk_bmap fs) b0" by (auto simp: blocos_livres_def)
  then obtain b where b: "blk_livre fs = Inr (Some b)" "b < ?nb" "\<not> ocupado (blk_bmap fs) b"
    using fsi_bmap_find_free_ok[of ?nb "blk_bmap fs"] P(4,5)
    by (auto simp: blk_livre_def block_num_blocks_def split: option.splits)
  obtain bm where bm: "BMAP_SET (blk_bmap fs) b = Inr bm" "length bm = 512"
    "\<forall>j < 4096. ocupado bm j = (j = b \<or> ocupado (blk_bmap fs) j)"
    using BMAP_SET_ok[of b "blk_bmap fs"] b(2) P(4,5) by auto
  define fs1 where "fs1 = fs\<lparr>inode_tab := (inode_tab fs)[f := ?I\<lparr>iblocks := (iblocks ?I)[i := of_nat b]\<rparr>],
    blk_bmap := bm, referencias := (referencias fs)[b := 1]\<rparr>"
  have c1: "bks fs1 = bks fs" by (simp add: fs1_def bks_def)
  have run: "reserva fs f i (Suc n) = reserva fs1 f (i + 1) n"
    using b bm(1) P(1-3,6,7) poe_iblock_ok[OF P(1), of i] muda_ref_ok[of b]
    by (simp add: ocupa_blk_def fs1_def)
  have bl: "blocos_livres fs1 = blocos_livres fs - {b}"
    using bm(3) P(4) by (auto simp: blocos_livres_def c1) (auto simp: fs1_def)
  have "b \<in> blocos_livres fs" using b by (simp add: blocos_livres_def)
  then have "n \<le> card (blocos_livres fs1)" unfolding bl using P(8) by simp
  moreover have "\<forall>b' < ?nb. \<not> ocupado (blk_bmap fs1) b' \<longrightarrow> referencias fs1 ! b' = 0"
    using bm(3) P(4,7) by (auto simp: fs1_def nth_list_update)
  moreover have i1: "inode_tab fs1 ! f = ?I\<lparr>iblocks := (iblocks ?I)[i := of_nat b]\<rparr>" using P(1) by (simp add: fs1_def)
  ultimately obtain ns bm' rf where ns: "reserva fs1 f (i + 1) n = Inr (True, fs1\<lparr>inode_tab := (inode_tab fs1)[f := (inode_tab fs1 ! f)
        \<lparr>iblocks := take (i + 1) (iblocks (inode_tab fs1 ! f)) @ map of_nat ns @ drop (i + 1 + n) (iblocks (inode_tab fs1 ! f))\<rparr>],
        blk_bmap := bm', referencias := rf\<rparr>)"
    "length ns = n" "distinct ns" "set ns \<subseteq> blocos_livres fs1" "length bm' = 512" "length rf = length (referencias fs1)"
    "\<forall>b < 4096. ocupado bm' b = (b \<in> set ns \<or> ocupado (blk_bmap fs1) b)"
    "\<forall>b < length rf. rf ! b = (if b \<in> set ns then 1 else referencias fs1 ! b)"
    using Suc.IH[of fs1 "i + 1"] P(1-6) bm(2) c1 by (auto simp: fs1_def)
  have t: "take (Suc i) ((iblocks ?I)[i := of_nat b]) = take i (iblocks ?I) @ [of_nat b]"
    using P(2,3) by (simp add: take_Suc_conv_app_nth)
  have "reserva fs f i (Suc n) = Inr (True, fs\<lparr>inode_tab := (inode_tab fs)[f := ?I
        \<lparr>iblocks := take i (iblocks ?I) @ map of_nat (b # ns) @ drop (i + Suc n) (iblocks ?I)\<rparr>],
        blk_bmap := bm', referencias := rf\<rparr>)"
    using run ns(1) i1 t by (simp add: fs1_def)
  moreover have "distinct (b # ns)" using ns(3,4) bl by auto
  moreover have "set (b # ns) \<subseteq> blocos_livres fs" using ns(4) bl \<open>b \<in> blocos_livres fs\<close> by auto
  moreover have "\<forall>j < 4096. ocupado bm' j = (j \<in> set (b # ns) \<or> ocupado (blk_bmap fs) j)"
    using ns(7) bm(3) by (auto simp: fs1_def)
  moreover have "\<forall>j < length rf. rf ! j = (if j \<in> set (b # ns) then 1 else referencias fs ! j)"
    using ns(6,8) b(2) P(6) by (auto simp: fs1_def nth_list_update)
  moreover have "length (b # ns) = Suc n" "length rf = length (referencias fs)" using ns(2,6) by (simp_all add: fs1_def)
  ultimately show ?case using ns(5) by blast
qed

section \<open>Writing blocks\<close>

text \<open>A block with one reference is written in place.\<close>

lemma escreverBloco_proprio:
  assumes "unat w < length (referencias fs)" "referencias fs ! unat w = 1" "f < length (inode_tab fs)" "itype (inode_tab fs ! f) = FS_FILE"
  shows "escreverBloco fs w f x = escrever_c fs w x"
  using assms by (simp add: escreverBloco_def copy_on_write_def inode_em_def Let_def FS_FILE_def FS_DIR_def)

lemma bytes_muda:
  assumes "\<And>b. b \<in> set bs \<Longrightarrow> length (vista c (int b)) = 512" "i < length bs" "distinct bs"
    "vista c' = (vista c)(int (bs ! i) := x)"
  shows "bytes c' bs = take (512 * i) (bytes c bs) @ x @ drop (512 * Suc i) (bytes c bs)"
proof -
  have "(\<lambda>b. vista c' (int b)) = (\<lambda>b. vista c (int b))(bs ! i := x)" unfolding assms(4) by auto
  then show ?thesis using concat_muda[of bs "\<lambda>b. vista c (int b)" 512 i x] assms(1-3) by (simp add: bytes_def)
qed

text \<open>A block \<open>B\<close> with a chunk put at \<open>s\<close>, in the place of block \<open>i\<close>.\<close>

lemma bytes_pedaco:
  assumes C: "length C = 512 * N" and i: "i < N" and B: "length B = 512" and s: "s + length ch \<le> 512"
    and C': "C' = take (512 * i) C @ poe_bytes B s ch @ drop (512 * Suc i) C"
    and k: "512 * i + s = k" and B0: "s = 0 \<or> B = take 512 (drop (512 * i) C)"
  shows "length C' = length C" "take (k + length ch) C' = take k C @ ch"
    "B = take 512 (drop (512 * i) C) \<Longrightarrow> drop (k + length ch) C' = drop (k + length ch) C"
proof -
  have l: "length (take (512 * i) C) = 512 * i" using C i by simp
  have lp: "length (poe_bytes B s ch) = 512" using B s by (simp add: poe_bytes_length)
  show "length C' = length C" using C i lp by (simp add: C')
  have "take (k + length ch) C' = take (512 * i) C @ take (s + length ch) (poe_bytes B s ch)"
    using l s lp unfolding C' k[symmetric] by (simp add: min_def)
  also have "take (s + length ch) (poe_bytes B s ch) = take s B @ ch" using B s by (simp add: poe_bytes_def)
  also have "take (512 * i) C @ take s B @ ch = take k C @ ch"
  proof -
    have "take s B = take s (drop (512 * i) C)" using B0 s by (auto simp: min_def)
    then show ?thesis unfolding k[symmetric] by (simp add: take_add)
  qed
  finally show "take (k + length ch) C' = take k C @ ch" .
  assume B1: "B = take 512 (drop (512 * i) C)"
  have "drop (k + length ch) C' = drop (s + length ch) (poe_bytes B s ch) @ drop (512 * Suc i) C"
    using l s lp unfolding C' k[symmetric] by simp
  also have "drop (s + length ch) (poe_bytes B s ch) = drop (s + length ch) B" using B s by (simp add: poe_bytes_def)
  also have "\<dots> @ drop (512 * Suc i) C = drop (s + length ch) (drop (512 * i) C)"
  proof -
    have "drop (512 * i) C = B @ drop (512 * Suc i) C" unfolding B1 by (metis append_take_drop_id drop_drop mult_Suc_right)
    then show ?thesis using B s by simp
  qed
  also have "\<dots> = drop (k + length ch) C" unfolding k[symmetric] by (simp add: ac_simps)
  finally show "drop (k + length ch) C' = drop (k + length ch) C" .
qed

section \<open>The writing loops\<close>

text \<open>
  \<open>bs\<close> are the blocks of the inode, \<open>C\<close> their bytes before the loop.  The first loop keeps the
  bytes behind the written ones, the second overwrites whole blocks with what the buffer holds.
\<close>

definition escrito :: "bool \<Rightarrow> byte list \<Rightarrow> byte list \<Rightarrow> nat \<Rightarrow> byte list \<Rightarrow> bool" where
  "escrito dentro C C' k ch \<longleftrightarrow>
     length C' = length C \<and> take (k + length ch) C' = take k C @ ch \<and>
     (dentro \<longrightarrow> drop (k + length ch) C' = drop (k + length ch) C)"

lemma escrito_nada: "k \<le> length C \<Longrightarrow> escrito dentro C C k []"
  by (simp add: escrito_def)

lemma escrito_mais:
  assumes "escrito dentro C C1 k c1" "escrito dentro C1 C2 (k + length c1) c2"
  shows "escrito dentro C C2 k (c1 @ c2)"
proof -
  have "drop (k + length (c1 @ c2)) C1 = drop (k + length (c1 @ c2)) C" if dentro
  proof -
    have "drop (length c2) (drop (k + length c1) C1) = drop (length c2) (drop (k + length c1) C)"
      using assms(1) that by (simp add: escrito_def)
    then show ?thesis by (simp add: ac_simps)
  qed
  then show ?thesis using assms by (auto simp: escrito_def ac_simps)
qed

definition proprios :: "fs_t \<Rightarrow> nat list \<Rightarrow> bool" where
  "proprios fs bs \<longleftrightarrow> (\<forall>b \<in> set bs. b < unat (num_blocks (bks fs)) \<and> referencias fs ! b = 1)"

lemma escreve_aux_ok:
  assumes "f < length (inode_tab fs)" "itype (inode_tab fs ! f) = FS_FILE" "length (iblocks (inode_tab fs ! f)) = 10"
    "bs = map unat (take (length bs) (iblocks (inode_tab fs ! f)))" "distinct bs" "length bs \<le> 10" "lim \<le> length bs"
    "proprios fs bs" "unat (num_blocks (bks fs)) \<le> 4096" "length (referencias fs) = unat (num_blocks (bks fs))"
    "cache_ok (cache fs)" "semente (cache fs)" "espaco (cache fs) (set bs) r"
    "m \<le> length data" "num \<le> m" "length block = 512" "off + num \<le> 512 * length bs"
    "num = m \<or> iblock \<le> lim \<and> 512 * iblock + (if dentro \<and> num = 0 then off mod 512 else 0) = off + num"
    "num = m \<or> off + num \<le> 512 * lim"
  shows "\<exists>c' iblock' pos' block' num'. escreve_aux dentro fs f off data m iblock lim pos block num =
      Inr (fs\<lparr>cache := c'\<rparr>, iblock', pos', block', num') \<and> mesma_cache (set bs) (cache fs) c' \<and>
      num \<le> num' \<and> num' \<le> m \<and> length block' = 512 \<and>
      (num' = m \<or> iblock' = lim \<and> off + num' = 512 * lim) \<and>
      escrito dentro (bytes (cache fs) bs) (bytes c' bs) (off + num) (take (num' - num) (drop num data))"
  using assms
proof (induction "lim - iblock" arbitrary: fs iblock pos block num)
  case 0
  note P = "0.prems"
  have d: "num = m \<or> iblock = lim \<and> off + num = 512 * lim"
    using P(18,19) "0.hyps" by (auto split: if_splits)
  then have "escreve_aux dentro fs f off data m iblock lim pos block num = Inr (fs, iblock, pos, block, num)"
    by (auto simp: escreve_aux.simps)
  moreover have "length (bytes (cache fs) bs) = 512 * length bs"
    unfolding bytes_def using P(8,11) by (intro length_concat_blocos vista_bloco_length) (auto simp: proprios_def bks_def)
  then have "escrito dentro (bytes (cache fs) bs) (bytes (cache fs) bs) (off + num) []"
    using P(17) by (intro escrito_nada) simp
  ultimately show ?case using d P(15,16) mesma_refl[OF P(11,12), of "set bs"]
    by (intro exI[of _ "cache fs"] exI[of _ iblock] exI[of _ pos] exI[of _ block] exI[of _ num]) simp
next
  case (Suc n)
  note P = Suc.prems
  have u: "iblock < lim" using Suc.hyps(2) by simp
  have lv: "\<And>b. b \<in> set bs \<Longrightarrow> length (vista (cache fs) (int b)) = 512"
    using P(8,11) vista_bloco_length by (simp add: proprios_def bks_def)
  have lC: "length (bytes (cache fs) bs) = 512 * length bs"
    unfolding bytes_def using lv by (rule length_concat_blocos)
  show ?case
  proof (cases "num < m")
    case False
    then have "escreve_aux dentro fs f off data m iblock lim pos block num = Inr (fs, iblock, pos, block, num)" "num = m"
      using P(15) by (auto simp: escreve_aux.simps)
    moreover have "escrito dentro (bytes (cache fs) bs) (bytes (cache fs) bs) (off + num) []"
      using P(17) lC by (intro escrito_nada) simp
    ultimately show ?thesis using P(15,16) mesma_refl[OF P(11,12), of "set bs"]
      by (intro exI[of _ "cache fs"] exI[of _ iblock] exI[of _ pos] exI[of _ block] exI[of _ num]) simp
  next
    case True
    let ?w = "iblocks (inode_tab fs ! f) ! iblock" and ?C = "bytes (cache fs) bs"
    have ib: "iblock < length bs" using u P(7) by simp
    have "bs ! iblock = map unat (take (length bs) (iblocks (inode_tab fs ! f))) ! iblock" by (rule arg_cong[OF P(4)])
    then have b: "bs ! iblock = unat ?w" using ib P(3,6) by simp
    have bin: "unat ?w \<in> set bs" using b ib by (metis nth_mem)
    have wn: "unat ?w < unat (num_blocks (bks fs))" "referencias fs ! unat ?w = 1" using P(8) bin by (auto simp: proprios_def)
    text \<open>The block the chunk goes into.\<close>
    obtain c1 B where c1: "(if dentro then ler_tipo fs (itype (inode_tab fs ! f)) ?w block else Inr (block, fs)) = Inr (B, fs\<lparr>cache := c1\<rparr>)"
      "mesma_cache {unat ?w} (cache fs) c1" "vista c1 = vista (cache fs)" "B = (if dentro then vista (cache fs) (int (unat ?w)) else block)"
    proof (cases dentro)
      case True
      then show ?thesis using that ler_c_ok[OF P(11,12,13) bin wn(1) P(9)] P(2) by (auto simp: ler_tipo_def)
    next
      case False
      then show ?thesis using that[of block "cache fs"] mesma_refl[OF P(11,12)] by simp
    qed
    note d1 = mesma_cacheD[OF c1(2)]
    have lB: "length B = 512" using c1(4) lv[OF bin] P(16) by simp
    define s where "s = (if dentro \<and> num = 0 then off mod 512 else 0)"
    define q where "q = min (512 - s) (m - num)"
    define ch where "ch = take q (drop num data)"
    have st: "512 * iblock + s = off + num" "s < 512" using P(18) True by (auto simp: s_def)
    have lch: "length ch = q" using P(14) True by (simp add: ch_def q_def)
    have sq: "s + q \<le> 512" "0 < q" "num + q \<le> m" using st(2) True by (auto simp: q_def)
    define x where "x = poe_bytes B s ch"
    have lx: "length x = BLOCK_SIZE" using lB sq lch by (simp add: x_def poe_bytes_length BLOCK_SIZE_def)
    have en: "enche B s data num m = Inr (x, num + q)"
      using sq P(14) by (simp add: enche_def BLOCK_SIZE_def q_def[symmetric] ch_def[symmetric] x_def)
    define fs1 where "fs1 = fs\<lparr>cache := c1\<rparr>"
    have F1: "cache fs1 = c1" "inode_tab fs1 = inode_tab fs" "referencias fs1 = referencias fs" "num_blocks (bks fs1) = num_blocks (bks fs)"
      using d1(3) by (simp_all add: fs1_def bks_def)
    have e1: "espaco c1 (set bs) r" by (rule d1(6)[OF _ P(13)]) (use bin in simp)
    have "\<exists>c'. escrever_c fs1 ?w x = Inr (fs1\<lparr>cache := c'\<rparr>) \<and> mesma_cache {unat ?w} (cache fs1) c' \<and>
        vista c' = (vista (cache fs1))(int (unat ?w) := x)"
      by (rule escrever_c_ok[OF _ _ _ bin]) (use d1 e1 wn P(9) lx in \<open>simp_all add: F1\<close>)
    then obtain c2 where c2: "escrever_c fs1 ?w x = Inr (fs\<lparr>cache := c2\<rparr>)" "mesma_cache {unat ?w} c1 c2"
        "vista c2 = (vista (cache fs))(int (unat ?w) := x)"
      unfolding F1 c1(3) by (auto simp: fs1_def)
    have eb: "escreverBloco fs1 ?w f x = Inr (fs\<lparr>cache := c2\<rparr>)"
      using escreverBloco_proprio[of ?w fs1 f x] wn P(1,2,10) c2(1) by (simp add: F1)
    have m12: "mesma_cache {unat ?w} (cache fs) c2" by (rule mesma_trans[OF c1(2) c2(2)])
    note d2 = mesma_cacheD[OF m12]
    have C2: "bytes c2 bs = take (512 * iblock) ?C @ x @ drop (512 * Suc iblock) ?C"
      using bytes_muda[of bs "cache fs" iblock c2 x] lv ib P(5) c2(3) b by simp
    have Bd: "B = take 512 (drop (512 * iblock) ?C)" if dentro
      using concat_pedaco[of bs "\<lambda>b. vista (cache fs) (int b)" 512 iblock 0 512] lv ib b that c1(4) lB by (simp add: bytes_def)
    have s0: "s = 0 \<or> B = take 512 (drop (512 * iblock) ?C)" using Bd by (auto simp: s_def)
    have sc: "s + length ch \<le> 512" using sq lch by simp
    note bp = bytes_pedaco[OF lC ib lB sc C2[unfolded x_def] st(1) s0]
    have E1: "escrito dentro ?C (bytes c2 bs) (off + num) ch"
      unfolding escrito_def using bp Bd by blast
    have en': "enche B (if dentro \<and> num = 0 then off mod BLOCK_SIZE else 0) data num m = Inr (x, num + q)"
      using en unfolding s_def BLOCK_SIZE_def .
    have step: "escreve_aux dentro fs f off data m iblock lim pos block num =
      escreve_aux dentro (fs\<lparr>cache := c2\<rparr>) f off data m (iblock + 1) lim (Some iblock) x (num + q)"
      using True u P(1,2,3,6,7) c1(1) eb
      by (subst escreve_aux.simps) (simp add: INODE_NUM_BLKS_def inode_em_def en' fs1_def[symmetric] split del: if_split)
    let ?fs2 = "fs\<lparr>cache := c2\<rparr>"
    have nx: "num + q = m \<or> off + (num + q) = 512 * (iblock + 1)" using st True by (auto simp: q_def min_def)
    have "\<exists>c' iblock' pos' block' num'. escreve_aux dentro ?fs2 f off data m (iblock + 1) lim (Some iblock) x (num + q) =
      Inr (?fs2\<lparr>cache := c'\<rparr>, iblock', pos', block', num') \<and> mesma_cache (set bs) (cache ?fs2) c' \<and>
      num + q \<le> num' \<and> num' \<le> m \<and> length block' = 512 \<and>
      (num' = m \<or> iblock' = lim \<and> off + num' = 512 * lim) \<and>
      escrito dentro (bytes (cache ?fs2) bs) (bytes c' bs) (off + (num + q)) (take (num' - (num + q)) (drop (num + q) data))"
    proof (rule Suc.hyps(1))
      show "n = lim - (iblock + 1)" using Suc.hyps(2) by simp
      show "f < length (inode_tab ?fs2)" "itype (inode_tab ?fs2 ! f) = FS_FILE" "length (iblocks (inode_tab ?fs2 ! f)) = 10"
        "bs = map unat (take (length bs) (iblocks (inode_tab ?fs2 ! f)))" using P(1-3) P(4) by simp_all
      show "proprios ?fs2 bs" "unat (num_blocks (bks ?fs2)) \<le> 4096" "length (referencias ?fs2) = unat (num_blocks (bks ?fs2))"
        using P(8-10) d2(3) by (simp_all add: proprios_def bks_def)
      show "cache_ok (cache ?fs2)" "semente (cache ?fs2)" using d2(1,2) by simp_all
      show "espaco (cache ?fs2) (set bs) r" using d2(6)[OF _ P(13)] bin by simp
      show "num + q \<le> m" using sq by simp
      show "length x = 512" using lx by (simp add: BLOCK_SIZE_def)
      have "512 * (iblock + 1) \<le> 512 * lim" "512 * lim \<le> 512 * length bs" using u P(7) by simp_all
      moreover have "off + (num + q) \<le> 512 * (iblock + 1)" using st sq by simp
      ultimately show "off + (num + q) \<le> 512 * length bs" "num + q = m \<or> off + (num + q) \<le> 512 * lim" by linarith+
      show "num + q = m \<or> iblock + 1 \<le> lim \<and> 512 * (iblock + 1) + (if dentro \<and> num + q = 0 then off mod 512 else 0) = off + (num + q)"
        using nx u sq by auto
    qed (use P in blast)+
    then obtain c' iblock' pos' block' num' where R: "escreve_aux dentro ?fs2 f off data m (iblock + 1) lim (Some iblock) x (num + q) =
      Inr (fs\<lparr>cache := c'\<rparr>, iblock', pos', block', num')" "mesma_cache (set bs) c2 c'"
      "num + q \<le> num'" "num' \<le> m" "length block' = 512" "num' = m \<or> iblock' = lim \<and> off + num' = 512 * lim"
      "escrito dentro (bytes c2 bs) (bytes c' bs) (off + (num + q)) (take (num' - (num + q)) (drop (num + q) data))" by auto
    have "escrito dentro ?C (bytes c' bs) (off + num) (ch @ take (num' - (num + q)) (drop (num + q) data))"
      by (rule escrito_mais[OF E1]) (use R(7) lch in \<open>simp add: ac_simps\<close>)
    moreover have "ch @ take (num' - (num + q)) (drop (num + q) data) = take (num' - num) (drop num data)"
    proof -
      have "num' - num = q + (num' - (num + q))" using R(3) by simp
      then show ?thesis by (simp only: take_add ch_def drop_drop) (simp add: add.commute)
    qed
    moreover have "mesma_cache (set bs) (cache fs) c'"
      using mesma_trans[OF mesma_maior[OF m12] R(2)] bin by simp
    ultimately show ?thesis using step R(1,3-6) by (intro exI[of _ c'] exI[of _ iblock'] exI[of _ pos'] exI[of _ block'] exI[of _ num']) simp
  qed
qed

section \<open>Storing the metadata\<close>

text \<open>The metadata is in blocks 0 to 9, which the cache never holds.\<close>

lemma store_cache:
  assumes m: "fs_meta fs" and c: "cache_ok (cache fs)" and d: "dom (mapa (tabela (cache fs))) \<subseteq> {10..}"
  shows "cache_ok (cache (fsi_store_fsdata fs))"
    "10 \<le> k \<Longrightarrow> k < unat (num_blocks (bks fs)) \<Longrightarrow> vista (cache (fsi_store_fsdata fs)) (int k) = vista (cache fs) (int k)"
proof -
  let ?s = "fsi_store_fsdata fs"
  define D where "D = bks ?s"
  note s = store_le[OF m]
  have cs: "cache ?s = (cache fs)\<lparr>disco := D\<rparr>" by (simp add: fsi_store_fsdata_def poe_bks_def D_def bks_def)
  have bl: "blocks D ! k = blocks (disco (cache fs)) ! k" if "10 \<le> k" "k < unat (num_blocks (bks fs))" for k
  proof -
    have u: "unat (of_nat k :: 32 word) = k"
      using that(2) order.strict_trans[OF that(2) unsigned_less[of "num_blocks (bks fs)"]]
      by (simp only: unsigned_of_nat) (simp add: take_bit_nat_eq_self)
    have "block_read D (of_nat k) = block_read (bks fs) (of_nat k)" using s(3)[OF that(2)] that(1) by (simp add: D_def)
    moreover have "\<not> num_blocks (bks fs) \<le> of_nat k" using of_nat_bloco(2)[OF that(2)] by (simp add: not_le)
    ultimately show ?thesis using s(2) u by (simp add: block_read_def D_def bks_def)
  qed
  have bs: "block_size (disco (cache fs)) = of_nat BLOCK_SIZE" using c by (simp add: cache_ok_def)
  have Dok: "disco_ok D" "num_blocks D = num_blocks (disco (cache fs))" "block_size D = of_nat BLOCK_SIZE"
  proof -
    show "disco_ok D" "num_blocks D = num_blocks (disco (cache fs))" using s(1,2) by (simp_all add: D_def meta_disco_def) (simp add: bks_def)
    have "unat (block_size D) = unat (of_nat BLOCK_SIZE :: 32 word)" using s(1) by (simp add: D_def meta_disco_def BLOCK_SIZE_def)
    then show "block_size D = of_nat BLOCK_SIZE" by (simp only: word_unat_eq_iff)
  qed
  note ok = cache_okD[OF c]
  show "cache_ok (cache ?s)"
  proof (rule cache_okI)
    fix k a assume m: "mapa (tabela (cache ?s)) k = Some a"
    then have e: "entrada_ok (cache fs) k a" using ok(4) cs by simp
    have k: "10 \<le> k" using m d by (force simp: cs dom_def)
    have "nat k < unat (num_blocks (bks fs))" using e by (simp add: entrada_ok_def bks_def)
    then have "blocks D ! nat k = blocks (disco (cache fs)) ! nat k" using bl[of "nat k"] k by simp
    then show "entrada_ok (cache ?s) k a" using e Dok(2) by (simp add: entrada_ok_def cs)
    fix k' assume "mapa (tabela (cache ?s)) k' = Some a"
    then show "k = k'" using m ok(5) cs by simp
  qed (use ok Dok in \<open>simp_all add: cs\<close>)
  show "vista (cache ?s) (int k) = vista (cache fs) (int k)" if "10 \<le> k" "k < unat (num_blocks (bks fs))"
    using bl[OF that] by (simp add: vista_def cs split: option.splits)
qed

lemma store_campos:
  "blk_bmap (fsi_store_fsdata fs) = blk_bmap fs" "inode_bmap (fsi_store_fsdata fs) = inode_bmap fs"
  "inode_tab (fsi_store_fsdata fs) = inode_tab fs" "referencias (fsi_store_fsdata fs) = referencias fs"
  "pilha (fsi_store_fsdata fs) = pilha fs" "livre (fsi_store_fsdata fs) = livre fs"
  "leitores (fsi_store_fsdata fs) = leitores fs" "escritores (fsi_store_fsdata fs) = escritores fs"
  "wanna_leitor (fsi_store_fsdata fs) = wanna_leitor fs" "wanna_escritor (fsi_store_fsdata fs) = wanna_escritor fs"
  "tabela (cache (fsi_store_fsdata fs)) = tabela (cache fs)" "lixo (cache (fsi_store_fsdata fs)) = lixo (cache fs)"
  "numeroMaxNos (cache (fsi_store_fsdata fs)) = numeroMaxNos (cache fs)"
  "numeroNosUtilizados (cache (fsi_store_fsdata fs)) = numeroNosUtilizados (cache fs)"
  by (simp_all add: fsi_store_fsdata_def poe_bks_def livre_def)

section \<open>Writing a file\<close>

definition emenda :: "byte list \<Rightarrow> nat \<Rightarrow> byte list \<Rightarrow> byte list" where
  "emenda c k d = take k c @ d @ drop (k + length d) c"

text \<open>
  A file of the file system that can grow to \<open>K\<close> blocks: its blocks are not shared, there are
  enough free blocks, and the cache holds them all.
\<close>

definition pronto :: "fs_t \<Rightarrow> nat \<Rightarrow> nat \<Rightarrow> bool" where
  "pronto fs f K \<longleftrightarrow>
     fs_ok fs \<and> ficheiro fs f \<and> proprios fs (blocos fs f) \<and> K \<le> 10 \<and> length (blocos fs f) \<le> K \<and>
     K - length (blocos fs f) \<le> card (blocos_livres fs) \<and>
     espaco (cache fs) (set (blocos fs f)) (K - length (blocos fs f))"

lemma espaco_uniao: "espaco c B (length ns + r) \<Longrightarrow> espaco c (B \<union> set ns) r"
proof (induction ns arbitrary: B)
  case (Cons b ns)
  then have "espaco c (insert b B) (length ns + r)" using espaco_mais[of c B "length ns + r" b] by simp
  then show ?case using Cons.IH[of "insert b B"] by simp
qed simp

text \<open>Both loops: the bytes of the blocks with the data put at the offset.\<close>

lemma escreve_dois:
  assumes i: "f < length (inode_tab fs)" "itype (inode_tab fs ! f) = FS_FILE" "length (iblocks (inode_tab fs ! f)) = 10"
    "bs = map unat (take (length bs) (iblocks (inode_tab fs ! f)))" "distinct bs" "length bs \<le> 10"
    and p: "proprios fs bs" "unat (num_blocks (bks fs)) \<le> 4096" "length (referencias fs) = unat (num_blocks (bks fs))"
    "cache_ok (cache fs)" "semente (cache fs)" "espaco (cache fs) (set bs) r"
    and m: "m \<le> length data" "length block = 512" "u \<le> length bs" "off \<le> 512 * u" "off + m \<le> 512 * length bs"
  shows "\<exists>fs1 c2 ib pos bl ib' pos' bl' n1. escreve_aux True fs f off data m (off div 512) u None block 0 = Inr (fs1, ib, pos, bl, n1) \<and>
      escreve_aux False fs1 f off data m ib (length bs) pos bl n1 = Inr (fs\<lparr>cache := c2\<rparr>, ib', pos', bl', m) \<and>
      mesma_cache (set bs) (cache fs) c2 \<and>
      take (off + m) (bytes c2 bs) = take off (bytes (cache fs) bs) @ take m data \<and>
      length (bytes c2 bs) = length (bytes (cache fs) bs) \<and>
      (off + m < 512 * u \<longrightarrow> drop (off + m) (bytes c2 bs) = drop (off + m) (bytes (cache fs) bs))"
proof -
  let ?C = "bytes (cache fs) bs"
  have ou: "off \<le> 512 * length bs" using m(3,4) by (meson mult_le_mono2 order.trans)
  have od: "off div 512 \<le> u" using m(4) by (metis div_le_mono div_mult_self1_is_m zero_less_numeral)
  have "\<exists>c' iblock' pos' block' num'. escreve_aux True fs f off data m (off div 512) u None block 0 =
      Inr (fs\<lparr>cache := c'\<rparr>, iblock', pos', block', num') \<and> mesma_cache (set bs) (cache fs) c' \<and>
      0 \<le> num' \<and> num' \<le> m \<and> length block' = 512 \<and> (num' = m \<or> iblock' = u \<and> off + num' = 512 * u) \<and>
      escrito True ?C (bytes c' bs) (off + 0) (take (num' - 0) (drop 0 data))"
    by (rule escreve_aux_ok[OF i(1-3) i(4) i(5,6) m(3) p m(1) _ m(2)]) (use ou od m(4) in auto)
  then obtain c1 ib pos bl n1 where 1: "escreve_aux True fs f off data m (off div 512) u None block 0 = Inr (fs\<lparr>cache := c1\<rparr>, ib, pos, bl, n1)"
      "mesma_cache (set bs) (cache fs) c1" "n1 \<le> m" "length bl = 512" "n1 = m \<or> ib = u \<and> off + n1 = 512 * u"
      "escrito True ?C (bytes c1 bs) off (take n1 data)" by auto
  note d1 = mesma_cacheD[OF 1(2)]
  let ?fs1 = "fs\<lparr>cache := c1\<rparr>"
  have l1: "length (take n1 data) = n1" using 1(3) m(1) by simp
  show ?thesis
  proof (cases "n1 = m")
    case True
    have "escreve_aux False ?fs1 f off data m ib (length bs) pos bl n1 = Inr (?fs1, ib, pos, bl, m)"
      using True by (subst escreve_aux.simps) simp
    then show ?thesis using 1 True l1
      by (intro exI[of _ ?fs1] exI[of _ c1] exI[of _ ib] exI[of _ pos] exI[of _ bl] exI[of _ ib] exI[of _ pos] exI[of _ bl] exI[of _ n1])
        (simp add: escrito_def)
  next
    case False
    then have e: "ib = u" "off + n1 = 512 * u" using 1(5) by auto
    have "\<exists>c' iblock' pos' block' num'. escreve_aux False ?fs1 f off data m ib (length bs) pos bl n1 =
      Inr (?fs1\<lparr>cache := c'\<rparr>, iblock', pos', block', num') \<and> mesma_cache (set bs) (cache ?fs1) c' \<and>
      n1 \<le> num' \<and> num' \<le> m \<and> length block' = 512 \<and> (num' = m \<or> iblock' = length bs \<and> off + num' = 512 * length bs) \<and>
      escrito False (bytes (cache ?fs1) bs) (bytes c' bs) (off + n1) (take (num' - n1) (drop n1 data))"
    proof (rule escreve_aux_ok)
      show "f < length (inode_tab ?fs1)" "itype (inode_tab ?fs1 ! f) = FS_FILE" "length (iblocks (inode_tab ?fs1 ! f)) = 10"
        "bs = map unat (take (length bs) (iblocks (inode_tab ?fs1 ! f)))" using i(1-3) i(4) by simp_all
      show "proprios ?fs1 bs" "unat (num_blocks (bks ?fs1)) \<le> 4096" "length (referencias ?fs1) = unat (num_blocks (bks ?fs1))"
        using p(1-3) d1(3) by (simp_all add: proprios_def bks_def)
      show "cache_ok (cache ?fs1)" "semente (cache ?fs1)" "espaco (cache ?fs1) (set bs) r" using d1(1,2,6) p(6) by simp_all
      show "n1 = m \<or> ib \<le> length bs \<and> 512 * ib + (if False \<and> n1 = 0 then off mod 512 else 0) = off + n1" using e m(3) by simp
      have "512 * u \<le> 512 * length bs" using m(3) by simp
      then show "off + n1 \<le> 512 * length bs" "n1 = m \<or> off + n1 \<le> 512 * length bs" using e by simp_all
    qed (use i(5,6) m(1) 1(3,4) in auto)
    then obtain c2 ib' pos' bl' n2 where 2: "escreve_aux False ?fs1 f off data m ib (length bs) pos bl n1 = Inr (fs\<lparr>cache := c2\<rparr>, ib', pos', bl', n2)"
      "mesma_cache (set bs) c1 c2" "n1 \<le> n2" "n2 \<le> m" "n2 = m \<or> off + n2 = 512 * length bs"
      "escrito False (bytes c1 bs) (bytes c2 bs) (off + n1) (take (n2 - n1) (drop n1 data))" by auto
    have n2: "n2 = m" using 2(4,5) m(5) by linarith
    have "take n1 data @ take (m - n1) (drop n1 data) = take m data" using 1(3) by (metis le_add_diff_inverse take_add)
    moreover have l2: "length (take (m - n1) (drop n1 data)) = m - n1" using m(1) by simp
    ultimately have "take (off + m) (bytes c2 bs) = take off ?C @ take m data"
      using 1(3,6) 2(6) n2 l1 by (simp add: escrito_def)
    moreover have "length (bytes c2 bs) = length ?C" using 1(6) 2(6) by (simp add: escrito_def)
    moreover have "\<not> off + m < 512 * u" using e 1(3) by linarith
    ultimately show ?thesis using 1(1) 2(1) n2 mesma_trans[OF 1(2) 2(2)]
      by (intro exI[of _ ?fs1] exI[of _ c2] exI[of _ ib] exI[of _ pos] exI[of _ bl] exI[of _ ib'] exI[of _ pos'] exI[of _ bl'] exI[of _ n1]) simp
  qed
qed

section \<open>fs_write\<close>

text \<open>The state fs_write leaves, from its parts, and what holds in it.\<close>

lemma bytes_append: "bytes c (xs @ ys) = bytes c xs @ bytes c ys"
  by (simp add: bytes_def)

lemma bytes_igual: "(\<And>b. b \<in> set bs \<Longrightarrow> vista c' (int b) = vista c (int b)) \<Longrightarrow> bytes c' bs = bytes c bs"
  by (simp add: bytes_def cong: map_cong)

lemma unat_soma: "unat (a :: 32 word) + unat b \<le> 5120 \<Longrightarrow> unat (a + b) = unat a + unat b"
  by (subst unat_add_lem[symmetric]) simp

lemma unat_max_w: "unat (max a b :: 32 word) = max (unat a) (unat b)"
  by (simp add: max_def word_le_nat_alt)

lemma blocos_max: "OFFSET_TO_BLOCKS (max a b) = max (OFFSET_TO_BLOCKS a) (OFFSET_TO_BLOCKS b)"
proof (cases "unat a \<le> unat b")
  case True
  then show ?thesis using div_le_mono[of "unat a + 511" "unat b + 511" 512] by (simp add: OFFSET_TO_BLOCKS_ok max_def word_le_nat_alt)
next
  case False
  then show ?thesis using div_le_mono[of "unat b + 511" "unat a + 511" 512] by (simp add: OFFSET_TO_BLOCKS_ok max_def word_le_nat_alt)
qed

definition escrita_em :: "fs_t \<Rightarrow> nat \<Rightarrow> nat list \<Rightarrow> 32 word \<Rightarrow> byte list \<Rightarrow> 8 word list \<Rightarrow> cache_t \<Rightarrow> nat \<Rightarrow> fs_t" where
  "escrita_em fs f ns sz bm rf c p =
     (let I = inode_tab fs ! f; u = length (blocos fs f) in
      fs\<lparr>inode_tab := (inode_tab fs)[f := I\<lparr>iblocks := take u (iblocks I) @ map of_nat ns @ drop (u + length ns) (iblocks I), isize := sz\<rparr>],
        blk_bmap := bm, referencias := rf, cache := c, n_pilha := p, escritores := 1\<rparr>)"

lemma escrita_em_ok:
  fixes p :: nat
  assumes ok: "fs_ok fs" and f: "ficheiro fs f" and ns: "distinct ns" "set ns \<subseteq> blocos_livres fs" "length (blocos fs f) + length ns \<le> 10"
    and sz: "OFFSET_TO_BLOCKS sz = length (blocos fs f) + length ns"
    and bm: "length bm = 512" "\<forall>b < 4096. ocupado bm b = (b \<in> set ns \<or> ocupado (blk_bmap fs) b)"
    and rf: "length rf = length (referencias fs)" "\<forall>b < length rf. rf ! b = (if b \<in> set ns then 1 else referencias fs ! b)"
    and c: "mesma_cache (set (blocos fs f @ ns)) (cache fs) c"
  defines "fs6 \<equiv> escrita_em fs f ns sz bm rf c p"
  defines "fs' \<equiv> terminaEscrita (fsi_store_fsdata fs6)"
  shows "fs_ok fs'" "ficheiro fs' f" "blocos fs' f = blocos fs f @ ns" "blocos_livres fs' = blocos_livres fs - set ns"
    "conteudo_f fs' f = take (unat sz) (bytes c (blocos fs f @ ns))" "isize (inode_tab fs' ! f) = sz"
    "\<And>D r. set (blocos fs f @ ns) \<subseteq> D \<Longrightarrow> espaco (cache fs) D r \<Longrightarrow> espaco (cache fs') D r"
    "\<And>b. b < length (referencias fs) \<Longrightarrow> referencias fs' ! b = (if b \<in> set ns then 1 else referencias fs ! b)"
    "\<And>g. ficheiro fs g \<Longrightarrow> g \<noteq> f \<Longrightarrow> set (blocos fs g) \<inter> set (blocos fs f) = {} \<Longrightarrow>
       ficheiro fs' g \<and> blocos fs' g = blocos fs g \<and> conteudo_f fs' g = conteudo_f fs g"
    "num_blocks (bks fs') = num_blocks (bks fs)"
    "\<And>b. 10 \<le> b \<Longrightarrow> b < unat (num_blocks (bks fs)) \<Longrightarrow> vista (cache fs') (int b) = vista c (int b)"
proof -
  let ?I = "inode_tab fs ! f" and ?u = "length (blocos fs f)" and ?bs = "blocos fs f @ ns" and ?nb = "unat (num_blocks (bks fs))"
  have F: "f < ITAB_SIZE" "ocupado (inode_bmap fs) f" "itype ?I = FS_FILE" "blocos_ok fs (blocos fs f)" using f by (auto simp: ficheiro_def)
  note i = inode_do_ficheiro[OF ok F(1)] and b = blocos_length[OF ok f] and d = mesma_cacheD[OF c]
  have o: "fs_meta fs" "livre fs" "dom (mapa (tabela (cache fs))) \<subseteq> {10..}" "?nb \<le> 4096" "length (referencias fs) = ?nb"
    "\<forall>i. length (pilha fs i) = BLOCK_SIZE" "\<forall>b < 10. ocupado (blk_bmap fs) b"
    "\<forall>b < ?nb. \<not> ocupado (blk_bmap fs) b \<longrightarrow> referencias fs ! b = 0"
    using ok by (simp_all add: fs_ok_def)
  define I' where "I' = ?I\<lparr>iblocks := take ?u (iblocks ?I) @ map of_nat ns @ drop (?u + length ns) (iblocks ?I), isize := sz\<rparr>"
  have f6: "inode_tab fs6 = (inode_tab fs)[f := I']" "blk_bmap fs6 = bm" "referencias fs6 = rf" "cache fs6 = c" "inode_bmap fs6 = inode_bmap fs"
    "pilha fs6 = pilha fs" "leitores fs6 = leitores fs" "escritores fs6 = 1" "wanna_leitor fs6 = wanna_leitor fs" "wanna_escritor fs6 = wanna_escritor fs"
    by (simp_all add: fs6_def escrita_em_def Let_def I'_def)
  have b6: "num_blocks (bks fs6) = num_blocks (bks fs)" using d(3) f6(4) by (simp add: bks_def)
  have li: "length (iblocks I') = 10" using i(1) ns(3) by (simp add: I'_def)
  have "inode_ok I'" using i(1) li o(1) i(2) by (auto simp: inode_ok_def INODE_NUM_BLKS_def I'_def fs_meta_def tab_ok_def)
  moreover have "tab_ok (inode_tab fs)" using o(1) by (simp add: fs_meta_def)
  ultimately have t6: "tab_ok (inode_tab fs6)" unfolding f6 tab_ok_def by (auto dest!: set_update_subset_insert[THEN subsetD])
  have "meta_disco (bks fs6)"
    using cache_okD(2,3)[OF d(1)] b6 o(1) f6(4) by (simp add: meta_disco_def bks_def fs_meta_def)
  then have m6: "fs_meta fs6" using t6 bm(1) i(3) f6 by (simp add: fs_meta_def BLOCK_SIZE_def)
  have nsb: "b < ?nb" "10 \<le> b" "\<not> ocupado (blk_bmap fs) b" if "b \<in> set ns" for b
    using that ns(2) o(7) by (auto simp: blocos_livres_def not_less[symmetric])
  have bsb: "10 \<le> b" "b < ?nb" if "b \<in> set ?bs" for b using that nsb F(4) by (auto simp: blocos_ok_def)
  have dom6: "dom (mapa (tabela (cache fs6))) \<subseteq> {10..}"
  proof -
    have "int ` set ?bs \<subseteq> {10..}" using bsb by fastforce
    then show ?thesis using d(5) o(3) f6(4) by blast
  qed
  note sc = store_cache[OF m6 _ dom6] and sm = store_le(1,2)[OF m6]
  let ?s = "fsi_store_fsdata fs6"
  have f': "inode_tab fs' = (inode_tab fs)[f := I']" "blk_bmap fs' = bm" "referencias fs' = rf" "inode_bmap fs' = inode_bmap fs"
    "cache fs' = cache ?s" "pilha fs' = pilha fs"
    by (simp_all add: fs'_def terminaEscrita_def store_campos f6)
  then have bk': "bks fs' = bks ?s" by (simp add: bks_def)
  show n': "num_blocks (bks fs') = num_blocks (bks fs)" using sm(2) b6 bk' by simp
  show vw: "vista (cache fs') (int b) = vista c (int b)" if "10 \<le> b" "b < ?nb" for b
    using sc(2)[of b] d(1) that b6 f' f6 by simp
  have I: "inode_tab fs' ! f = I'" "isize I' = sz" "itype I' = FS_FILE" using f'(1) i(2) F(3) by (simp_all add: I'_def)
  then show "isize (inode_tab fs' ! f) = sz" by simp
  have "map unat (map of_nat ns :: 32 word list) = ns"
  proof (rule nth_equalityI)
    fix j assume "j < length (map unat (map of_nat ns :: 32 word list))"
    then have j: "j < length ns" by simp
    then have "ns ! j < 4096" using nsb(1)[of "ns ! j"] o(4) by simp
    then show "map unat (map of_nat ns :: 32 word list) ! j = ns ! j" using j sint_bloco(2) by simp
  qed simp
  moreover have "take (?u + length ns) (iblocks I') = take ?u (iblocks ?I) @ map of_nat ns"
    using i(1) ns(3) by (simp add: I'_def)
  moreover have "map unat (take ?u (iblocks ?I)) = blocos fs f" using b(1) by (simp add: blocos_def)
  ultimately show bf: "blocos fs' f = ?bs" using I sz by (simp add: blocos_def[of fs'])
  show bl: "blocos_livres fs' = blocos_livres fs - set ns"
    using bm(2) o(4) by (auto simp: blocos_livres_def n' f')
  have lv: "livre fs'" using o(2) f6 by (simp add: fs'_def terminaEscrita_def livre_def store_campos)
  have oc: "ocupado bm b = (b \<in> set ns \<or> ocupado (blk_bmap fs) b)" if "b < ?nb" for b using bm(2) that o(4) by simp
  have nz: "unat (isize I') \<le> 5120" using sz ns(3) I(2) by (simp add: OFFSET_TO_BLOCKS_ok)
  show "fs_ok fs'"
    unfolding fs_ok_def
  proof (intro conjI)
    show "fs_meta fs'" using sm m6 f' f6 bk' by (simp add: fs_meta_def)
    show "cache_ok (cache fs')" using sc(1) d(1) f6(4) f'(5) by simp
    show "semente (cache fs')" using d(2) f6 f'(5) by (simp add: semente_def store_campos)
    show "livre fs'" by (rule lv)
    show "dom (mapa (tabela (cache fs'))) \<subseteq> {10..}" using dom6 f'(5) by (simp add: store_campos)
    show "unat (num_blocks (bks fs')) \<le> 4096" "length (referencias fs') = unat (num_blocks (bks fs'))" using n' o(4,5) f' rf(1) by simp_all
    show "\<forall>i. length (pilha fs' i) = BLOCK_SIZE" using o(6) f' by simp
    have "10 \<le> ?nb" using o(1) by (simp add: fs_meta_def meta_disco_def)
    then show "\<forall>b < 10. ocupado (blk_bmap fs') b" using o(7) f' oc by simp
    show "\<forall>b < unat (num_blocks (bks fs')). \<not> ocupado (blk_bmap fs') b \<longrightarrow> referencias fs' ! b = 0"
      using o(5,8) f' oc rf n' by simp
  qed
  have bo: "blocos_ok fs' ?bs"
    using bsb n' f' oc F(4) ns(1) nsb(3) by (auto simp: blocos_ok_def)
  then show "ficheiro fs' f" using F(1,2) I nz f' bf by (simp add: ficheiro_def)
  have "bytes (cache fs') ?bs = bytes c ?bs" by (rule bytes_igual) (use vw bsb in blast)
  then show "conteudo_f fs' f = take (unat sz) (bytes c ?bs)" using I bf by (simp add: conteudo_f_def)
  show "espaco (cache fs') D r" if "set ?bs \<subseteq> D" "espaco (cache fs) D r" for D r
    using d(6)[OF that] f6(4) f'(5) by (simp add: espaco_def store_campos)
  show "referencias fs' ! b = (if b \<in> set ns then 1 else referencias fs ! b)" if "b < length (referencias fs)" for b
    using that rf f' by simp
  fix g assume g: "ficheiro fs g" "g \<noteq> f" "set (blocos fs g) \<inter> set (blocos fs f) = {}"
  have ig: "inode_tab fs' ! g = inode_tab fs ! g" using f'(1) g(2) by simp
  then have bg: "blocos fs' g = blocos fs g" by (simp add: blocos_def)
  have gb: "10 \<le> b" "b < ?nb" "ocupado (blk_bmap fs) b" if "b \<in> set (blocos fs g)" for b
    using g(1) that by (auto simp: ficheiro_def blocos_ok_def)
  have gn: "b \<notin> set ?bs" if "b \<in> set (blocos fs g)" for b using g(3) that nsb(3) gb(3) by auto
  have "bytes (cache fs') (blocos fs g) = bytes (cache fs) (blocos fs g)"
  proof (rule bytes_igual)
    fix b assume "b \<in> set (blocos fs g)"
    then show "vista (cache fs') (int b) = vista (cache fs) (int b)" using vw gb gn d(4)[of "int b"] by fastforce
  qed
  then have "conteudo_f fs' g = conteudo_f fs g" using ig bg by (simp add: conteudo_f_def)
  moreover have "ficheiro fs' g" using g(1) ig bg gb n' f' oc by (auto simp: ficheiro_def blocos_ok_def)
  ultimately show "ficheiro fs' g \<and> blocos fs' g = blocos fs g \<and> conteudo_f fs' g = conteudo_f fs g" using bg by simp
qed

lemma fs_write_corre:
  assumes p: "pronto fs (unat file) K" and o: "o1 = min (unat off) (unat (isize (inode_tab fs ! unat file)))"
    and m: "o1 + unat cnt \<le> 512 * K" "unat cnt \<le> length data"
  shows "\<exists>ns bm rf c2 q sz. fs_write fs file off cnt data = Inr (0, terminaEscrita (fsi_store_fsdata (escrita_em fs (unat file) ns sz bm rf c2 q))) \<and>
    distinct ns \<and> set ns \<subseteq> blocos_livres fs \<and> length (blocos fs (unat file)) + length ns \<le> K \<and>
    OFFSET_TO_BLOCKS sz = length (blocos fs (unat file)) + length ns \<and>
    length bm = 512 \<and> (\<forall>b < 4096. ocupado bm b = (b \<in> set ns \<or> ocupado (blk_bmap fs) b)) \<and>
    length rf = length (referencias fs) \<and> (\<forall>b < length rf. rf ! b = (if b \<in> set ns then 1 else referencias fs ! b)) \<and>
    mesma_cache (set (blocos fs (unat file) @ ns)) (cache fs) c2 \<and>
    unat sz = max (o1 + unat cnt) (unat (isize (inode_tab fs ! unat file))) \<and>
    take (unat sz) (bytes c2 (blocos fs (unat file) @ ns)) = emenda (conteudo_f fs (unat file)) o1 (take (unat cnt) data)"
proof -
  let ?f = "unat file" and ?I = "inode_tab fs ! unat file" and ?m = "unat cnt"
  let ?U = "length (blocos fs ?f)"
  have ok: "fs_ok fs" and f: "ficheiro fs ?f" and pr: "proprios fs (blocos fs ?f)" and K: "K \<le> 10" "?U \<le> K"
    and liv: "K - ?U \<le> card (blocos_livres fs)" and esp: "espaco (cache fs) (set (blocos fs ?f)) (K - ?U)"
    using p by (simp_all add: pronto_def)
  have F: "?f < ITAB_SIZE" "ocupado (inode_bmap fs) ?f" "itype ?I = FS_FILE" "unat (isize ?I) \<le> 5120" "blocos_ok fs (blocos fs ?f)"
    using f by (auto simp: ficheiro_def)
  have o1: "livre fs" "cache_ok (cache fs)" "semente (cache fs)" "unat (num_blocks (bks fs)) \<le> 4096"
    "length (referencias fs) = unat (num_blocks (bks fs))" "\<forall>b < unat (num_blocks (bks fs)). \<not> ocupado (blk_bmap fs) b \<longrightarrow> referencias fs ! b = 0"
    "length (pilha fs (n_pilha fs)) = 512"
    using ok by (simp_all add: fs_ok_def BLOCK_SIZE_def)
  note i = inode_do_ficheiro[OF ok F(1)] and b = blocos_length[OF ok f]
  text \<open>The numbers of fs_write.\<close>
  define w where "w = (if off > isize ?I then isize ?I else off)"
  define sz where "sz = max (w + cnt) (isize ?I)"
  have w: "unat w = o1" by (auto simp: w_def o min_def word_less_nat_alt)
  have wc: "unat (w + cnt) = o1 + ?m" using unat_soma[of w cnt] m(1) K(1) w by simp
  have szu: "unat sz = max (o1 + ?m) (unat (isize ?I))" by (simp add: sz_def unat_max_w wc)
  define n where "n = max (OFFSET_TO_BLOCKS (w + cnt)) ?U - ?U"
  have Un: "?U + n = OFFSET_TO_BLOCKS sz" unfolding n_def sz_def blocos_max b(1) by simp
  have "OFFSET_TO_BLOCKS (w + cnt) \<le> K" using m(1) by (simp add: OFFSET_TO_BLOCKS_ok wc)
  then have nK: "?U + n \<le> K" using K(2) by (simp add: n_def)
  have o512: "o1 \<le> 512 * ?U" "o1 \<le> unat (isize ?I)" using b(3) o by simp_all
  have mU: "o1 + ?m \<le> 512 * (?U + n)" unfolding Un by (simp add: OFFSET_TO_BLOCKS_ok szu)
  text \<open>The blocks reserved.\<close>
  define fs1 where "fs1 = fs\<lparr>escritores := 1\<rparr>"
  have c1: "inode_tab fs1 = inode_tab fs" "bks fs1 = bks fs" "blk_bmap fs1 = blk_bmap fs" "referencias fs1 = referencias fs"
    "blocos_livres fs1 = blocos_livres fs" "cache fs1 = cache fs" "inode_bmap fs1 = inode_bmap fs" by (simp_all add: fs1_def bks_def blocos_livres_def)
  have nl: "n \<le> card (blocos_livres fs)" "?U + n \<le> 10" using liv nK K(1) by linarith+
  obtain ns bm rf where R: "reserva fs1 ?f ?U n = Inr (True, fs1\<lparr>inode_tab := (inode_tab fs)[?f := ?I
        \<lparr>iblocks := take ?U (iblocks ?I) @ map of_nat ns @ drop (?U + n) (iblocks ?I)\<rparr>],
        blk_bmap := bm, referencias := rf\<rparr>)"
    "length ns = n" "distinct ns" "set ns \<subseteq> blocos_livres fs" "length bm = 512" "length rf = length (referencias fs)"
    "\<forall>b < 4096. ocupado bm b = (b \<in> set ns \<or> ocupado (blk_bmap fs) b)"
    "\<forall>b < length rf. rf ! b = (if b \<in> set ns then 1 else referencias fs ! b)"
    using reserva_ok[of ?f fs1 ?U n, unfolded c1, OF i(2,1) nl(2) o1(4) i(4) o1(5,6) nl(1)] by blast
  define bs where "bs = blocos fs ?f @ ns"
  define I3 where "I3 = ?I\<lparr>iblocks := take ?U (iblocks ?I) @ map of_nat ns @ drop (?U + n) (iblocks ?I)\<rparr>"
  define fs3 where "fs3 = fs1\<lparr>inode_tab := (inode_tab fs)[?f := I3], blk_bmap := bm, referencias := rf, n_pilha := n_pilha fs + 1\<rparr>"
  have c3: "inode_tab fs3 ! ?f = I3" "length (inode_tab fs3) = length (inode_tab fs)" "bks fs3 = bks fs" "referencias fs3 = rf" "cache fs3 = cache fs"
    using i(2) by (simp_all add: fs3_def fs1_def bks_def)
  have nsb: "b < unat (num_blocks (bks fs))" "\<not> ocupado (blk_bmap fs) b" if "b \<in> set ns" for b
    using that R(4) by (auto simp: blocos_livres_def)
  have bsU: "length bs = ?U + n" using R(2) by (simp add: bs_def)
  have "map unat (map of_nat ns :: 32 word list) = ns"
  proof (rule nth_equalityI)
    fix j assume "j < length (map unat (map of_nat ns :: 32 word list))"
    then have j: "j < length ns" by simp
    then have "ns ! j < 4096" using nsb(1)[of "ns ! j"] o1(4) by simp
    then show "map unat (map of_nat ns :: 32 word list) ! j = ns ! j" using j sint_bloco(2) by simp
  qed simp
  moreover have "take (length bs) (iblocks I3) = take ?U (iblocks ?I) @ map of_nat ns"
    using i(1) nK K(1) R(2) by (simp add: I3_def bsU)
  ultimately have bsI: "bs = map unat (take (length bs) (iblocks (inode_tab fs3 ! ?f)))"
    using c3(1) b(1) by (simp add: bs_def blocos_def)
  have "proprios fs3 bs"
    using pr nsb(1) R(6,8) o1(5) by (auto simp: proprios_def c3 bs_def)
  moreover have "espaco (cache fs3) (set bs) (K - (?U + n))"
    unfolding bs_def set_append c3 by (rule espaco_uniao) (use esp nK R(2) in simp)
  moreover have "distinct bs" using F(5) R(3) nsb(2) by (auto simp: bs_def blocos_ok_def)
  moreover have "length (iblocks (inode_tab fs3 ! ?f)) = 10" "itype (inode_tab fs3 ! ?f) = FS_FILE"
    using i(1) nK K(1) R(2) F(3) c3(1) by (simp_all add: I3_def)
  ultimately obtain fs4 c2 ib pos bl ib' pos' bl' n1 where
    E: "escreve_aux True fs3 ?f o1 data ?m (o1 div 512) ?U None (pilha fs (n_pilha fs)) 0 = Inr (fs4, ib, pos, bl, n1)"
      "escreve_aux False fs4 ?f o1 data ?m ib (length bs) pos bl n1 = Inr (fs3\<lparr>cache := c2\<rparr>, ib', pos', bl', ?m)"
      "mesma_cache (set bs) (cache fs) c2"
      "take (o1 + ?m) (bytes c2 bs) = take o1 (bytes (cache fs) bs) @ take ?m data"
      "length (bytes c2 bs) = length (bytes (cache fs) bs)"
      "o1 + ?m < 512 * ?U \<longrightarrow> drop (o1 + ?m) (bytes c2 bs) = drop (o1 + ?m) (bytes (cache fs) bs)"
    using escreve_dois[of ?f fs3 bs "K - (?U + n)" ?m data "pilha fs (n_pilha fs)" ?U o1] bsI i(2) o1 c3(2) mU o512(1) m(2) R(6) nK K(1)
    unfolding c3 bsU by (auto simp: c3)
  text \<open>The state and the content.\<close>
  have fim: "fs_write fs file off cnt data = Inr (0, terminaEscrita (fsi_store_fsdata (escrita_em fs ?f ns sz bm rf c2 (n_pilha fs + 1))))"
  proof -
    have ie: "iniciaEscrita fs = Inr fs1" using escrita_livre[OF o1(1)] by (auto simp: fs1_def)
    have "\<not> int INODE_NUM_BLKS - int ?U < int n" using nl(2) by (auto simp: INODE_NUM_BLKS_def)
    moreover have "?f < 8 * length (inode_bmap fs)" using F(1) i(3) by (simp add: ITAB_SIZE_def)
    moreover have "unat (w div 512) = o1 div 512" using w by (simp add: unat_div)
    moreover have "novo_buf (fs1\<lparr>inode_tab := (inode_tab fs)[?f := I3], blk_bmap := bm, referencias := rf\<rparr>) = (pilha fs (n_pilha fs), fs3)"
      by (simp add: novo_buf_def fs3_def fs1_def)
    moreover have "poe_inode (fs3\<lparr>cache := c2\<rparr>) ?f (I3\<lparr>isize := max (w + cnt) (isize I3)\<rparr>) = Inr (escrita_em fs ?f ns sz bm rf c2 (n_pilha fs + 1))"
      using i(2) R(2) by (simp add: poe_inode_def fs3_def fs1_def escrita_em_def Let_def I3_def sz_def max.commute)
    ultimately show ?thesis
      using ie F i(2) b(1)[symmetric] R(1) E(1,2) w c3(1,2) c1(1,7) unfolding fs_write_def Let_def
      by (simp add: inode_em_def BMAP_ISSET_ok w_def[symmetric] n_def[symmetric] I3_def[symmetric] bsU split del: if_split)
  qed
  have cont: "take (unat sz) (bytes c2 bs) = emenda (conteudo_f fs ?f) o1 (take ?m data)"
  proof -
    let ?B = "bytes (cache fs) bs"
    have C: "conteudo_f fs ?f = take (unat (isize ?I)) ?B"
      using b(3,4) by (simp add: conteudo_f_def bs_def bytes_append)
    have d: "length (take ?m data) = ?m" using m(2) by simp
    show ?thesis
    proof (cases "o1 + ?m < unat (isize ?I)")
      case True
      then have "drop (o1 + ?m) (bytes c2 bs) = drop (o1 + ?m) ?B" using E(6) b(3) by linarith
      then have "bytes c2 bs = (take o1 ?B @ take ?m data) @ drop (o1 + ?m) ?B" using E(4) by (metis append_take_drop_id)
      moreover have "o1 \<le> length ?B" using o512(1) b(4) by (simp add: bs_def bytes_append)
      moreover have "max (o1 + ?m) (unat (isize ?I)) = o1 + ?m + (unat (isize ?I) - (o1 + ?m))" using True by simp
      ultimately show ?thesis using True o512(2) d unfolding C emenda_def szu by (auto simp: min_def drop_take)
    next
      case False
      then show ?thesis using E(4) o512(2) d unfolding C emenda_def szu by (simp add: min_def)
    qed
  qed
  show ?thesis
    using fim cont R(2-8) E(3) nK Un szu unfolding bs_def
    by (intro exI[of _ ns] exI[of _ bm] exI[of _ rf] exI[of _ c2] exI[of _ "n_pilha fs + 1"] exI[of _ sz]) simp
qed

text \<open>fs_write as a whole.\<close>

lemma fs_write_ok:
  assumes p: "pronto fs (unat file) K" and o: "o1 = min (unat off) (length (conteudo_f fs (unat file)))"
    and m: "o1 + unat cnt \<le> 512 * K" "unat cnt \<le> length data"
  shows "\<exists>fs'. fs_write fs file off cnt data = Inr (0, fs') \<and> pronto fs' (unat file) K \<and>
    conteudo_f fs' (unat file) = emenda (conteudo_f fs (unat file)) o1 (take (unat cnt) data) \<and>
    (\<forall>g. ficheiro fs g \<longrightarrow> g \<noteq> unat file \<longrightarrow> set (blocos fs g) \<inter> set (blocos fs (unat file)) = {} \<longrightarrow>
       ficheiro fs' g \<and> blocos fs' g = blocos fs g \<and> conteudo_f fs' g = conteudo_f fs g \<and>
       set (blocos fs' g) \<inter> set (blocos fs' (unat file)) = {})"
proof -
  let ?f = "unat file"
  have ok: "fs_ok fs" and f: "ficheiro fs ?f" and pr: "proprios fs (blocos fs ?f)" and K: "K \<le> 10" "length (blocos fs ?f) \<le> K"
    and liv: "K - length (blocos fs ?f) \<le> card (blocos_livres fs)" and esp: "espaco (cache fs) (set (blocos fs ?f)) (K - length (blocos fs ?f))"
    using p by (simp_all add: pronto_def)
  have o': "o1 = min (unat off) (unat (isize (inode_tab fs ! ?f)))" using o blocos_length(5)[OF ok f] by simp
  obtain ns bm rf c2 q sz where W: "fs_write fs file off cnt data = Inr (0, terminaEscrita (fsi_store_fsdata (escrita_em fs ?f ns sz bm rf c2 q)))"
    and ns: "distinct ns" "set ns \<subseteq> blocos_livres fs" and nK: "length (blocos fs ?f) + length ns \<le> K"
    and sz: "OFFSET_TO_BLOCKS sz = length (blocos fs ?f) + length ns"
    and bm: "length bm = 512" "\<forall>b < 4096. ocupado bm b = (b \<in> set ns \<or> ocupado (blk_bmap fs) b)"
    and rf: "length rf = length (referencias fs)" "\<forall>b < length rf. rf ! b = (if b \<in> set ns then 1 else referencias fs ! b)"
    and c: "mesma_cache (set (blocos fs ?f @ ns)) (cache fs) c2"
    and C: "take (unat sz) (bytes c2 (blocos fs ?f @ ns)) = emenda (conteudo_f fs ?f) o1 (take (unat cnt) data)"
    using fs_write_corre[OF p o' m] by blast
  have "length (blocos fs ?f) + length ns \<le> 10" using nK K(1) by simp
  note E = escrita_em_ok[OF ok f ns this sz bm rf c, where p = q]
  let ?fs' = "terminaEscrita (fsi_store_fsdata (escrita_em fs ?f ns sz bm rf c2 q))"
  have nsb: "b < unat (num_blocks (bks fs))" "\<not> ocupado (blk_bmap fs) b" if "b \<in> set ns" for b
    using that ns(2) by (auto simp: blocos_livres_def)
  have "length (referencias fs) = unat (num_blocks (bks fs))" using ok by (simp add: fs_ok_def)
  then have "proprios ?fs' (blocos fs ?f @ ns)" using pr nsb(1) E(8,10) by (auto simp: proprios_def)
  moreover have "K - (length (blocos fs ?f) + length ns) \<le> card (blocos_livres ?fs')"
    using liv card_Diff_subset[of "set ns" "blocos_livres fs"] ns distinct_card[OF ns(1)] unfolding E(4) by simp
  moreover have "espaco (cache fs) (set (blocos fs ?f @ ns)) (K - (length (blocos fs ?f) + length ns))"
    unfolding set_append by (rule espaco_uniao) (use esp nK in simp)
  then have "espaco (cache ?fs') (set (blocos fs ?f @ ns)) (K - (length (blocos fs ?f) + length ns))"
    by (intro E(7)) simp
  ultimately have P: "pronto ?fs' ?f K" using E(1,2,3) K nK by (simp add: pronto_def)
  have "set (blocos ?fs' g) \<inter> set (blocos ?fs' ?f) = {}"
    if "ficheiro fs g" "g \<noteq> ?f" "set (blocos fs g) \<inter> set (blocos fs ?f) = {}" for g
  proof -
    have "ocupado (blk_bmap fs) b" if "b \<in> set (blocos fs g)" for b
      using \<open>ficheiro fs g\<close> that by (simp add: ficheiro_def blocos_ok_def)
    then have "set (blocos fs g) \<inter> set ns = {}" using nsb(2) by blast
    then show ?thesis using E(9)[OF that] that(3) E(3) by auto
  qed
  then show ?thesis using W P E(5,9) C by (intro exI[of _ ?fs']) simp
qed

text \<open>Reading leaves every file as it was.\<close>

lemma fs_read_pronto:
  assumes p: "pronto fs (unat file) K"
  shows "\<exists>fs'. fs_read fs file off cnt = Inr (0, Some (take (unat cnt) (drop (unat off) (conteudo_f fs (unat file)))), fs') \<and>
    pronto fs' (unat file) K \<and>
    (\<forall>g. (ficheiro fs' g \<longleftrightarrow> ficheiro fs g) \<and> blocos fs' g = blocos fs g \<and> conteudo_f fs' g = conteudo_f fs g)"
proof -
  let ?f = "unat file"
  have ok: "fs_ok fs" and f: "ficheiro fs ?f" and e: "espaco (cache fs) (set (blocos fs ?f)) (K - length (blocos fs ?f))"
    using p by (simp_all add: pronto_def)
  obtain c' q where R: "fs_read fs file off cnt = Inr (0, Some (take (unat cnt) (drop (unat off) (conteudo_f fs ?f))),
      fs\<lparr>cache := c', leitores := 0, turno := ESCRITA, n_pilha := q\<rparr>)"
    and c: "mesma_cache (set (blocos fs ?f)) (cache fs) c'" and v: "vista c' = vista (cache fs)"
    using fs_read_ok[OF ok f e, of off cnt] by (elim exE conjE) (rule that)
  let ?fs' = "fs\<lparr>cache := c', leitores := 0, turno := ESCRITA, n_pilha := q\<rparr>"
  note d = mesma_cacheD[OF c]
  have n: "num_blocks (bks ?fs') = num_blocks (bks fs)" using d(3) by (simp add: bks_def)
  have b: "blocos ?fs' g = blocos fs g" "ficheiro ?fs' g \<longleftrightarrow> ficheiro fs g" for g
    using n by (simp_all add: blocos_def ficheiro_def blocos_ok_def)
  have k: "conteudo_f ?fs' g = conteudo_f fs g" for g
    unfolding conteudo_f_def b(1) by (simp add: bytes_def v)
  have "int ` set (blocos fs ?f) \<subseteq> {10..}" using f by (auto simp: ficheiro_def blocos_ok_def)
  moreover have "dom (mapa (tabela (cache fs))) \<subseteq> {10..}" using ok by (simp add: fs_ok_def)
  ultimately have dm: "dom (mapa (tabela c')) \<subseteq> {10..}"
    by (intro order.trans[OF d(5)] Un_least)
  have "meta_disco (disco c')"
    using cache_okD(2,3)[OF d(1)] ok d(3) by (simp add: fs_ok_def fs_meta_def meta_disco_def bks_def)
  then have "fs_ok ?fs'"
    using ok d(1-3) dm unfolding fs_ok_def fs_meta_def bks_def livre_def by simp
  moreover have "proprios ?fs' (blocos fs ?f)" using p n by (simp add: pronto_def proprios_def)
  moreover have "blocos_livres ?fs' = blocos_livres fs" using n by (simp add: blocos_livres_def)
  moreover have "espaco (cache ?fs') (set (blocos fs ?f)) (K - length (blocos fs ?f))" using d(6)[OF _ e] by simp
  ultimately have "pronto ?fs' ?f K" using p f unfolding pronto_def b by simp
  then show ?thesis using R b k by blast
qed

text \<open>What the bytes of a write are when read back.\<close>

lemma emenda_le: "k \<le> length c \<Longrightarrow> take (length d) (drop k (emenda c k d)) = d"
  by (simp add: emenda_def)

lemma emenda_length: "k \<le> length c \<Longrightarrow> length (emenda c k d) = max (length c) (k + length d)"
  by (simp add: emenda_def)

lemma emenda_fora:
  "k \<le> length c \<Longrightarrow> j < length c \<Longrightarrow> j < k \<or> k + length d \<le> j \<Longrightarrow> emenda c k d ! j = c ! j"
  by (auto simp: emenda_def nth_append)

lemma emenda_fim: "emenda c (length c) d = c @ d"
  by (simp add: emenda_def)

end
