(* ===== verification/FsDirectorio.thy ===== *)
theory FsDirectorio
  imports FsEscrita
begin

text \<open>
  Directories as lists of entries.  \<open>entradas fs d\<close> is what the pages of directory \<open>d\<close> hold;
  the search of a name is a lookup in that list, fs_create and fs_mkdir append to it, and
  fs_lookup follows a path through the lists.
\<close>

section \<open>Pages\<close>

definition pagina_ent :: "bloco \<Rightarrow> nat \<Rightarrow> (nome \<times> inodeid_t) list" where
  "pagina_ent p n = map (\<lambda>i. (dnome p i, dinode p i)) [0..<n]"

fun ents :: "bloco list \<Rightarrow> nat \<Rightarrow> (nome \<times> inodeid_t) list" where
  "ents [] n = []"
| "ents (p # ps) n = pagina_ent p (min 32 n) @ ents ps (n - 32)"

lemma pagina_ent_0 [simp]: "pagina_ent p 0 = []"
  by (simp add: pagina_ent_def)

lemma pagina_ent_Suc: "pagina_ent p (Suc n) = pagina_ent p n @ [(dnome p n, dinode p n)]"
  by (simp add: pagina_ent_def)

lemma pagina_ent_length [simp]: "length (pagina_ent p n) = n"
  by (simp add: pagina_ent_def)

lemma ents_0 [simp]: "ents ps 0 = []"
  by (induction ps) auto

lemma ents_fim: "e \<le> 32 \<Longrightarrow> ents (ps @ [p]) (32 * length ps + e) = ents ps (32 * length ps) @ pagina_ent p e"
  by (induction ps) auto

lemma ents_length: "n \<le> 32 * length ps \<Longrightarrow> length (ents ps n) = n"
  by (induction ps arbitrary: n) auto

lemma ents_mais: "n \<le> 32 * length ps \<Longrightarrow> ents (ps @ qs) n = ents ps n"
  by (induction ps arbitrary: n) auto

lemma map_of_find: "map_of (map (\<lambda>i. (f i, g i)) xs) s = map_option g (find (\<lambda>i. f i = s) xs)"
  by (induction xs) auto

text \<open>The search goes through the pages as the lookup through their entries.\<close>

lemma le_disco_ok: "unat w < unat (num_blocks d) \<Longrightarrow> le_disco d w x = blocks d ! unat w"
  by (simp add: le_disco_def block_read_def word_le_nat_alt)

lemma procura_dir_ok:
  assumes "itype idir = FS_DIR" "num \<le> 32 * length ps"
    "\<And>j. j < length ps \<Longrightarrow> k + j < length (iblocks idir) \<and> unat (iblocks idir ! (k + j)) < unat (num_blocks (bks fs)) \<and>
       blocks (bks fs) ! unat (iblocks idir ! (k + j)) = ps ! j"
  shows "procura_dir fs idir s k num page = Inr (map_of (ents ps num) s, fs)"
  using assms
proof (induction ps arbitrary: k num page)
  case Nil
  then show ?case by (simp add: procura_dir.simps)
next
  case (Cons p ps)
  show ?case
  proof (cases "num = 0")
    case False
    have 0: "k < length (iblocks idir)" "unat (iblocks idir ! k) < unat (num_blocks (bks fs))"
      "blocks (bks fs) ! unat (iblocks idir ! k) = p" using Cons.prems(3)[of 0] by simp_all
    have l: "ler_tipo fs (itype idir) (iblocks idir ! k) page = Inr (p, fs)"
      using Cons.prems(1) le_disco_ok[OF 0(2)] 0(3) by (simp add: ler_tipo_def FS_DIR_def FS_FILE_def)
    have f: "map_of (pagina_ent p (min 32 num)) s = map_option (dinode p) (find (\<lambda>i. dnome p i = s) [0..<min 32 num])"
      by (simp add: pagina_ent_def map_of_find)
    have r: "procura_dir fs idir s (k + 1) (num - 32) p = Inr (map_of (ents ps (num - 32)) s, fs)"
    proof (rule Cons.IH)
      fix j assume "j < length ps"
      then show "k + 1 + j < length (iblocks idir) \<and> unat (iblocks idir ! (k + 1 + j)) < unat (num_blocks (bks fs)) \<and>
        blocks (bks fs) ! unat (iblocks idir ! (k + 1 + j)) = ps ! j"
        using Cons.prems(3)[of "Suc j"] by simp
    qed (use Cons.prems in auto)
    show ?thesis
      using False 0(1) l f r
      by (subst procura_dir.simps) (auto simp: DIR_PAGE_ENTRIES_def map_add_def split: option.splits)
  qed (simp add: procura_dir.simps)
qed

section \<open>Directories\<close>

definition paginas_de :: "fs_t \<Rightarrow> nat list \<Rightarrow> bloco list" where
  "paginas_de fs bs = map (\<lambda>b. blocks (bks fs) ! b) bs"

definition entradas :: "fs_t \<Rightarrow> nat \<Rightarrow> (nome \<times> inodeid_t) list" where
  "entradas fs d = ents (paginas_de fs (blocos fs d)) (num_dentrys (inode_tab fs ! d))"

text \<open>A directory in use, with pages of its own that the cache does not hold.\<close>

definition dir_ok :: "fs_t \<Rightarrow> nat \<Rightarrow> bool" where
  "dir_ok fs d \<longleftrightarrow>
     d < ITAB_SIZE \<and> ocupado (inode_bmap fs) d \<and> itype (inode_tab fs ! d) = FS_DIR \<and>
     isize (inode_tab fs ! d) mod 16 = 0 \<and> unat (isize (inode_tab fs ! d)) \<le> 5120 \<and> blocos_ok fs (blocos fs d) \<and>
     (\<forall>b \<in> set (blocos fs d). mapa (tabela (cache fs)) (int b) = None) \<and>
     (\<forall>e \<in> set (entradas fs d). length (fst e) < FS_MAX_FNAME_SZ)"

text \<open>A directory of \<open>n\<close> entries of 16 bytes takes a page for each 32 of them.\<close>

lemma paginas_num: "(n + 31) div 32 = n div 32 + (if n mod 32 = 0 then 0 else 1 :: nat)"
proof -
  have m: "(n + 31) div 32 = n div 32 + (n mod 32 + 31) div 32" using div_add1_eq[of n 31 32] by simp
  have "n mod 32 < 32" by simp
  then have "(n mod 32 + 31) div 32 = (if n mod 32 = 0 then 0 else 1)" by (auto intro: div_nat_eqI)
  then show ?thesis unfolding m by simp
qed

lemma paginas_bytes: "(16 * n + 511) div 512 = (n + 31) div (32 :: nat)"
proof -
  have "(16 * n + 511) div (16 * 32) = (16 * n + 511) div 16 div 32" by (rule div_mult2_eq)
  moreover have "(16 * n + 511) div 16 = n + 31" by simp
  ultimately show ?thesis by simp
qed

lemma dir_tamanho:
  assumes "fs_ok fs" "dir_ok fs d"
  defines "n \<equiv> num_dentrys (inode_tab fs ! d)"
  shows "unat (isize (inode_tab fs ! d)) = 16 * n" "n \<le> 320" "length (blocos fs d) = (n + 31) div 32"
    "length (entradas fs d) = n" "length (iblocks (inode_tab fs ! d)) = 10" "d < length (inode_tab fs)" "length (inode_bmap fs) = 512"
proof -
  let ?I = "inode_tab fs ! d"
  have d: "d < ITAB_SIZE" "isize ?I mod 16 = 0" "unat (isize ?I) \<le> 5120" using assms by (simp_all add: dir_ok_def)
  note i = inode_do_ficheiro[OF assms(1) d(1)]
  show "length (iblocks ?I) = 10" "d < length (inode_tab fs)" "length (inode_bmap fs) = 512" using i by simp_all
  have "unat (isize ?I mod 16) = 0" using d(2) by simp
  then have "unat (isize ?I) mod 16 = 0" by (simp add: unat_mod)
  then show n: "unat (isize ?I) = 16 * n"
    using mult_div_mod_eq[of 16 "unat (isize ?I)"] by (simp add: n_def num_dentrys_def unat_div)
  then show l: "n \<le> 320" using d(3) by simp
  have "OFFSET_TO_BLOCKS (isize ?I) = (n + 31) div 32" unfolding OFFSET_TO_BLOCKS_ok n by (rule paginas_bytes)
  then show b: "length (blocos fs d) = (n + 31) div 32" using i(1) l by (simp add: blocos_def)
  show "length (entradas fs d) = n" unfolding entradas_def n_def[symmetric]
    by (rule ents_length) (simp add: paginas_de_def b)
qed

lemma paginas_no_disco:
  assumes "dir_ok fs d" "j < length (paginas_de fs (blocos fs d))"
  shows "j < length (iblocks (inode_tab fs ! d)) \<and> unat (iblocks (inode_tab fs ! d) ! j) < unat (num_blocks (bks fs)) \<and>
    blocks (bks fs) ! unat (iblocks (inode_tab fs ! d) ! j) = paginas_de fs (blocos fs d) ! j"
proof -
  have j: "j < length (blocos fs d)" using assms(2) by (simp add: paginas_de_def)
  then have b: "blocos fs d ! j = unat (iblocks (inode_tab fs ! d) ! j)" "j < length (iblocks (inode_tab fs ! d))" by (simp_all add: blocos_def)
  have "blocos fs d ! j < unat (num_blocks (bks fs))" using assms(1) nth_mem[OF j] by (simp add: dir_ok_def blocos_ok_def)
  then show ?thesis using b j by (simp add: paginas_de_def)
qed

text \<open>fsi_dir_search is the lookup in the list of entries.\<close>

lemma fsi_dir_search_ok:
  assumes "fs_ok fs" "dir_ok fs d" and x: "bks fx = bks fs" "inode_tab fx = inode_tab fs"
  shows "fsi_dir_search fx d s = Inr (if map_of (entradas fs d) s = None then -1 else 0, map_of (entradas fs d) s,
    fx\<lparr>n_pilha := n_pilha fx + 1\<rparr>)"
proof -
  let ?I = "inode_tab fs ! d" and ?fs = "fx\<lparr>n_pilha := n_pilha fx + 1\<rparr>"
  note t = dir_tamanho[OF assms(1,2)]
  have d: "itype ?I = FS_DIR" "blocos_ok fs (blocos fs d)" using assms(2) by (simp_all add: dir_ok_def)
  have bx: "bks ?fs = bks fs" using x(1) by (simp add: bks_def)
  have "procura_dir ?fs ?I s 0 (num_dentrys ?I) page = Inr (map_of (ents (paginas_de fs (blocos fs d)) (num_dentrys ?I)) s, ?fs)" for page
  proof (rule procura_dir_ok)
    show "num_dentrys ?I \<le> 32 * length (paginas_de fs (blocos fs d))" by (simp add: paginas_de_def t(3))
    show "0 + j < length (iblocks ?I) \<and> unat (iblocks ?I ! (0 + j)) < unat (num_blocks (bks ?fs)) \<and>
        blocks (bks ?fs) ! unat (iblocks ?I ! (0 + j)) = paginas_de fs (blocos fs d) ! j" if "j < length (paginas_de fs (blocos fs d))" for j
      using paginas_no_disco[OF assms(2) that] unfolding bx by simp
  qed (rule d(1))
  then show ?thesis using t(6) x(2) by (simp add: fsi_dir_search_def novo_buf_def inode_em_def entradas_def Let_def)
qed

section \<open>Writing a page\<close>

lemma escrever_d_ok:
  assumes c: "cache_ok (cache fs)" and b: "unat w < unat (num_blocks (bks fs))" "mapa (tabela (cache fs)) (int (unat w)) = None"
    and x: "length x = BLOCK_SIZE"
  shows "\<exists>D. escrever_d fs w x = fs\<lparr>cache := (cache fs)\<lparr>disco := D\<rparr>\<rparr> \<and> cache_ok ((cache fs)\<lparr>disco := D\<rparr>) \<and>
    num_blocks D = num_blocks (bks fs) \<and> block_size D = block_size (bks fs) \<and> blocks D = (blocks (bks fs))[unat w := x] \<and>
    (\<forall>k. vista ((cache fs)\<lparr>disco := D\<rparr>) k = (if k = int (unat w) then x else vista (cache fs) k))"
proof -
  define D where "D = snd (block_write (bks fs) w x)"
  note ok = cache_okD[OF c]
  have D: "num_blocks D = num_blocks (bks fs)" "block_size D = block_size (bks fs)" "blocks D = (blocks (bks fs))[unat w := x]"
    using b(1) ok(3) x by (simp_all add: D_def block_write_def word_le_nat_alt bks_def)
  have dok: "disco_ok D" unfolding D_def by (rule block_write_ok) (use ok(2,3) x in \<open>simp_all add: bks_def\<close>)
  have l: "length (blocks (bks fs)) = unat (num_blocks (bks fs))" using ok(2) by (simp add: disco_ok_def bks_def)
  have bl: "blocks D ! nat k = (if k = int (unat w) then x else blocks (bks fs) ! nat k)" if "0 \<le> k" for k
  proof (cases "k = int (unat w)")
    case True
    then have "nat k = unat w" by simp
    then show ?thesis using True b(1) l by (simp add: D(3))
  next
    case False
    then have "nat k \<noteq> unat w" using that by (metis int_nat_eq)
    then show ?thesis using False by (simp add: D(3))
  qed
  let ?c = "(cache fs)\<lparr>disco := D\<rparr>"
  have "cache_ok ?c"
  proof (rule cache_okI)
    fix k a assume m: "mapa (tabela ?c) k = Some a"
    then have e: "entrada_ok (cache fs) k a" using ok(4) by simp
    have "k \<noteq> int (unat w)" using m b(2) by auto
    then have "blocks D ! nat k = blocks (disco (cache fs)) ! nat k" using e bl[of k] by (simp add: entrada_ok_def bks_def)
    then show "entrada_ok ?c k a" using e D(1) by (simp add: entrada_ok_def bks_def)
    fix k' assume "mapa (tabela ?c) k' = Some a"
    then show "k = k'" using m ok(5) by simp
  qed (use ok dok D(2) in \<open>simp_all add: bks_def\<close>)
  moreover have "vista ?c k = (if k = int (unat w) then x else vista (cache fs) k)" for k
  proof (cases "0 \<le> k")
    case True
    then show ?thesis using bl[of k] b(2) by (auto simp: vista_def bks_def split: option.splits)
  qed (auto simp: vista_def)
  moreover have "escrever_d fs w x = fs\<lparr>cache := ?c\<rparr>" by (simp add: escrever_d_def poe_bks_def D_def)
  ultimately show ?thesis using D by (intro exI[of _ D]) simp
qed

section \<open>Adding an entry\<close>

text \<open>
  What fs_create and fs_mkdir need: a directory that is not full, an inode and, at the end of a
  page, a block; a free block is not in the cache.
\<close>

definition ha_lugar :: "fs_t \<Rightarrow> nat \<Rightarrow> bool" where
  "ha_lugar fs d \<longleftrightarrow>
     length (entradas fs d) < 320 \<and> (\<exists>i < ITAB_SIZE. \<not> ocupado (inode_bmap fs) i) \<and>
     (length (entradas fs d) mod 32 = 0 \<longrightarrow> blocos_livres fs \<noteq> {}) \<and>
     (\<forall>b \<in> blocos_livres fs. mapa (tabela (cache fs)) (int b) = None)"

text \<open>The block \<open>b\<close> that takes entry \<open>n\<close>: the page the directory has, or a free block.\<close>

definition pagina_para :: "fs_t \<Rightarrow> nat \<Rightarrow> nat \<Rightarrow> nat \<Rightarrow> bool" where
  "pagina_para fs d n b \<longleftrightarrow>
     10 \<le> b \<and> b < unat (num_blocks (bks fs)) \<and> mapa (tabela (cache fs)) (int b) = None \<and>
     (if n mod 32 = 0 then b \<in> blocos_livres fs else n div 32 < length (blocos fs d) \<and> b = blocos fs d ! (n div 32))"

lemma nova_pagina_ok:
  assumes ok: "fs_ok fs" and d: "dir_ok fs d" and r: "ha_lugar fs d"
  defines "I \<equiv> inode_tab fs ! d" and "n \<equiv> length (entradas fs d)"
  shows "\<exists>b bm. nova_pagina (fs\<lparr>escritores := 1, n_pilha := p\<rparr>) d =
      Inr (True, fs\<lparr>escritores := 1, n_pilha := p, blk_bmap := bm, inode_tab := (inode_tab fs)[d := I\<lparr>iblocks := (iblocks I)[n div 32 := of_nat b]\<rparr>]\<rparr>) \<and>
    length bm = 512 \<and> (\<forall>j < 4096. ocupado bm j = (j = b \<or> ocupado (blk_bmap fs) j)) \<and> pagina_para fs d n b"
proof -
  let ?fs = "fs\<lparr>escritores := 1, n_pilha := p\<rparr>" and ?nb = "unat (num_blocks (bks fs))"
  note t = dir_tamanho[OF ok d, folded I_def]
  have n: "num_dentrys I = n" "n < 320" using t(4) r by (simp_all add: n_def ha_lugar_def)
  have o: "?nb \<le> 4096" "length (blk_bmap fs) = 512" "\<forall>b < 10. ocupado (blk_bmap fs) b"
    using ok by (simp_all add: fs_ok_def fs_meta_def BLOCK_SIZE_def)
  have "unat (isize I mod 512) = 16 * (n mod 32)" using t(1) n mod_mult_mult1[of 16 n 32] by (simp add: unat_mod)
  then have m: "isize I mod 512 = 0 \<longleftrightarrow> n mod 32 = 0" by (metis mult_eq_0_iff unat_eq_0 zero_neq_numeral)
  have k: "unat (isize I div 512) = n div 32" using t(1) n div_mult_mult1[of 16 n 32] by (simp add: unat_div)
  show ?thesis
  proof (cases "n mod 32 = 0")
    case True
    then obtain b0 where "b0 < ?nb" "\<not> ocupado (blk_bmap fs) b0" using r by (auto simp: ha_lugar_def n_def blocos_livres_def)
    then obtain b where b: "blk_livre fs = Inr (Some b)" "b < ?nb" "\<not> ocupado (blk_bmap fs) b"
      using fsi_bmap_find_free_ok[of ?nb "blk_bmap fs"] o(1,2)
      by (auto simp: blk_livre_def block_num_blocks_def split: option.splits)
    obtain bm where bm: "BMAP_SET (blk_bmap fs) b = Inr bm" "length bm = 512"
      "\<forall>j < 4096. ocupado bm j = (j = b \<or> ocupado (blk_bmap fs) j)"
      using BMAP_SET_ok[of b "blk_bmap fs"] b(2) o(1,2) by auto
    have "b \<in> blocos_livres fs" "10 \<le> b" using b o(3) by (auto simp: blocos_livres_def not_less[symmetric])
    then have "pagina_para fs d n b" using True r by (simp add: pagina_para_def ha_lugar_def b(2))
    moreover have "blk_livre ?fs = blk_livre fs" by (simp add: blk_livre_def bks_def)
    ultimately show ?thesis
      using True m b(1) bm poe_iblock_ok[of d "?fs\<lparr>blk_bmap := bm\<rparr>" "n div 32" "of_nat b"] t(5,6) n k
      by (intro exI[of _ b] exI[of _ bm])
        (simp add: nova_pagina_def inode_em_def ocupa_blk_def I_def[symmetric])
  next
    case False
    have l: "n div 32 < length (blocos fs d)" using False t(3) n(1) by (simp add: paginas_num)
    let ?b = "blocos fs d ! (n div 32)"
    have b: "?b \<in> set (blocos fs d)" using l by simp
    then have "pagina_para fs d n ?b" using d l False by (auto simp: pagina_para_def dir_ok_def blocos_ok_def)
    moreover have "of_nat ?b = iblocks I ! (n div 32)" using l by (simp add: blocos_def I_def)
    then have "I\<lparr>iblocks := (iblocks I)[n div 32 := of_nat ?b]\<rparr> = I" by simp
    then have "(inode_tab fs)[d := I\<lparr>iblocks := (iblocks I)[n div 32 := of_nat ?b]\<rparr>] = inode_tab fs" by (simp add: I_def)
    moreover have "ocupado (blk_bmap fs) ?b" using d b by (simp add: dir_ok_def blocos_ok_def)
    ultimately show ?thesis
      using False m t(6) o(2) by (intro exI[of _ ?b] exI[of _ "blk_bmap fs"]) (auto simp: nova_pagina_def inode_em_def I_def[symmetric])
  qed
qed

definition criada_em :: "fs_t \<Rightarrow> nat \<Rightarrow> nat \<Rightarrow> fs_itype_t \<Rightarrow> nat \<Rightarrow> byte list \<Rightarrow> byte list \<Rightarrow> blocks_t \<Rightarrow> nat \<Rightarrow> fs_t" where
  "criada_em fs d f t b bm ib D p =
     (let I = inode_tab fs ! d in
      fs\<lparr>inode_tab := (inode_tab fs)[d := I\<lparr>iblocks := (iblocks I)[num_dentrys I div 32 := of_nat b], isize := isize I + 16\<rparr>,
          f := fsi_inode_init (inode_tab fs ! f) t],
        blk_bmap := bm, inode_bmap := ib, cache := (cache fs)\<lparr>disco := D\<rparr>, n_pilha := p, escritores := 1\<rparr>)"

lemma acrescenta_ok:
  fixes f :: nat
  assumes c: "cache_ok (cache fs)" and i: "d < length (inode_tab fs)" "itype (inode_tab fs ! d) = FS_DIR"
    and k: "num_dentrys (inode_tab fs ! d) div 32 < length (iblocks (inode_tab fs ! d))"
      "iblocks (inode_tab fs ! d) ! (num_dentrys (inode_tab fs ! d) div 32) = of_nat b"
      "unat (isize (inode_tab fs ! d)) = 16 * num_dentrys (inode_tab fs ! d)"
    and b: "b < unat (num_blocks (bks fs))" "unat (num_blocks (bks fs)) \<le> 4096" "mapa (tabela (cache fs)) (int b) = None"
    and s: "0 \<notin> set s" "length s < FS_MAX_FNAME_SZ"
  defines "e \<equiv> num_dentrys (inode_tab fs ! d) mod 32"
  defines "x \<equiv> poe_dinode (poe_dnome (blocks (bks fs) ! b) e s) e (of_nat f)"
  shows "\<exists>D. acrescenta fs d s f = Inr (fs\<lparr>n_pilha := n_pilha fs + 1, cache := (cache fs)\<lparr>disco := D\<rparr>,
        inode_tab := (inode_tab fs)[d := (inode_tab fs ! d)\<lparr>isize := isize (inode_tab fs ! d) + 16\<rparr>]\<rparr>) \<and>
    length x = BLOCK_SIZE \<and> cache_ok ((cache fs)\<lparr>disco := D\<rparr>) \<and> num_blocks D = num_blocks (bks fs) \<and>
    block_size D = block_size (bks fs) \<and> blocks D = (blocks (bks fs))[b := x] \<and>
    (\<forall>k. vista ((cache fs)\<lparr>disco := D\<rparr>) k = (if k = int b then x else vista (cache fs) k))"
proof -
  let ?I = "inode_tab fs ! d" and ?fs = "fs\<lparr>n_pilha := n_pilha fs + 1\<rparr>"
  define n where "n = num_dentrys ?I"
  note ok = cache_okD[OF c]
  have u: "unat (of_nat b :: 32 word) = b" using sint_bloco(2)[of b] b by simp
  have e: "e < 32" by (simp add: e_def)
  have lp: "length (blocks (bks fs) ! b) = BLOCK_SIZE"
    using ok(2,3) b(1) by (simp add: disco_ok_def bks_def)
  have lx: "length x = BLOCK_SIZE"
    unfolding x_def by (rule entrada_escrita(1)[OF lp _ s]) (use e in \<open>simp add: DIR_PAGE_ENTRIES_def\<close>)
  have "unat (isize ?I div 512) = n div 32" using k(3) div_mult_mult1[of 16 n 32] by (simp add: unat_div n_def)
  moreover have "unat (isize ?I mod 512 div 16) = e"
    using k(3) mod_mult_mult1[of 16 n 32] by (simp add: unat_div unat_mod n_def e_def)
  moreover have "ler_tipo ?fs (itype ?I) (of_nat b) page = Inr (blocks (bks fs) ! b, ?fs)" for page
    using le_disco_ok[of "of_nat b" "bks ?fs"] b(1) u i(2) by (simp add: ler_tipo_def FS_DIR_def FS_FILE_def bks_def)
  moreover obtain D where D: "escrever_d ?fs (of_nat b) x = ?fs\<lparr>cache := (cache fs)\<lparr>disco := D\<rparr>\<rparr>" "cache_ok ((cache fs)\<lparr>disco := D\<rparr>)"
    "num_blocks D = num_blocks (bks fs)" "block_size D = block_size (bks fs)" "blocks D = (blocks (bks fs))[b := x]"
    "\<forall>k. vista ((cache fs)\<lparr>disco := D\<rparr>) k = (if k = int b then x else vista (cache fs) k)"
    using escrever_d_ok[of ?fs "of_nat b" x] c b lx u by (auto simp: bks_def)
  moreover have "itype ?I \<noteq> FS_FILE" using i(2) by (simp add: FS_DIR_def FS_FILE_def)
  ultimately have "acrescenta fs d s f = Inr (?fs\<lparr>cache := (cache fs)\<lparr>disco := D\<rparr>,
        inode_tab := (inode_tab fs)[d := ?I\<lparr>isize := isize ?I + 16\<rparr>]\<rparr>)"
    using i(1) k(1,2) by (simp add: acrescenta_def novo_buf_def inode_em_def poe_inode_def Let_def n_def[symmetric] x_def[symmetric])
  then show ?thesis using D lx by (intro exI[of _ D]) simp
qed

text \<open>The part fs_create and fs_mkdir share runs to its end.\<close>

lemma cria_entrada_corre:
  assumes ok: "fs_ok fs" and d: "dir_ok fs d" and r: "ha_lugar fs d"
    and s: "0 \<notin> set s" "length s < FS_MAX_FNAME_SZ" "map_of (entradas fs d) s = None"
  defines "n \<equiv> length (entradas fs d)"
  shows "\<exists>f b bm ib D p. cria_entrada (fs\<lparr>escritores := 1\<rparr>) d s t =
      Inr (0, Some (of_nat f), terminaEscrita (fsi_store_fsdata (criada_em fs d f t b bm ib D p))) \<and>
    f < ITAB_SIZE \<and> \<not> ocupado (inode_bmap fs) f \<and> length ib = 512 \<and> (\<forall>j < 4096. ocupado ib j = (j = f \<or> ocupado (inode_bmap fs) j)) \<and>
    length bm = 512 \<and> (\<forall>j < 4096. ocupado bm j = (j = b \<or> ocupado (blk_bmap fs) j)) \<and> pagina_para fs d n b \<and>
    cache_ok ((cache fs)\<lparr>disco := D\<rparr>) \<and> num_blocks D = num_blocks (bks fs) \<and> block_size D = block_size (bks fs) \<and>
    blocks D = (blocks (bks fs))[b := poe_dinode (poe_dnome (blocks (bks fs) ! b) (n mod 32) s) (n mod 32) (of_nat f)] \<and>
    (\<forall>k. k \<noteq> int b \<longrightarrow> vista ((cache fs)\<lparr>disco := D\<rparr>) k = vista (cache fs) k)"
proof -
  let ?I = "inode_tab fs ! d"
  note t = dir_tamanho[OF ok d]
  have n: "num_dentrys ?I = n" "n < 320" using t(4) r by (simp_all add: n_def ha_lugar_def)
  have di: "d < ITAB_SIZE" "ocupado (inode_bmap fs) d" "itype ?I = FS_DIR" using d by (simp_all add: dir_ok_def)
  have o: "unat (num_blocks (bks fs)) \<le> 4096" "cache_ok (cache fs)" "tab_ok (inode_tab fs)" using ok by (simp_all add: fs_ok_def fs_meta_def)
  obtain f where f: "fsi_bmap_find_free (inode_bmap fs) ITAB_SIZE = Inr (Some f)" "f < ITAB_SIZE" "\<not> ocupado (inode_bmap fs) f"
    using fsi_bmap_find_free_ok[of ITAB_SIZE "inode_bmap fs"] r t(7) by (auto simp: ha_lugar_def ITAB_SIZE_def split: option.splits)
  have fd: "f \<noteq> d" using f(3) di(2) by auto
  obtain ib where ib: "BMAP_SET (inode_bmap fs) f = Inr ib" "length ib = 512" "\<forall>j < 4096. ocupado ib j = (j = f \<or> ocupado (inode_bmap fs) j)"
    using BMAP_SET_ok[of f "inode_bmap fs"] f(2) t(7) by (auto simp: ITAB_SIZE_def)
  define p where "p = n_pilha fs + 1"
  obtain b bm where P: "nova_pagina (fs\<lparr>escritores := 1, n_pilha := p\<rparr>) d =
      Inr (True, fs\<lparr>escritores := 1, n_pilha := p, blk_bmap := bm, inode_tab := (inode_tab fs)[d := ?I\<lparr>iblocks := (iblocks ?I)[n div 32 := of_nat b]\<rparr>]\<rparr>)"
    "length bm = 512" "\<forall>j < 4096. ocupado bm j = (j = b \<or> ocupado (blk_bmap fs) j)" "pagina_para fs d n b"
    using nova_pagina_ok[OF ok d r, folded n_def] by blast
  define I1 where "I1 = ?I\<lparr>iblocks := (iblocks ?I)[n div 32 := of_nat b]\<rparr>"
  define fs1 where "fs1 = fs\<lparr>escritores := 1, n_pilha := p, blk_bmap := bm, inode_tab := (inode_tab fs)[d := I1]\<rparr>"
  have c1: "cache fs1 = cache fs" "bks fs1 = bks fs" "inode_tab fs1 ! d = I1" "n_pilha fs1 = p" "inode_bmap fs1 = inode_bmap fs" "length (inode_tab fs1) = length (inode_tab fs)"
    using t(6) by (simp_all add: fs1_def bks_def)
  have n1: "num_dentrys I1 = n" "isize I1 = isize ?I" using n(1) by (simp_all add: I1_def num_dentrys_def)
  have i1: "itype I1 = FS_DIR" "n div 32 < length (iblocks I1)" "iblocks I1 ! (n div 32) = of_nat b"
    using di(3) t(5) n(2) by (simp_all add: I1_def)
  have t1: "unat (isize ?I) = 16 * n" using t(1) n(1) by simp
  have b: "b < unat (num_blocks (bks fs))" "mapa (tabela (cache fs)) (int b) = None" using P(4) by (simp_all add: pagina_para_def)
  define x where "x = poe_dinode (poe_dnome (blocks (bks fs) ! b) (n mod 32) s) (n mod 32) (of_nat f)"
  obtain D where A: "acrescenta fs1 d s f = Inr (fs1\<lparr>n_pilha := p + 1, cache := (cache fs)\<lparr>disco := D\<rparr>,
        inode_tab := (inode_tab fs1)[d := I1\<lparr>isize := isize ?I + 16\<rparr>]\<rparr>)"
    and D: "cache_ok ((cache fs)\<lparr>disco := D\<rparr>)" "num_blocks D = num_blocks (bks fs)" "block_size D = block_size (bks fs)"
      "blocks D = (blocks (bks fs))[b := x]" "\<forall>k. vista ((cache fs)\<lparr>disco := D\<rparr>) k = (if k = int b then x else vista (cache fs) k)"
    using acrescenta_ok[of fs1 d b s, unfolded c1 n1, OF o(2) t(6) i1(1-3) t1 b(1) o(1) b(2) s(1,2), where f = f, folded x_def]
    by (elim exE conjE) (rule that)
  define fs2 where "fs2 = fs1\<lparr>n_pilha := Suc p, cache := (cache fs)\<lparr>disco := D\<rparr>, inode_tab := (inode_tab fs1)[d := I1\<lparr>isize := isize ?I + 16\<rparr>], inode_bmap := ib\<rparr>"
  have lf: "f < length (inode_tab fs)" using f(2) o(3) by (simp add: tab_ok_def)
  have "fs2\<lparr>inode_tab := (inode_tab fs2)[f := fsi_inode_init (inode_tab fs2 ! f) t]\<rparr> = criada_em fs d f t b bm ib D (Suc p)"
    using fd n(1) by (simp add: criada_em_def Let_def fs2_def fs1_def I1_def)
  then have F: "poe_inode fs2 f (fsi_inode_init (inode_tab fs2 ! f) t) = Inr (criada_em fs d f t b bm ib D (Suc p))" "f < length (inode_tab fs2)"
    using lf by (simp_all add: poe_inode_def fs2_def fs1_def)
  have L: "le_pos ((inode_tab fs1)[d := I1\<lparr>isize := isize ?I + 16\<rparr>]) f = Inr (inode_tab fs2 ! f)"
    using F(2) by (simp add: fs2_def)
  have S: "fsi_dir_search (fs\<lparr>escritores := 1\<rparr>) d s = Inr (-1, None, fs\<lparr>escritores := 1, n_pilha := p\<rparr>)"
    using fsi_dir_search_ok[OF ok d, of "fs\<lparr>escritores := 1\<rparr>" s] s(3) by (simp add: p_def bks_def)
  have "cria_entrada (fs\<lparr>escritores := 1\<rparr>) d s t = Inr (0, Some (of_nat f), terminaEscrita (fsi_store_fsdata (criada_em fs d f t b bm ib D (Suc p))))"
    unfolding cria_entrada_def
    using S P(1) A F L f(1) ib(1) di(3) t(6) c1(5)
    by (simp add: inode_em_def I1_def[symmetric] fs1_def[symmetric] fs2_def[symmetric] Let_def)
  then show ?thesis using f(2,3) ib(2,3) P(2-4) D unfolding x_def
    by (intro exI[of _ f] exI[of _ b] exI[of _ bm] exI[of _ ib] exI[of _ D] exI[of _ "Suc p"]) simp
qed

section \<open>The directory with one more entry\<close>

lemma store_blocos:
  assumes m: "fs_meta fs" and k: "10 \<le> k" "k < unat (num_blocks (bks fs))"
  shows "blocks (bks (fsi_store_fsdata fs)) ! k = blocks (bks fs) ! k"
proof -
  note s = store_le[OF m]
  have u: "unat (of_nat k :: 32 word) = k"
    using k(2) order.strict_trans[OF k(2) unsigned_less[of "num_blocks (bks fs)"]]
    by (simp only: unsigned_of_nat) (simp add: take_bit_nat_eq_self)
  have "block_read (bks (fsi_store_fsdata fs)) (of_nat k) = block_read (bks fs) (of_nat k)" using s(3)[OF k(2)] k(1) by simp
  moreover have "\<not> num_blocks (bks fs) \<le> of_nat k" using of_nat_bloco(2)[OF k(2)] by (simp add: not_le)
  ultimately show ?thesis using s(2) u by (simp add: block_read_def)
qed

lemma pagina_para_blocos:
  assumes "fs_ok fs" "dir_ok fs d" "n = length (entradas fs d)" "pagina_para fs d n b"
  shows "blocos fs d = take (n div 32) (blocos fs d) @ (if n mod 32 = 0 then [] else [b])"
    "b \<notin> set (take (n div 32) (blocos fs d))" "n div 32 \<le> length (blocos fs d)"
    "map unat (take (n div 32) (iblocks (inode_tab fs ! d))) = take (n div 32) (blocos fs d)"
proof -
  note t = dir_tamanho[OF assms(1,2)]
  have n: "num_dentrys (inode_tab fs ! d) = n" using t(4) assms(3) by simp
  have l: "length (blocos fs d) = (n + 31) div 32" using t(3) n by simp
  show k: "n div 32 \<le> length (blocos fs d)" unfolding l by (rule div_le_mono) simp
  show "map unat (take (n div 32) (iblocks (inode_tab fs ! d))) = take (n div 32) (blocos fs d)"
  proof -
    have "n div 32 \<le> OFFSET_TO_BLOCKS (isize (inode_tab fs ! d))" using k t(5) by (simp add: blocos_def)
    then show ?thesis by (simp add: blocos_def take_map[symmetric] min_absorb1)
  qed
  show "blocos fs d = take (n div 32) (blocos fs d) @ (if n mod 32 = 0 then [] else [b])"
  proof (cases "n mod 32 = 0")
    case True
    then have "length (blocos fs d) = n div 32" unfolding l by (simp add: paginas_num)
    then show ?thesis using True by simp
  next
    case False
    then have "length (blocos fs d) = Suc (n div 32)" unfolding l by (simp add: paginas_num)
    moreover have "b = blocos fs d ! (n div 32)" using assms(4) False by (simp add: pagina_para_def)
    ultimately show ?thesis using False by (metis lessI take_Suc_conv_app_nth take_all order.refl)
  qed
  show "b \<notin> set (take (n div 32) (blocos fs d))"
  proof (cases "n mod 32 = 0")
    case True
    then have "\<not> ocupado (blk_bmap fs) b" using assms(4) by (simp add: pagina_para_def blocos_livres_def)
    moreover have "\<forall>b \<in> set (blocos fs d). ocupado (blk_bmap fs) b" using assms(2) by (simp add: dir_ok_def blocos_ok_def)
    ultimately show ?thesis by (meson in_set_takeD)
  next
    case False
    then have "n div 32 < length (blocos fs d)" "b = blocos fs d ! (n div 32)" using assms(4) by (simp_all add: pagina_para_def)
    moreover have "distinct (blocos fs d)" using assms(2) by (simp add: dir_ok_def blocos_ok_def)
    ultimately show ?thesis by (auto simp: in_set_conv_nth nth_eq_iff_index_eq)
  qed
qed

text \<open>The page with the new entry still has the old ones.\<close>

lemma pagina_nova:
  fixes w :: inodeid_t
  assumes p: "length p = BLOCK_SIZE" and e: "e < 32" and s: "0 \<notin> set s" "length s < FS_MAX_FNAME_SZ"
    and o: "\<forall>x \<in> set (pagina_ent p e). length (fst x) < FS_MAX_FNAME_SZ"
  shows "pagina_ent (poe_dinode (poe_dnome p e s) e w) (Suc e) = pagina_ent p e @ [(s, w)]"
proof -
  let ?q = "poe_dinode (poe_dnome p e s) e w"
  have e32: "e < DIR_PAGE_ENTRIES" using e by (simp add: DIR_PAGE_ENTRIES_def)
  note w = entrada_escrita[OF p e32 s, where w = w]
  have "dnome ?q i = dnome p i \<and> dinode ?q i = dinode p i" if i: "i < e" for i
  proof -
    have "(dnome p i, dinode p i) \<in> set (pagina_ent p e)" using i by (simp add: pagina_ent_def)
    then have "length (dnome p i) < 16" using o by (force simp: FS_MAX_FNAME_SZ_def)
    then show ?thesis
      using dnome_igual[OF p w(1), of i] w(4) i e32 by (simp add: DIR_PAGE_ENTRIES_def)
  qed
  then have "pagina_ent ?q e = pagina_ent p e" by (simp add: pagina_ent_def)
  then show ?thesis using w(2,3) by (simp add: pagina_ent_Suc)
qed

text \<open>What a completed creation of inode \<open>f\<close> in directory \<open>d\<close>, with its page in block \<open>b\<close>, leaves.\<close>

definition criada :: "fs_t \<Rightarrow> nat \<Rightarrow> nome \<Rightarrow> fs_itype_t \<Rightarrow> nat \<Rightarrow> nat \<Rightarrow> fs_t \<Rightarrow> bool" where
  "criada fs d s t f b fs' \<longleftrightarrow>
     (let I = inode_tab fs ! d; n = length (entradas fs d) in
      inode_tab fs' = (inode_tab fs)[d := I\<lparr>iblocks := (iblocks I)[n div 32 := of_nat b], isize := isize I + 16\<rparr>,
        f := fsi_inode_init (inode_tab fs ! f) t] \<and>
      num_blocks (bks fs') = num_blocks (bks fs) \<and>
      (\<forall>k. 10 \<le> k \<longrightarrow> k < unat (num_blocks (bks fs)) \<longrightarrow> blocks (bks fs') ! k =
         (if k = b then poe_dinode (poe_dnome (blocks (bks fs) ! b) (n mod 32) s) (n mod 32) (of_nat f) else blocks (bks fs) ! k)) \<and>
      (\<forall>k. 10 \<le> k \<longrightarrow> k < unat (num_blocks (bks fs)) \<longrightarrow> k \<noteq> b \<longrightarrow> vista (cache fs') (int k) = vista (cache fs) (int k)) \<and>
      (\<forall>j < 4096. ocupado (inode_bmap fs') j = (j = f \<or> ocupado (inode_bmap fs) j)) \<and>
      (\<forall>j < 4096. ocupado (blk_bmap fs') j = (j = b \<or> ocupado (blk_bmap fs) j)) \<and>
      tabela (cache fs') = tabela (cache fs) \<and> numeroMaxNos (cache fs') = numeroMaxNos (cache fs) \<and>
      numeroNosUtilizados (cache fs') = numeroNosUtilizados (cache fs) \<and> referencias fs' = referencias fs)"

lemma criada_em_ok:
  fixes p :: nat and t :: fs_itype_t
  assumes ok: "fs_ok fs" and d: "dir_ok fs d" and n: "n = length (entradas fs d)" "n < 320"
    and f: "f < ITAB_SIZE" and ib: "length ib = 512" "\<forall>j < 4096. ocupado ib j = (j = f \<or> ocupado (inode_bmap fs) j)"
    and bm: "length bm = 512" "\<forall>j < 4096. ocupado bm j = (j = b \<or> ocupado (blk_bmap fs) j)" and b: "pagina_para fs d n b"
    and D: "cache_ok ((cache fs)\<lparr>disco := D\<rparr>)" "num_blocks D = num_blocks (bks fs)" "block_size D = block_size (bks fs)"
      "blocks D = (blocks (bks fs))[b := poe_dinode (poe_dnome (blocks (bks fs) ! b) (n mod 32) s) (n mod 32) (of_nat f)]"
      "\<forall>k. k \<noteq> int b \<longrightarrow> vista ((cache fs)\<lparr>disco := D\<rparr>) k = vista (cache fs) k"
  defines "fs' \<equiv> terminaEscrita (fsi_store_fsdata (criada_em fs d f t b bm ib D p))"
  shows "fs_ok fs'" "criada fs d s t f b fs'"
proof -
  let ?I = "inode_tab fs ! d" and ?nb = "unat (num_blocks (bks fs))"
  note tm = dir_tamanho[OF ok d]
  have nn: "num_dentrys ?I = n" using tm(4) n by simp
  have o: "fs_meta fs" "livre fs" "semente (cache fs)" "dom (mapa (tabela (cache fs))) \<subseteq> {10..}" "?nb \<le> 4096" "length (referencias fs) = ?nb"
    "\<forall>i. length (pilha fs i) = BLOCK_SIZE" "\<forall>b < 10. ocupado (blk_bmap fs) b"
    "\<forall>b < ?nb. \<not> ocupado (blk_bmap fs) b \<longrightarrow> referencias fs ! b = 0" "cache_ok (cache fs)"
    using ok by (simp_all add: fs_ok_def)
  define I' where "I' = ?I\<lparr>iblocks := (iblocks ?I)[n div 32 := of_nat b], isize := isize ?I + 16\<rparr>"
  define fs6 where "fs6 = criada_em fs d f t b bm ib D p"
  have f6: "inode_tab fs6 = (inode_tab fs)[d := I', f := fsi_inode_init (inode_tab fs ! f) t]" "blk_bmap fs6 = bm" "inode_bmap fs6 = ib"
    "cache fs6 = (cache fs)\<lparr>disco := D\<rparr>" "referencias fs6 = referencias fs" "pilha fs6 = pilha fs" "leitores fs6 = leitores fs"
    "escritores fs6 = 1" "wanna_leitor fs6 = wanna_leitor fs" "wanna_escritor fs6 = wanna_escritor fs" "bks fs6 = D"
    by (simp_all add: fs6_def criada_em_def Let_def I'_def nn bks_def)
  have tab: "tab_ok (inode_tab fs)" using o(1) by (simp add: fs_meta_def)
  then have io: "inode_ok ?I" "inode_ok (inode_tab fs ! f)" using tm(6) f by (simp_all add: tab_ok_def)
  have "inode_ok I'" using io(1) by (simp add: I'_def inode_ok_def)
  moreover have "inode_ok (fsi_inode_init (inode_tab fs ! f) t)" by (simp add: inode_ok_def fsi_inode_init_def)
  ultimately have t6: "tab_ok (inode_tab fs6)"
    using tab unfolding f6 tab_ok_def by (auto dest!: set_update_subset_insert[THEN subsetD])
  have "disco_ok D" using cache_okD(2)[OF D(1)] by simp
  then have m6: "fs_meta fs6" using t6 bm(1) ib(1) o(1) D(2,3) by (simp add: fs_meta_def meta_disco_def f6 BLOCK_SIZE_def)
  have dom6: "dom (mapa (tabela (cache fs6))) \<subseteq> {10..}" using o(4) f6(4) by simp
  have sc: "cache_ok (cache (fsi_store_fsdata fs6))" "\<And>k. 10 \<le> k \<Longrightarrow> k < ?nb \<Longrightarrow> vista (cache (fsi_store_fsdata fs6)) (int k) = vista (cache fs6) (int k)"
    using store_cache[OF m6 _ dom6] D(1,2) f6 by simp_all
  note sm = store_le(1,2)[OF m6] and sb = store_blocos[OF m6]
  let ?s = "fsi_store_fsdata fs6"
  have f': "inode_tab fs' = inode_tab fs6" "blk_bmap fs' = bm" "referencias fs' = referencias fs" "inode_bmap fs' = ib"
    "cache fs' = cache ?s" "pilha fs' = pilha fs"
    by (simp_all add: fs'_def fs6_def[symmetric] terminaEscrita_def store_campos f6)
  then have bk': "bks fs' = bks ?s" by (simp add: bks_def)
  have n': "num_blocks (bks fs') = num_blocks (bks fs)" using sm(2) D(2) bk' f6 by simp
  have oc: "ocupado bm k = (k = b \<or> ocupado (blk_bmap fs) k)" if "k < ?nb" for k using bm(2) that o(5) by simp
  show "fs_ok fs'"
    unfolding fs_ok_def
  proof (intro conjI)
    show "fs_meta fs'" using sm m6 f' f6 bk' by (simp add: fs_meta_def)
    show "cache_ok (cache fs')" using sc(1) f'(5) by simp
    show "semente (cache fs')" using o(3) f6 f'(5) by (simp add: semente_def store_campos)
    show "livre fs'" using o(2) f6 by (simp add: fs'_def fs6_def[symmetric] terminaEscrita_def livre_def store_campos)
    show "dom (mapa (tabela (cache fs'))) \<subseteq> {10..}" using dom6 f'(5) by (simp add: store_campos)
    show "unat (num_blocks (bks fs')) \<le> 4096" "length (referencias fs') = unat (num_blocks (bks fs'))" using n' o(5,6) f' by simp_all
    show "\<forall>i. length (pilha fs' i) = BLOCK_SIZE" using o(7) f' by simp
    have "10 \<le> ?nb" using o(1) by (simp add: fs_meta_def meta_disco_def)
    then show "\<forall>b < 10. ocupado (blk_bmap fs') b" using o(8) f' oc by simp
    show "\<forall>b < unat (num_blocks (bks fs')). \<not> ocupado (blk_bmap fs') b \<longrightarrow> referencias fs' ! b = 0"
      using o(9) f' oc n' by simp
  qed
  have lb: "length (blocks (bks fs)) = ?nb" using cache_okD(2)[OF o(10)] by (simp add: disco_ok_def bks_def)
  have "blocks (bks fs') ! k = (if k = b then poe_dinode (poe_dnome (blocks (bks fs) ! b) (n mod 32) s) (n mod 32) (of_nat f) else blocks (bks fs) ! k)"
    if "10 \<le> k" "k < ?nb" for k
    using sb[of k] that D(2,4) bk' f6(11) lb by (simp add: nth_list_update)
  moreover have "vista (cache fs') (int k) = vista (cache fs) (int k)" if "10 \<le> k" "k < ?nb" "k \<noteq> b" for k
    using sc(2)[of k] D(5) that f'(5) f6(4) by simp
  ultimately show "criada fs d s t f b fs'"
    unfolding criada_def Let_def n(1)[symmetric] using n' f' f6 ib(2) bm(2) by (simp add: I'_def store_campos)
qed

lemma criadaD:
  assumes "criada fs d s t f b fs'" "n = length (entradas fs d)"
  shows "inode_tab fs' = (inode_tab fs)[d := (inode_tab fs ! d)\<lparr>iblocks := (iblocks (inode_tab fs ! d))[n div 32 := of_nat b], isize := isize (inode_tab fs ! d) + 16\<rparr>,
        f := fsi_inode_init (inode_tab fs ! f) t]"
    "num_blocks (bks fs') = num_blocks (bks fs)"
    "\<And>k. 10 \<le> k \<Longrightarrow> k < unat (num_blocks (bks fs)) \<Longrightarrow> k \<noteq> b \<Longrightarrow> blocks (bks fs') ! k = blocks (bks fs) ! k"
    "\<And>k. 10 \<le> k \<Longrightarrow> k < unat (num_blocks (bks fs)) \<Longrightarrow> k \<noteq> b \<Longrightarrow> vista (cache fs') (int k) = vista (cache fs) (int k)"
    "10 \<le> b \<Longrightarrow> b < unat (num_blocks (bks fs)) \<Longrightarrow> blocks (bks fs') ! b = poe_dinode (poe_dnome (blocks (bks fs) ! b) (n mod 32) s) (n mod 32) (of_nat f)"
    "\<And>j. j < 4096 \<Longrightarrow> ocupado (inode_bmap fs') j = (j = f \<or> ocupado (inode_bmap fs) j)"
    "\<And>j. j < 4096 \<Longrightarrow> ocupado (blk_bmap fs') j = (j = b \<or> ocupado (blk_bmap fs) j)"
    "tabela (cache fs') = tabela (cache fs)" "numeroMaxNos (cache fs') = numeroMaxNos (cache fs)"
    "numeroNosUtilizados (cache fs') = numeroNosUtilizados (cache fs)" "referencias fs' = referencias fs"
  using assms by (simp_all add: criada_def Let_def)

lemma criada_dir:
  assumes ok: "fs_ok fs" and d: "dir_ok fs d" and n: "n = length (entradas fs d)" "n < 320" and c: "criada fs d s t f b fs'"
    and b: "pagina_para fs d n b" and s: "0 \<notin> set s" "length s < FS_MAX_FNAME_SZ" and f: "f \<noteq> d"
  shows "entradas fs' d = entradas fs d @ [(s, of_nat f)]" "blocos fs' d = take (n div 32) (blocos fs d) @ [b]" "dir_ok fs' d"
proof -
  let ?I = "inode_tab fs ! d" and ?nb = "unat (num_blocks (bks fs))"
  note C = criadaD[OF c n(1)] and tm = dir_tamanho[OF ok d] and B = pagina_para_blocos[OF ok d n(1) b]
  have nn: "num_dentrys ?I = n" using tm(4) n(1) by simp
  have o: "?nb \<le> 4096" "cache_ok (cache fs)" using ok by (simp_all add: fs_ok_def)
  have b': "10 \<le> b" "b < ?nb" "mapa (tabela (cache fs)) (int b) = None" using b by (simp_all add: pagina_para_def)
  have I: "inode_tab fs' ! d = ?I\<lparr>iblocks := (iblocks ?I)[n div 32 := of_nat b], isize := isize ?I + 16\<rparr>"
    using C(1) tm(6) f by simp
  have sz: "unat (isize ?I + 16) = 16 * Suc n" using tm(1) nn n(2) unat_soma[of "isize ?I" 16] by simp
  have n1: "num_dentrys (inode_tab fs' ! d) = Suc n" unfolding num_dentrys_def I using sz by (simp add: unat_div)
  have ob: "OFFSET_TO_BLOCKS (isize ?I + 16) = Suc (n div 32)" unfolding OFFSET_TO_BLOCKS_ok sz paginas_bytes by simp
  have k: "n div 32 < length (iblocks ?I)" using tm(5) n(2) by simp
  have "take (Suc (n div 32)) ((iblocks ?I)[n div 32 := of_nat b]) = take (n div 32) (iblocks ?I) @ [of_nat b]"
    using k by (simp add: take_Suc_conv_app_nth)
  then show bl: "blocos fs' d = take (n div 32) (blocos fs d) @ [b]"
    using B(4) sint_bloco(2)[of b] b'(2) o(1) by (simp add: blocos_def[of fs'] I ob)
  let ?bs = "take (n div 32) (blocos fs d)"
  have tb: "10 \<le> x \<and> x < ?nb \<and> x \<noteq> b \<and> ocupado (blk_bmap fs) x \<and> mapa (tabela (cache fs)) (int x) = None" if "x \<in> set ?bs" for x
  proof -
    have "x \<in> set (blocos fs d)" "x \<noteq> b" using that B(2) by (auto dest: in_set_takeD)
    then show ?thesis using d by (simp add: dir_ok_def blocos_ok_def)
  qed
  have pg: "paginas_de fs' ?bs = paginas_de fs ?bs" unfolding paginas_de_def using C(3) tb by simp
  have l: "length (paginas_de fs ?bs) = n div 32" using B(3) by (simp add: paginas_de_def)
  have e: "n = 32 * length (paginas_de fs ?bs) + n mod 32" unfolding l by simp
  let ?p = "blocks (bks fs) ! b"
  have old: "entradas fs d = ents (paginas_de fs ?bs) (32 * length (paginas_de fs ?bs)) @ pagina_ent ?p (n mod 32)"
  proof (cases "n mod 32 = 0")
    case True
    then have "blocos fs d = ?bs" "n = 32 * length (paginas_de fs ?bs)" using B(1) e by simp_all
    then show ?thesis unfolding entradas_def nn using True by (metis append_Nil2 pagina_ent_0)
  next
    case False
    then have "blocos fs d = ?bs @ [b]" using B(1) by simp
    then have "paginas_de fs (blocos fs d) = paginas_de fs (?bs @ [b])" by (rule arg_cong)
    then have "paginas_de fs (blocos fs d) = paginas_de fs ?bs @ [?p]" by (simp add: paginas_de_def)
    then show ?thesis unfolding entradas_def nn using ents_fim[of "n mod 32" "paginas_de fs ?bs" ?p] e by simp
  qed
  have lp: "length ?p = BLOCK_SIZE" using cache_okD(2,3)[OF o(2)] b'(2) by (simp add: disco_ok_def bks_def)
  have nm: "\<forall>x \<in> set (entradas fs d). length (fst x) < FS_MAX_FNAME_SZ" using d by (simp add: dir_ok_def)
  have pn: "pagina_ent (blocks (bks fs') ! b) (Suc (n mod 32)) = pagina_ent ?p (n mod 32) @ [(s, of_nat f)]"
    unfolding C(5)[OF b'(1,2)] by (rule pagina_nova[OF lp _ s]) (use nm in \<open>simp_all add: old\<close>)
  have "entradas fs' d = ents (paginas_de fs ?bs @ [blocks (bks fs') ! b]) (32 * length (paginas_de fs ?bs) + Suc (n mod 32))"
  proof -
    have "paginas_de fs' (?bs @ [b]) = paginas_de fs' ?bs @ [blocks (bks fs') ! b]" by (simp add: paginas_de_def)
    moreover have "Suc n = 32 * length (paginas_de fs ?bs) + Suc (n mod 32)" using e by linarith
    ultimately show ?thesis unfolding entradas_def n1 bl pg by simp
  qed
  also have "\<dots> = ents (paginas_de fs ?bs) (32 * length (paginas_de fs ?bs)) @ pagina_ent (blocks (bks fs') ! b) (Suc (n mod 32))"
    by (rule ents_fim) (simp add: Suc_le_eq)
  finally show en: "entradas fs' d = entradas fs d @ [(s, of_nat f)]" unfolding pn old by simp
  have "unat ((isize ?I + 16) mod 16) = 0" unfolding unat_mod sz by simp
  then have "(isize ?I + 16) mod 16 = 0" by (simp only: unat_eq_0)
  moreover have "ocupado (blk_bmap fs') x" if "x \<in> set (?bs @ [b])" for x
    using that C(7)[of x] tb[of x] b'(2) o(1) by auto
  then have "blocos_ok fs' (?bs @ [b])"
    using tb b'(1,2) C(2) d B(2) by (auto simp: blocos_ok_def dir_ok_def)
  ultimately show "dir_ok fs' d"
    using d sz n(2) b'(3) tb C(6,8) en s(2) unfolding dir_ok_def bl I by (auto simp: ITAB_SIZE_def)
qed

text \<open>The other files and directories, and the new one.\<close>

lemma pagina_para_fora:
  assumes "dir_ok fs d" "pagina_para fs d n b" "blocos_ok fs bs" "set bs \<inter> set (blocos fs d) = {}"
  shows "b \<notin> set bs"
proof (cases "n mod 32 = 0")
  case True
  then show ?thesis using assms(2,3) by (auto simp: pagina_para_def blocos_livres_def blocos_ok_def)
next
  case False
  then have "b \<in> set (blocos fs d)" using assms(2) by (simp add: pagina_para_def)
  then show ?thesis using assms(4) by blast
qed

lemma criada_outros:
  assumes ok: "fs_ok fs" and d: "dir_ok fs d" and n: "n = length (entradas fs d)" and c: "criada fs d s t f b fs'"
    and b: "pagina_para fs d n b" and f: "f < ITAB_SIZE" "\<not> ocupado (inode_bmap fs) f"
    and g: "g \<noteq> d" "g < ITAB_SIZE" "ocupado (inode_bmap fs) g" "blocos_ok fs (blocos fs g)" "set (blocos fs g) \<inter> set (blocos fs d) = {}"
  shows "inode_tab fs' ! g = inode_tab fs ! g" "blocos fs' g = blocos fs g" "blocos_ok fs' (blocos fs g)" "ocupado (inode_bmap fs') g"
    "conteudo_f fs' g = conteudo_f fs g" "entradas fs' g = entradas fs g" "b \<notin> set (blocos fs g)"
proof -
  let ?nb = "unat (num_blocks (bks fs))"
  note C = criadaD[OF c n]
  have o: "?nb \<le> 4096" using ok by (simp add: fs_ok_def)
  have gf: "g \<noteq> f" using g(3) f(2) by auto
  show ig: "inode_tab fs' ! g = inode_tab fs ! g" using C(1) g(1) gf by simp
  then show bg: "blocos fs' g = blocos fs g" by (simp add: blocos_def)
  show bn: "b \<notin> set (blocos fs g)" by (rule pagina_para_fora[OF d b g(4,5)])
  have gb: "10 \<le> x" "x < ?nb" "x \<noteq> b" "ocupado (blk_bmap fs) x" if "x \<in> set (blocos fs g)" for x
    using that g(4) bn by (auto simp: blocos_ok_def)
  show "ocupado (inode_bmap fs') g" using C(6)[of g] g(2,3) by (simp add: ITAB_SIZE_def)
  have "ocupado (blk_bmap fs') x" if "x \<in> set (blocos fs g)" for x using C(7)[of x] gb[OF that] o by simp
  then show "blocos_ok fs' (blocos fs g)" using g(4) C(2) by (simp add: blocos_ok_def)
  have "bytes (cache fs') (blocos fs g) = bytes (cache fs) (blocos fs g)"
    by (rule bytes_igual) (use C(4) gb in blast)
  then show "conteudo_f fs' g = conteudo_f fs g" using ig bg by (simp add: conteudo_f_def)
  have "paginas_de fs' (blocos fs g) = paginas_de fs (blocos fs g)" using C(3) gb by (simp add: paginas_de_def)
  then show "entradas fs' g = entradas fs g" by (simp add: entradas_def bg ig)
qed

lemma criada_outro_dir:
  assumes "fs_ok fs" "dir_ok fs d" "n = length (entradas fs d)" "criada fs d s t f b fs'" "pagina_para fs d n b" "f < ITAB_SIZE"
    "\<not> ocupado (inode_bmap fs) f" "g \<noteq> d" "dir_ok fs g" "set (blocos fs g) \<inter> set (blocos fs d) = {}"
  shows "dir_ok fs' g" "entradas fs' g = entradas fs g" "blocos fs' g = blocos fs g"
proof -
  have g: "g < ITAB_SIZE" "ocupado (inode_bmap fs) g" "blocos_ok fs (blocos fs g)" using assms(9) by (simp_all add: dir_ok_def)
  note o = criada_outros[OF assms(1-8) g assms(10)]
  show "entradas fs' g = entradas fs g" "blocos fs' g = blocos fs g" by (rule o)+
  then show "dir_ok fs' g" using assms(9) o criadaD(8)[OF assms(4,3)] by (simp add: dir_ok_def)
qed

lemma criada_outro_ficheiro:
  assumes "fs_ok fs" "dir_ok fs d" "n = length (entradas fs d)" "criada fs d s t f b fs'" "pagina_para fs d n b" "f < ITAB_SIZE"
    "\<not> ocupado (inode_bmap fs) f" "ficheiro fs g" "set (blocos fs g) \<inter> set (blocos fs d) = {}"
  shows "ficheiro fs' g" "conteudo_f fs' g = conteudo_f fs g" "blocos fs' g = blocos fs g"
proof -
  have g: "g < ITAB_SIZE" "ocupado (inode_bmap fs) g" "blocos_ok fs (blocos fs g)" using assms(8) by (simp_all add: ficheiro_def)
  have "g \<noteq> d" using assms(2,8) by (auto simp: dir_ok_def ficheiro_def FS_DIR_def FS_FILE_def)
  note o = criada_outros[OF assms(1-7) this g assms(9)]
  show "conteudo_f fs' g = conteudo_f fs g" "blocos fs' g = blocos fs g" by (rule o)+
  then show "ficheiro fs' g" using assms(8) o by (simp add: ficheiro_def)
qed

lemma criada_novo:
  assumes ok: "fs_ok fs" and d: "dir_ok fs d" and c: "criada fs d s t f b fs'" and f: "f < ITAB_SIZE" "f \<noteq> d"
  shows "blocos fs' f = []" "conteudo_f fs' f = []" "entradas fs' f = []" "t = FS_DIR \<Longrightarrow> dir_ok fs' f" "t = FS_FILE \<Longrightarrow> ficheiro fs' f"
proof -
  note C = criadaD[OF c refl]
  have "f < length (inode_tab fs)" using inode_do_ficheiro(2)[OF ok f(1)] .
  then have i: "inode_tab fs' ! f = fsi_inode_init (inode_tab fs ! f) t" using C(1) by simp
  then have z: "isize (inode_tab fs' ! f) = 0" "itype (inode_tab fs' ! f) = t" by (simp_all add: fsi_inode_init_def)
  then show b: "blocos fs' f = []" by (simp add: blocos_def OFFSET_TO_BLOCKS_def)
  then show "conteudo_f fs' f = []" by (simp add: conteudo_f_def z)
  show e: "entradas fs' f = []" by (simp add: entradas_def num_dentrys_def z)
  have o: "ocupado (inode_bmap fs') f" using C(6)[of f] f(1) by (simp add: ITAB_SIZE_def)
  show "dir_ok fs' f" if "t = FS_DIR" using that f(1) o z b e by (simp add: dir_ok_def blocos_ok_def)
  show "ficheiro fs' f" if "t = FS_FILE" using that f(1) o z b by (simp add: ficheiro_def blocos_ok_def)
qed

section \<open>The tree of directories\<close>

text \<open>
  A file system in which every inode in use is well formed and no directory shares a block with
  another inode; the cache holds no free block.
\<close>

definition arvore_dirs :: "fs_t \<Rightarrow> bool" where
  "arvore_dirs fs \<longleftrightarrow>
     fs_ok fs \<and>
     (\<forall>g < ITAB_SIZE. ocupado (inode_bmap fs) g \<longrightarrow>
        (itype (inode_tab fs ! g) = FS_DIR \<longrightarrow> dir_ok fs g) \<and> (itype (inode_tab fs ! g) = FS_FILE \<longrightarrow> ficheiro fs g)) \<and>
     (\<forall>d g. dir_ok fs d \<longrightarrow> dir_ok fs g \<or> ficheiro fs g \<longrightarrow> g \<noteq> d \<longrightarrow> set (blocos fs g) \<inter> set (blocos fs d) = {}) \<and>
     (\<forall>b \<in> blocos_livres fs. mapa (tabela (cache fs)) (int b) = None)"

lemma arvore_dirsD:
  assumes "arvore_dirs fs"
  shows "fs_ok fs"
    "\<And>g. g < ITAB_SIZE \<Longrightarrow> ocupado (inode_bmap fs) g \<Longrightarrow> itype (inode_tab fs ! g) = FS_DIR \<Longrightarrow> dir_ok fs g"
    "\<And>g. g < ITAB_SIZE \<Longrightarrow> ocupado (inode_bmap fs) g \<Longrightarrow> itype (inode_tab fs ! g) = FS_FILE \<Longrightarrow> ficheiro fs g"
    "\<And>d g. dir_ok fs d \<Longrightarrow> dir_ok fs g \<or> ficheiro fs g \<Longrightarrow> g \<noteq> d \<Longrightarrow> set (blocos fs g) \<inter> set (blocos fs d) = {}"
    "\<And>b. b \<in> blocos_livres fs \<Longrightarrow> mapa (tabela (cache fs)) (int b) = None"
  using assms unfolding arvore_dirs_def by blast+

text \<open>The inode a path leads to.\<close>

fun segue_caminho :: "fs_t \<Rightarrow> nome list \<Rightarrow> nat \<Rightarrow> nat option" where
  "segue_caminho fs [] d = Some d"
| "segue_caminho fs (t # ts) d =
     (if dir_ok fs d then
        case map_of (entradas fs d) t of None \<Rightarrow> None | Some f \<Rightarrow> segue_caminho fs ts (unat f)
      else None)"

lemma segue_append:
  "segue_caminho fs (ts @ us) d = (case segue_caminho fs ts d of None \<Rightarrow> None | Some e \<Rightarrow> segue_caminho fs us e)"
  by (induction ts arbitrary: d) (auto split: option.splits)

lemma segue_mais:
  assumes "\<And>g. dir_ok fs g \<Longrightarrow> dir_ok fs' g \<and> (\<exists>es. entradas fs' g = entradas fs g @ es)"
    and "segue_caminho fs ts d = Some e"
  shows "segue_caminho fs' ts d = Some e"
  using assms(2)
proof (induction ts arbitrary: d)
  case (Cons t ts)
  then have d: "dir_ok fs d" by (auto split: if_splits)
  then obtain f where f: "map_of (entradas fs d) t = Some f" "segue_caminho fs ts (unat f) = Some e"
    using Cons.prems by (auto split: option.splits)
  obtain es where "entradas fs' d = entradas fs d @ es" "dir_ok fs' d" using assms(1)[OF d] by blast
  then show ?case using f Cons.IH[OF f(2)] by (simp add: map_add_def split: option.splits)
qed simp

text \<open>The loop of fs_lookup follows the path.\<close>

lemma lookup_aux_ok:
  assumes "fs_ok fs" "bks fx = bks fs" "inode_tab fx = inode_tab fs" "inode_bmap fx = inode_bmap fs" "segue_caminho fs ts d = Some e"
  shows "lookup_aux fx ts d fid = Inr (1, if ts = [] then fid else Some (of_nat e), terminaLeitura (fx\<lparr>n_pilha := n_pilha fx + length ts\<rparr>))"
  using assms(2-)
proof (induction ts arbitrary: fx d fid)
  case (Cons t ts)
  then have d: "dir_ok fs d" by (auto split: if_splits)
  then obtain f where f: "map_of (entradas fs d) t = Some f" "segue_caminho fs ts (unat f) = Some e"
    using Cons.prems by (auto split: option.splits)
  note tm = dir_tamanho[OF assms(1) d]
  let ?fx = "fx\<lparr>n_pilha := n_pilha fx + 1\<rparr>"
  have di: "d < 8 * length (inode_bmap fx)" "ocupado (inode_bmap fx) d" "itype (inode_tab fx ! d) = FS_DIR" "d < length (inode_tab fx)"
    using d tm(6,7) Cons.prems by (simp_all add: dir_ok_def ITAB_SIZE_def)
  have "lookup_aux ?fx ts (unat f) (Some f) = Inr (1, if ts = [] then Some f else Some (of_nat e), terminaLeitura (?fx\<lparr>n_pilha := n_pilha ?fx + length ts\<rparr>))"
    by (rule Cons.IH) (use Cons.prems f in \<open>simp_all add: bks_def\<close>)
  moreover have "ts = [] \<Longrightarrow> f = of_nat e" using f(2) by auto
  ultimately show ?case
    using di f(1) fsi_dir_search_ok[OF assms(1) d Cons.prems(1,2), of t] by (auto simp: inode_em_def)
qed simp

lemma tokens_aux_junta: "tokens_aux ac (d @ BARRA # f) = tokens_aux ac d @ tokens_aux [] f"
  by (induction ac d rule: tokens_aux.induct) auto

lemma tokens_aux_nome: "BARRA \<notin> set f \<Longrightarrow> ac @ f \<noteq> [] \<Longrightarrow> tokens_aux ac f = [ac @ f]"
  by (induction f arbitrary: ac) auto

lemma tokens_junta: "BARRA \<notin> set f \<Longrightarrow> f \<noteq> [] \<Longrightarrow> tokens (d @ BARRA # f) = tokens d @ [f]"
  by (simp add: tokens_def tokens_aux_junta tokens_aux_nome)

lemma fs_lookup_ok:
  assumes ok: "fs_ok fs" and p: "take 1 p = [BARRA]" "length p < MAX_PATH_NAME_SIZE" "tokens p \<noteq> []" and e: "segue_caminho fs (tokens p) 1 = Some e"
  shows "fs_lookup fs p = Inr (1, Some (of_nat e), fs\<lparr>leitores := 0, turno := ESCRITA, n_pilha := n_pilha fs + length (tokens p)\<rparr>)"
proof -
  obtain fs1 where f1: "iniciaLeitura fs = Inr fs1" "fs1 = fs\<lparr>leitores := 1, turno := ESCRITA\<rparr>"
    using leitura_livre[of fs] ok by (auto simp: fs_ok_def)
  have "lookup_aux fs1 (tokens p) 1 None = Inr (1, Some (of_nat e), terminaLeitura (fs1\<lparr>n_pilha := n_pilha fs1 + length (tokens p)\<rparr>))"
    using lookup_aux_ok[OF ok, of fs1 "tokens p" 1 e None] f1(2) e p(3) by (simp add: bks_def)
  then show ?thesis using f1 p by (simp add: fs_lookup_def terminaLeitura_def)
qed

section \<open>fs_create and fs_mkdir\<close>

lemma criada_arvore:
  assumes a: "arvore_dirs fs" and ok': "fs_ok fs'" and d: "dir_ok fs d" and n: "n = length (entradas fs d)" "n < 320"
    and c: "criada fs d s t f b fs'" and b: "pagina_para fs d n b" and s: "0 \<notin> set s" "length s < FS_MAX_FNAME_SZ"
    and f: "f < ITAB_SIZE" "\<not> ocupado (inode_bmap fs) f"
  shows "arvore_dirs fs'" "\<And>g. dir_ok fs g \<Longrightarrow> dir_ok fs' g \<and> (\<exists>es. entradas fs' g = entradas fs g @ es)"
    "\<And>g. ficheiro fs g \<Longrightarrow> ficheiro fs' g \<and> blocos fs' g = blocos fs g \<and> conteudo_f fs' g = conteudo_f fs g"
proof -
  note A = arvore_dirsD[OF a] and C = criadaD[OF c n(1)]
  have fd: "f \<noteq> d" using d f(2) by (auto simp: dir_ok_def)
  note D = criada_dir[OF A(1) d n c b s fd] and N = criada_novo[OF A(1) d c f(1) fd]
  note OD = criada_outro_dir[OF A(1) d n(1) c b f] and OF' = criada_outro_ficheiro[OF A(1) d n(1) c b f]
  have dj: "set (blocos fs g) \<inter> set (blocos fs d) = {}" if "dir_ok fs g \<or> ficheiro fs g" "g \<noteq> d" for g
    using A(4)[OF d that] .
  have nd: "g \<noteq> d" if "ficheiro fs g" for g using d that by (auto simp: dir_ok_def ficheiro_def FS_DIR_def FS_FILE_def)
  show dirs: "dir_ok fs' g \<and> (\<exists>es. entradas fs' g = entradas fs g @ es)" if "dir_ok fs g" for g
  proof (cases "g = d")
    case True
    then show ?thesis using D by auto
  next
    case False
    show ?thesis using OD[OF False that dj] that False by simp
  qed
  show fich: "ficheiro fs' g \<and> blocos fs' g = blocos fs g \<and> conteudo_f fs' g = conteudo_f fs g" if "ficheiro fs g" for g
    using OF'[OF that dj[OF disjI2[OF that] nd[OF that]]] by simp
  text \<open>What is not \<open>d\<close> or the new inode was there before.\<close>
  have ant: "inode_tab fs' ! g = inode_tab fs ! g" "ocupado (inode_bmap fs) g"
    if "g \<noteq> d" "g \<noteq> f" "g < ITAB_SIZE" "ocupado (inode_bmap fs') g" for g
    using that C(1) C(6)[of g] by (simp_all add: ITAB_SIZE_def)
  have velho: "dir_ok fs g \<or> ficheiro fs g" if "dir_ok fs' g \<or> ficheiro fs' g" "g \<noteq> d" "g \<noteq> f" for g
  proof -
    have "g < ITAB_SIZE" "ocupado (inode_bmap fs') g" "itype (inode_tab fs' ! g) = FS_DIR \<or> itype (inode_tab fs' ! g) = FS_FILE"
      using that(1) by (auto simp: dir_ok_def ficheiro_def)
    then show ?thesis using that(2,3) ant[of g] A(2,3)[of g] by auto
  qed
  have bl: "blocos fs' g = blocos fs g" "set (blocos fs g) \<inter> insert b (set (blocos fs d)) = {}"
    if "dir_ok fs g \<or> ficheiro fs g" "g \<noteq> d" for g
  proof -
    show "blocos fs' g = blocos fs g" using that OD(3) dj fich by blast
    have "blocos_ok fs (blocos fs g)" using that(1) by (auto simp: dir_ok_def ficheiro_def)
    then show "set (blocos fs g) \<inter> insert b (set (blocos fs d)) = {}"
      using pagina_para_fora[OF d b _ dj[OF that]] dj[OF that] by auto
  qed
  have bd: "set (blocos fs' d) \<subseteq> insert b (set (blocos fs d))" unfolding D(2) by (auto dest: in_set_takeD)
  have nb: "unat (num_blocks (bks fs)) \<le> 4096" using A(1) by (simp add: fs_ok_def)
  show "arvore_dirs fs'"
    unfolding arvore_dirs_def
  proof (intro conjI allI impI ballI)
    show "fs_ok fs'" by (rule ok')
    fix g assume g: "g < ITAB_SIZE" "ocupado (inode_bmap fs') g"
    show "dir_ok fs' g" if "itype (inode_tab fs' ! g) = FS_DIR"
    proof -
      have "t = FS_DIR" if "g = f" 
        using \<open>itype (inode_tab fs' ! g) = FS_DIR\<close> that C(1) inode_do_ficheiro(2)[OF A(1) f(1)] by (simp add: fsi_inode_init_def)
      then show ?thesis using that D(3) N(4) ant[of g] g A(2)[of g] dirs by (cases "g = f"; cases "g = d") auto
    qed
    show "ficheiro fs' g" if "itype (inode_tab fs' ! g) = FS_FILE"
    proof -
      have "t = FS_FILE" if "g = f" 
        using \<open>itype (inode_tab fs' ! g) = FS_FILE\<close> that C(1) inode_do_ficheiro(2)[OF A(1) f(1)] by (simp add: fsi_inode_init_def)
      moreover have "g \<noteq> d" using that D(3) by (auto simp: dir_ok_def FS_DIR_def FS_FILE_def)
      ultimately show ?thesis using that N(5) ant[of g] g A(3)[of g] fich by (cases "g = f") auto
    qed
  next
    fix x g assume x: "dir_ok fs' x" and g: "dir_ok fs' g \<or> ficheiro fs' g" and gx: "g \<noteq> x"
    consider "g = f \<or> x = f" | "g \<noteq> f" "x \<noteq> f" "g = d" | "g \<noteq> f" "x \<noteq> f" "x = d" | "g \<noteq> f" "x \<noteq> f" "g \<noteq> d" "x \<noteq> d" by blast
    then show "set (blocos fs' g) \<inter> set (blocos fs' x) = {}"
    proof cases
      case 1
      then show ?thesis using N(1) by auto
    next
      case 2
      then show ?thesis using velho[of x] x gx bl[of x] bd by auto
    next
      case 3
      then show ?thesis using velho[of g] g gx bl[of g] bd by auto
    next
      case 4
      moreover have "x < ITAB_SIZE" "ocupado (inode_bmap fs') x" "itype (inode_tab fs' ! x) = FS_DIR" using x by (simp_all add: dir_ok_def)
      ultimately have "dir_ok fs x" using ant[of x] A(2)[of x] by simp
      then show ?thesis using A(4)[of x g] velho[of g] g gx 4 bl(1)[of g] bl(1)[of x] by auto
    qed
  next
    fix k assume "k \<in> blocos_livres fs'"
    then have "k \<in> blocos_livres fs" using C(2,7) nb by (auto simp: blocos_livres_def)
    then show "mapa (tabela (cache fs')) (int k) = None" using A(5) C(8) by simp
  qed
qed

text \<open>Creation of an entry in a directory that a path leads to.\<close>

lemma cria_entrada_ok:
  assumes a: "arvore_dirs fs" and d: "dir_ok fs d" and r: "ha_lugar fs d"
    and s: "0 \<notin> set s" "length s < FS_MAX_FNAME_SZ" "map_of (entradas fs d) s = None"
  shows "\<exists>f b fs'. cria_entrada (fs\<lparr>escritores := 1\<rparr>) d s t = Inr (0, Some (of_nat f), fs') \<and>
    f < ITAB_SIZE \<and> \<not> ocupado (inode_bmap fs) f \<and> f \<noteq> d \<and> fs_ok fs' \<and>
    criada fs d s t f b fs' \<and> pagina_para fs d (length (entradas fs d)) b \<and> arvore_dirs fs' \<and>
    entradas fs' d = entradas fs d @ [(s, of_nat f)] \<and> dir_ok fs' d \<and>
    (\<forall>ts e. segue_caminho fs ts 1 = Some e \<longrightarrow> segue_caminho fs' ts 1 = Some e) \<and>
    (\<forall>g. ficheiro fs g \<longrightarrow> ficheiro fs' g \<and> blocos fs' g = blocos fs g \<and> conteudo_f fs' g = conteudo_f fs g)"
proof -
  note ok = arvore_dirsD(1)[OF a]
  have n: "length (entradas fs d) < 320" using r by (simp add: ha_lugar_def)
  obtain f b bm ib D p where R: "cria_entrada (fs\<lparr>escritores := 1\<rparr>) d s t =
      Inr (0, Some (of_nat f), terminaEscrita (fsi_store_fsdata (criada_em fs d f t b bm ib D p)))"
    and f: "f < ITAB_SIZE" "\<not> ocupado (inode_bmap fs) f"
    and ib: "length ib = 512" "\<forall>j < 4096. ocupado ib j = (j = f \<or> ocupado (inode_bmap fs) j)"
    and bm: "length bm = 512" "\<forall>j < 4096. ocupado bm j = (j = b \<or> ocupado (blk_bmap fs) j)"
    and b: "pagina_para fs d (length (entradas fs d)) b"
    and D: "cache_ok ((cache fs)\<lparr>disco := D\<rparr>)" "num_blocks D = num_blocks (bks fs)" "block_size D = block_size (bks fs)"
      "blocks D = (blocks (bks fs))[b := poe_dinode (poe_dnome (blocks (bks fs) ! b) (length (entradas fs d) mod 32) s) (length (entradas fs d) mod 32) (of_nat f)]"
      "\<forall>k. k \<noteq> int b \<longrightarrow> vista ((cache fs)\<lparr>disco := D\<rparr>) k = vista (cache fs) k"
    using cria_entrada_corre[OF ok d r s, of t] by (elim exE conjE) (rule that)
  let ?fs' = "terminaEscrita (fsi_store_fsdata (criada_em fs d f t b bm ib D p))"
  note E = criada_em_ok[OF ok d refl n f(1) ib bm b D, of t p]
  note V = criada_arvore[OF a E(1) d refl n E(2) b s(1,2) f]
  have fd: "f \<noteq> d" using d f(2) by (auto simp: dir_ok_def)
  note I = criada_dir[OF ok d refl n E(2) b s(1,2) fd]
  have S: "\<forall>ts e. segue_caminho fs ts 1 = Some e \<longrightarrow> segue_caminho ?fs' ts 1 = Some e"
    using segue_mais[OF V(2)] by blast
  show ?thesis using R f fd E b V(1,3) I(1,3) S by (intro exI[of _ f] exI[of _ b] exI[of _ ?fs']) blast
qed

lemma fs_lookup_junta:
  assumes ok: "fs_ok fs" and p: "p = [] \<or> take 1 p = [BARRA]" "length (p @ BARRA # s) < MAX_PATH_NAME_SIZE" "BARRA \<notin> set s" "s \<noteq> []"
    and e: "segue_caminho fs (tokens p @ [s]) 1 = Some e"
  shows "\<exists>fs'. fs_lookup fs (p @ BARRA # s) = Inr (1, Some (of_nat e), fs') \<and>
    fs' = fs\<lparr>leitores := 0, turno := ESCRITA, n_pilha := n_pilha fs + length (tokens p @ [s])\<rparr>"
proof -
  have t: "tokens (p @ BARRA # s) = tokens p @ [s]" by (rule tokens_junta[OF p(3,4)])
  have "take 1 (p @ BARRA # s) = [BARRA]" using p(1) by (cases p) auto
  then show ?thesis using fs_lookup_ok[OF ok _ p(2)] e unfolding t by simp
qed

lemma criada_pronto:
  assumes ok: "fs_ok fs" and c: "criada fs d s FS_FILE f b fs'" and f: "fs_ok fs'" "ficheiro fs' f" "blocos fs' f = []"
    and K: "K \<le> 10" "K < card (blocos_livres fs)" "numeroNosUtilizados (cache fs) + int K \<le> numeroMaxNos (cache fs)"
  shows "pronto fs' f K"
proof -
  note C = criadaD[OF c refl]
  have "unat (num_blocks (bks fs)) \<le> 4096" using ok by (simp add: fs_ok_def)
  then have bl: "blocos_livres fs' = blocos_livres fs - {b}" using C(2,7) by (auto simp: blocos_livres_def)
  have "card (blocos_livres fs) - 1 \<le> card (blocos_livres fs - {b})" 
    using diff_card_le_card_Diff[of "{b}" "blocos_livres fs"] by simp
  then have "K \<le> card (blocos_livres fs')" unfolding bl using K(2) by linarith
  moreover have "espaco (cache fs') {} K" using K(3) C(9,10) by (simp add: espaco_def)
  ultimately show ?thesis using f K(1) by (simp add: pronto_def proprios_def)
qed

text \<open>A created file is empty, is found under its name, and can be written.\<close>

lemma fs_create_ok:
  assumes a: "arvore_dirs fs" and d: "dir_ok fs d" "segue_caminho fs (tokens p) 1 = Some d" and r: "ha_lugar fs d"
    and s: "\<not> nome_mau s" "0 \<notin> set s" "map_of (entradas fs d) s = None"
  shows "\<exists>f fs'. fs_create fs (of_nat d) s = Inr (0, Some (of_nat f), fs') \<and> arvore_dirs fs' \<and> f < ITAB_SIZE \<and>
    \<not> ocupado (inode_bmap fs) f \<and> ficheiro fs' f \<and> conteudo_f fs' f = [] \<and> segue_caminho fs' (tokens p @ [s]) 1 = Some f \<and>
    entradas fs' d = entradas fs d @ [(s, of_nat f)] \<and> dir_ok fs' d \<and>
    (\<forall>K. K \<le> 10 \<longrightarrow> K < card (blocos_livres fs) \<longrightarrow> numeroNosUtilizados (cache fs) + int K \<le> numeroMaxNos (cache fs) \<longrightarrow> pronto fs' f K) \<and>
    (\<forall>ts e. segue_caminho fs ts 1 = Some e \<longrightarrow> segue_caminho fs' ts 1 = Some e) \<and>
    (\<forall>g. ficheiro fs g \<longrightarrow> ficheiro fs' g \<and> blocos fs' g = blocos fs g \<and> conteudo_f fs' g = conteudo_f fs g)"
proof -
  note ok = arvore_dirsD(1)[OF a]
  have sl: "length s < FS_MAX_FNAME_SZ" using s(1) by (simp add: nome_mau_def)
  have di: "d < ITAB_SIZE" "ocupado (inode_bmap fs) d" using d(1) by (simp_all add: dir_ok_def)
  have ud: "unat (of_nat d :: inodeid_t) = d" using di(1) by (simp add: ITAB_SIZE_def unsigned_of_nat take_bit_nat_eq_self)
  obtain f b fs' where R: "cria_entrada (fs\<lparr>escritores := 1\<rparr>) d s FS_FILE = Inr (0, Some (of_nat f), fs')"
    and f: "f < ITAB_SIZE" "\<not> ocupado (inode_bmap fs) f" "f \<noteq> d" and ok': "fs_ok fs'" and c: "criada fs d s FS_FILE f b fs'"
    and V: "arvore_dirs fs'" "entradas fs' d = entradas fs d @ [(s, of_nat f)]" "dir_ok fs' d"
      "\<forall>ts e. segue_caminho fs ts 1 = Some e \<longrightarrow> segue_caminho fs' ts 1 = Some e"
      "\<forall>g. ficheiro fs g \<longrightarrow> ficheiro fs' g \<and> blocos fs' g = blocos fs g \<and> conteudo_f fs' g = conteudo_f fs g"
    using cria_entrada_ok[OF a d(1) r s(2) sl s(3), of FS_FILE] by blast
  note N = criada_novo[OF ok d(1) c f(1,3)]
  have "iniciaEscrita fs = Inr (fs\<lparr>escritores := 1\<rparr>)" using escrita_livre[of fs] ok by (auto simp: fs_ok_def)
  moreover have "d < 8 * length (inode_bmap (fs\<lparr>escritores := 1\<rparr>))" using di(1) dir_tamanho(7)[OF ok d(1)] by (simp add: ITAB_SIZE_def)
  ultimately have F: "fs_create fs (of_nat d) s = Inr (0, Some (of_nat f), fs')"
    using di s(1) R unfolding fs_create_def ud by simp
  have "unat (of_nat f :: inodeid_t) = f" using f(1) by (simp add: ITAB_SIZE_def unsigned_of_nat take_bit_nat_eq_self)
  then have "segue_caminho fs' (tokens p @ [s]) 1 = Some f"
    using V(2-4) d(2) s(3) by (simp add: segue_append map_add_def)
  then show ?thesis
    using F V f(1,2) N(2,5) criada_pronto[OF ok c ok' N(5)[OF refl] N(1)] by blast
qed

lemma fs_mkdir_ok:
  assumes a: "arvore_dirs fs" and d: "dir_ok fs d" "segue_caminho fs (tokens p) 1 = Some d" and r: "ha_lugar fs d"
    and s: "\<not> nome_mau s" "0 \<notin> set s" "map_of (entradas fs d) s = None"
  shows "\<exists>f fs'. fs_mkdir fs (of_nat d) s = Inr (0, Some (of_nat f), fs') \<and> arvore_dirs fs' \<and> f < ITAB_SIZE \<and>
    \<not> ocupado (inode_bmap fs) f \<and> dir_ok fs' f \<and> entradas fs' f = [] \<and> segue_caminho fs' (tokens p @ [s]) 1 = Some f \<and>
    (\<forall>ts e. segue_caminho fs ts 1 = Some e \<longrightarrow> segue_caminho fs' ts 1 = Some e) \<and>
    (\<forall>g. ficheiro fs g \<longrightarrow> ficheiro fs' g \<and> blocos fs' g = blocos fs g \<and> conteudo_f fs' g = conteudo_f fs g)"
proof -
  note ok = arvore_dirsD(1)[OF a]
  have sl: "length s < FS_MAX_FNAME_SZ" using s(1) by (simp add: nome_mau_def)
  have di: "d < ITAB_SIZE" "ocupado (inode_bmap fs) d" using d(1) by (simp_all add: dir_ok_def)
  have ud: "unat (of_nat d :: inodeid_t) = d" using di(1) by (simp add: ITAB_SIZE_def unsigned_of_nat take_bit_nat_eq_self)
  obtain f b fs' where R: "cria_entrada (fs\<lparr>escritores := 1\<rparr>) d s FS_DIR = Inr (0, Some (of_nat f), fs')"
    and f: "f < ITAB_SIZE" "\<not> ocupado (inode_bmap fs) f" "f \<noteq> d" and c: "criada fs d s FS_DIR f b fs'"
    and V: "arvore_dirs fs'" "entradas fs' d = entradas fs d @ [(s, of_nat f)]" "dir_ok fs' d"
      "\<forall>ts e. segue_caminho fs ts 1 = Some e \<longrightarrow> segue_caminho fs' ts 1 = Some e"
      "\<forall>g. ficheiro fs g \<longrightarrow> ficheiro fs' g \<and> blocos fs' g = blocos fs g \<and> conteudo_f fs' g = conteudo_f fs g"
    using cria_entrada_ok[OF a d(1) r s(2) sl s(3), of FS_DIR] by blast
  note N = criada_novo[OF ok d(1) c f(1,3)]
  have "iniciaEscrita fs = Inr (fs\<lparr>escritores := 1\<rparr>)" using escrita_livre[of fs] ok by (auto simp: fs_ok_def)
  moreover have "d < 8 * length (inode_bmap (fs\<lparr>escritores := 1\<rparr>))" using di(1) dir_tamanho(7)[OF ok d(1)] by (simp add: ITAB_SIZE_def)
  ultimately have F: "fs_mkdir fs (of_nat d) s = Inr (0, Some (of_nat f), fs')"
    using di s(1) R unfolding fs_mkdir_def ud by simp
  have "unat (of_nat f :: inodeid_t) = f" using f(1) by (simp add: ITAB_SIZE_def unsigned_of_nat take_bit_nat_eq_self)
  then have "segue_caminho fs' (tokens p @ [s]) 1 = Some f"
    using V(2-4) d(2) s(3) by (simp add: segue_append map_add_def)
  then show ?thesis using F V(1,4,5) f(1,2) N(3,4) by blast
qed

section \<open>Listing a directory\<close>

lemma pagina_ent_take: "m \<le> n \<Longrightarrow> take m (pagina_ent p n) = pagina_ent p m"
  by (simp add: pagina_ent_def take_map)

lemma ents_take: "m \<le> n \<Longrightarrow> n \<le> 32 * length ps \<Longrightarrow> ents ps m = take m (ents ps n)"
proof (induction ps arbitrary: m n)
  case (Cons p ps)
  have "take m (pagina_ent p (min 32 n)) = pagina_ent p (min 32 m)"
    using Cons.prems by (cases "m \<le> 32") (simp_all add: pagina_ent_take)
  moreover have "ents ps (m - 32) = take (m - 32) (ents ps (n - 32))" by (rule Cons.IH) (use Cons.prems in auto)
  moreover have "take (m - min 32 n) (ents ps (n - 32)) = take (m - 32) (ents ps (n - 32))"
    using Cons.prems by (cases "n \<le> 32") auto
  ultimately show ?case by simp
qed simp

definition com_tipo :: "fs_t \<Rightarrow> nome \<times> inodeid_t \<Rightarrow> fs_file_name" where
  "com_tipo fs e = (fst e, itype (inode_tab fs ! unat (snd e)))"

lemma mapr_ok: "(\<And>x. x \<in> set xs \<Longrightarrow> f x = Inr (g x)) \<Longrightarrow> mapr f xs = Inr (map g xs)"
  by (induction xs) auto

lemma readdir_aux_ok:
  assumes "itype idir = FS_DIR" "num \<le> 32 * length ps"
    "\<And>j. j < length ps \<Longrightarrow> k + j < length (iblocks idir) \<and> unat (iblocks idir ! (k + j)) < unat (num_blocks (bks fs)) \<and>
       blocks (bks fs) ! unat (iblocks idir ! (k + j)) = ps ! j"
    "\<forall>e \<in> set (ents ps num). length (fst e) < FS_MAX_FNAME_SZ \<and> unat (snd e) < length (inode_tab fs)"
  shows "readdir_aux fs idir k num page = Inr (map (com_tipo fs) (ents ps num), fs)"
  using assms
proof (induction ps arbitrary: k num page)
  case Nil
  then show ?case by (simp add: readdir_aux.simps)
next
  case (Cons p ps)
  show ?case
  proof (cases "num = 0")
    case False
    have 0: "k < length (iblocks idir)" "unat (iblocks idir ! k) < unat (num_blocks (bks fs))"
      "blocks (bks fs) ! unat (iblocks idir ! k) = p" using Cons.prems(3)[of 0] by simp_all
    have l: "ler_tipo fs (itype idir) (iblocks idir ! k) page = Inr (p, fs)"
      using Cons.prems(1) le_disco_ok[OF 0(2)] 0(3) by (simp add: ler_tipo_def FS_DIR_def FS_FILE_def)
    have "entrada_dir fs p i = Inr (com_tipo fs (dnome p i, dinode p i))" if "i \<in> set [0..<min 32 num]" for i
    proof -
      have "(dnome p i, dinode p i) \<in> set (ents (p # ps) num)" using that by (auto simp: pagina_ent_def)
      then show ?thesis using Cons.prems(4) by (fastforce simp: entrada_dir_def inode_em_def com_tipo_def)
    qed
    then have m: "mapr (entrada_dir fs p) [0..<min 32 num] = Inr (map (com_tipo fs) (pagina_ent p (min 32 num)))"
      using mapr_ok[of "[0..<min 32 num]" "entrada_dir fs p" "\<lambda>i. com_tipo fs (dnome p i, dinode p i)"]
      by (simp add: pagina_ent_def comp_def)
    have r: "readdir_aux fs idir (k + 1) (num - 32) p = Inr (map (com_tipo fs) (ents ps (num - 32)), fs)"
    proof (rule Cons.IH)
      fix j assume "j < length ps"
      then show "k + 1 + j < length (iblocks idir) \<and> unat (iblocks idir ! (k + 1 + j)) < unat (num_blocks (bks fs)) \<and>
        blocks (bks fs) ! unat (iblocks idir ! (k + 1 + j)) = ps ! j"
        using Cons.prems(3)[of "Suc j"] by simp
    qed (use Cons.prems in auto)
    show ?thesis
      using False 0(1) l m r by (subst readdir_aux.simps) (simp add: DIR_PAGE_ENTRIES_def)
  qed (simp add: readdir_aux.simps)
qed

lemma fs_readdir_ok:
  assumes ok: "fs_ok fs" and d: "dir_ok fs d" and m: "0 \<le> m" and e: "\<forall>e \<in> set (entradas fs d). unat (snd e) < ITAB_SIZE"
  shows "fs_readdir fs (of_nat d) m = Inr (0, Some (map (com_tipo fs) (take (nat m) (entradas fs d))),
    fs\<lparr>leitores := 0, turno := ESCRITA, n_pilha := n_pilha fs + 1\<rparr>)"
proof -
  let ?I = "inode_tab fs ! d" and ?ps = "paginas_de fs (blocos fs d)"
  note t = dir_tamanho[OF ok d]
  have di: "d < ITAB_SIZE" "ocupado (inode_bmap fs) d" "itype ?I = FS_DIR" using d by (simp_all add: dir_ok_def)
  have ud: "unat (of_nat d :: inodeid_t) = d" using di(1) by (simp add: ITAB_SIZE_def unsigned_of_nat take_bit_nat_eq_self)
  obtain fs1 where f1: "iniciaLeitura fs = Inr fs1" "fs1 = fs\<lparr>leitores := 1, turno := ESCRITA\<rparr>"
    using leitura_livre[of fs] ok by (auto simp: fs_ok_def)
  let ?fs = "fs1\<lparr>n_pilha := n_pilha fs + 1\<rparr>" and ?n = "min (num_dentrys ?I) (nat m)"
  have k: "bks ?fs = bks fs" "inode_tab ?fs = inode_tab fs" "com_tipo ?fs = com_tipo fs"
    using f1(2) by (simp_all add: bks_def com_tipo_def fun_eq_iff)
  have n: "num_dentrys ?I \<le> 32 * length ?ps" by (simp add: paginas_de_def t(3))
  have en: "ents ?ps ?n = take (nat m) (entradas fs d)"
  proof -
    have "ents ?ps ?n = take ?n (ents ?ps (num_dentrys ?I))" by (rule ents_take[OF _ n]) simp
    also have "\<dots> = take (nat m) (entradas fs d)" using t(4) by (auto simp: entradas_def min_def)
    finally show ?thesis .
  qed
  have "readdir_aux ?fs ?I 0 ?n page = Inr (map (com_tipo ?fs) (ents ?ps ?n), ?fs)" for page
  proof (rule readdir_aux_ok)
    show "\<forall>e \<in> set (ents ?ps ?n). length (fst e) < FS_MAX_FNAME_SZ \<and> unat (snd e) < length (inode_tab ?fs)"
    proof -
      have "length (inode_tab fs) = ITAB_SIZE" using ok by (simp add: fs_ok_def fs_meta_def tab_ok_def)
      then show ?thesis unfolding en k(2) using d e by (auto simp: dir_ok_def dest!: in_set_takeD)
    qed
    show "0 + j < length (iblocks ?I) \<and> unat (iblocks ?I ! (0 + j)) < unat (num_blocks (bks ?fs)) \<and>
        blocks (bks ?fs) ! unat (iblocks ?I ! (0 + j)) = ?ps ! j" if "j < length ?ps" for j
      using paginas_no_disco[OF d that] unfolding k by simp
  qed (use di n in auto)
  then show ?thesis
    using f1 di t(6,7) m unfolding fs_readdir_def ud en k(3)
    by (simp add: novo_buf_def inode_em_def terminaLeitura_def ITAB_SIZE_def)
qed

section \<open>Writing a file keeps the directories\<close>

lemma fs_write_dirs:
  assumes a: "arvore_dirs fs" and p: "pronto fs (unat file) K" and o: "o1 = min (unat off) (length (conteudo_f fs (unat file)))"
    and m: "o1 + unat cnt \<le> 512 * K" "unat cnt \<le> length data" and w: "fs_write fs file off cnt data = Inr (0, fs')"
  shows "arvore_dirs fs'" "\<And>ts e. segue_caminho fs ts 1 = Some e \<Longrightarrow> segue_caminho fs' ts 1 = Some e"
proof -
  let ?f = "unat file"
  note A = arvore_dirsD[OF a]
  have ok: "fs_ok fs" and f: "ficheiro fs ?f" and K: "K \<le> 10" using p by (simp_all add: pronto_def)
  have o': "o1 = min (unat off) (unat (isize (inode_tab fs ! ?f)))" using o blocos_length(5)[OF ok f] by simp
  obtain ns bm rf c2 q sz where W: "fs_write fs file off cnt data = Inr (0, terminaEscrita (fsi_store_fsdata (escrita_em fs ?f ns sz bm rf c2 q)))"
    and ns: "distinct ns" "set ns \<subseteq> blocos_livres fs" and nK: "length (blocos fs ?f) + length ns \<le> K"
    and sz: "OFFSET_TO_BLOCKS sz = length (blocos fs ?f) + length ns"
    and bm: "length bm = 512" "\<forall>b < 4096. ocupado bm b = (b \<in> set ns \<or> ocupado (blk_bmap fs) b)"
    and rf: "length rf = length (referencias fs)" "\<forall>b < length rf. rf ! b = (if b \<in> set ns then 1 else referencias fs ! b)"
    and c: "mesma_cache (set (blocos fs ?f @ ns)) (cache fs) c2"
    using fs_write_corre[OF p o' m] by blast
  have "length (blocos fs ?f) + length ns \<le> 10" using nK K by simp
  note E = escrita_em_ok[OF ok f ns this sz bm rf c, where p = q]
  define s6 where "s6 = escrita_em fs ?f ns sz bm rf c2 q"
  have fs': "fs' = terminaEscrita (fsi_store_fsdata s6)" using w W by (simp add: s6_def)
  note E = E[folded s6_def, folded fs']
  have "\<exists>I'. inode_tab fs' = (inode_tab fs)[?f := I']"
    by (auto simp: fs' terminaEscrita_def store_campos s6_def escrita_em_def Let_def)
  then obtain I' where F1: "inode_tab fs' = (inode_tab fs)[?f := I']" by blast
  have F: "inode_tab fs' = (inode_tab fs)[?f := I']" "blk_bmap fs' = bm" "inode_bmap fs' = inode_bmap fs"
    "tabela (cache fs') = tabela c2"
    by (rule F1) (simp_all add: fs' terminaEscrita_def store_campos s6_def escrita_em_def Let_def)
  note d = mesma_cacheD[OF c]
  let ?B = "set (blocos fs ?f @ ns)"
  have nsl: "\<not> ocupado (blk_bmap fs) b" if "b \<in> set ns" for b using that ns(2) by (auto simp: blocos_livres_def)
  have nb: "unat (num_blocks (bks fs)) \<le> 4096" using ok by (simp add: fs_ok_def)
  have oc: "ocupado bm b" if "ocupado (blk_bmap fs) b" "b < unat (num_blocks (bks fs))" for b using that bm(2) nb by simp
  have outro: "inode_tab fs' ! g = inode_tab fs ! g" "blocos fs' g = blocos fs g" if "g \<noteq> ?f" for g
    using that F(1) by (simp_all add: blocos_def)
  have bok: "blocos_ok fs' bs" if "blocos_ok fs bs" for bs using that oc E(10) F(2) by (simp add: blocos_ok_def)
  have dirs: "dir_ok fs' g \<and> entradas fs' g = entradas fs g \<and> g \<noteq> ?f" if g: "dir_ok fs g" for g
  proof -
    have gf: "g \<noteq> ?f" using g f by (auto simp: dir_ok_def ficheiro_def FS_DIR_def FS_FILE_def)
    have bg: "blocos_ok fs (blocos fs g)" "\<forall>b \<in> set (blocos fs g). mapa (tabela (cache fs)) (int b) = None"
      using g by (simp_all add: dir_ok_def)
    have fora: "b \<notin> ?B" "10 \<le> b" "b < unat (num_blocks (bks fs))" if "b \<in> set (blocos fs g)" for b
      using that A(4)[OF g disjI2[OF f] gf[symmetric]] bg(1) nsl by (auto simp: blocos_ok_def)
    have sem: "mapa (tabela c2) (int b) = None" if "b \<in> set (blocos fs g)" for b
    proof -
      have "int b \<notin> dom (mapa (tabela (cache fs))) \<union> int ` ?B" using fora(1)[OF that] bg(2) that by auto
      then show ?thesis using d(5) by blast
    qed
    have "blocks (bks fs') ! b = blocks (bks fs) ! b" if b: "b \<in> set (blocos fs g)" for b
    proof -
      have "vista (cache fs') (int b) = vista (cache fs) (int b)"
      proof -
        have "int b \<notin> int ` ?B" using fora(1)[OF b] by (simp only: inj_image_mem_iff[OF inj_of_nat] not_False_eq_True)
        then show ?thesis using E(11)[OF fora(2,3)[OF b]] d(4) by simp
      qed
      then show ?thesis using sem[OF b] bg(2) b F(4) by (simp add: vista_def bks_def)
    qed
    then have "paginas_de fs' (blocos fs g) = paginas_de fs (blocos fs g)" by (simp add: paginas_de_def)
    then have "entradas fs' g = entradas fs g" by (simp add: entradas_def outro[OF gf])
    then show ?thesis using g bok[OF bg(1)] sem F(3,4) gf by (simp add: dir_ok_def outro[OF gf])
  qed
  have fich: "ficheiro fs' g" if "ficheiro fs g" for g
    using that E(2) outro[of g] bok F(3) by (cases "g = ?f") (simp_all add: ficheiro_def)
  have velho: "dir_ok fs g \<or> ficheiro fs g" if "dir_ok fs' g \<or> ficheiro fs' g" for g
  proof (cases "g = ?f")
    case False
    then have "g < ITAB_SIZE" "ocupado (inode_bmap fs) g" "itype (inode_tab fs ! g) = FS_DIR \<or> itype (inode_tab fs ! g) = FS_FILE"
      using that outro[OF False] F(3) by (auto simp: dir_ok_def ficheiro_def)
    then show ?thesis using A(2,3)[of g] by auto
  qed (use f in simp)
  have dj: "set (blocos fs' g) \<inter> set (blocos fs' x) = {}" if "dir_ok fs x" "dir_ok fs g \<or> ficheiro fs g" "g \<noteq> x" for x g
  proof -
    have x: "blocos fs' x = blocos fs x" using outro dirs[OF that(1)] by blast
    have "set (blocos fs x) \<inter> set ns = {}" using that(1) nsl by (auto simp: dir_ok_def blocos_ok_def)
    then show ?thesis using A(4)[OF that] outro(2)[of g] E(3) x by (cases "g = ?f") auto
  qed
  show "arvore_dirs fs'"
    unfolding arvore_dirs_def
  proof (intro conjI allI impI ballI)
    show "fs_ok fs'" by (rule E(1))
    fix g assume g: "g < ITAB_SIZE" "ocupado (inode_bmap fs') g"
    show "dir_ok fs' g" if "itype (inode_tab fs' ! g) = FS_DIR"
    proof -
      have "g \<noteq> ?f" using that E(2) by (auto simp: ficheiro_def FS_DIR_def FS_FILE_def)
      then show ?thesis using that g F(3) outro[of g] A(2)[of g] dirs by simp
    qed
    show "ficheiro fs' g" if "itype (inode_tab fs' ! g) = FS_FILE"
      using that g F(3) outro[of g] A(3)[of g] fich E(2) by (cases "g = ?f") simp_all
  next
    fix x g assume x: "dir_ok fs' x" "dir_ok fs' g \<or> ficheiro fs' g" "g \<noteq> x"
    have "\<not> ficheiro fs x"
      using x(1) fich[of x] by (auto simp: dir_ok_def ficheiro_def FS_DIR_def FS_FILE_def)
    then show "set (blocos fs' g) \<inter> set (blocos fs' x) = {}" using x velho[of x] velho[of g] dj by blast
  next
    fix b assume "b \<in> blocos_livres fs'"
    then have b: "b \<in> blocos_livres fs" "b \<notin> set ns" unfolding E(4) by simp_all
    then have "b \<notin> set (blocos fs ?f)" using f by (auto simp: blocos_livres_def ficheiro_def blocos_ok_def)
    then have "int b \<notin> dom (mapa (tabela (cache fs))) \<union> int ` ?B" using b A(5)[of b] by auto
    then have "int b \<notin> dom (mapa (tabela c2))" using d(5) by blast
    then show "mapa (tabela (cache fs')) (int b) = None" using F(4) by (simp add: domIff)
  qed
  have "dir_ok fs' g \<and> (\<exists>es. entradas fs' g = entradas fs g @ es)" if "dir_ok fs g" for g
    using dirs[OF that] by simp
  then show "\<And>ts e. segue_caminho fs ts 1 = Some e \<Longrightarrow> segue_caminho fs' ts 1 = Some e" by (rule segue_mais)
qed

section \<open>One operation after the other\<close>

lemma criar_procurar_listar:
  assumes a: "arvore_dirs fs" and d: "dir_ok fs d" "segue_caminho fs (tokens p) 1 = Some d" and r: "ha_lugar fs d"
    and s: "\<not> nome_mau s" "0 \<notin> set s" "BARRA \<notin> set s" "map_of (entradas fs d) s = None"
    and p: "p = [] \<or> take 1 p = [BARRA]" "length (p @ BARRA # s) < MAX_PATH_NAME_SIZE"
    and e: "\<forall>e \<in> set (entradas fs d). unat (snd e) < ITAB_SIZE"
  shows "\<exists>f fs' fs1 fs2. fs_create fs (of_nat d) s = Inr (0, Some f, fs') \<and> arvore_dirs fs' \<and> conteudo_f fs' (unat f) = [] \<and>
    fs_lookup fs' (p @ BARRA # s) = Inr (1, Some f, fs1) \<and>
    fs_readdir fs' (of_nat d) 320 = Inr (0, Some (map (com_tipo fs') (entradas fs d) @ [(s, FS_FILE)]), fs2) \<and>
    (\<forall>ts e. segue_caminho fs ts 1 = Some e \<longrightarrow> segue_caminho fs' ts 1 = Some e) \<and>
    (\<forall>g. ficheiro fs g \<longrightarrow> ficheiro fs' g \<and> conteudo_f fs' g = conteudo_f fs g)"
proof -
  obtain f fs' where F: "fs_create fs (of_nat d) s = Inr (0, Some (of_nat f), fs')" "arvore_dirs fs'" "f < ITAB_SIZE"
    "ficheiro fs' f" "conteudo_f fs' f = []" "segue_caminho fs' (tokens p @ [s]) 1 = Some f"
    "entradas fs' d = entradas fs d @ [(s, of_nat f)]" "dir_ok fs' d"
    "\<forall>ts e. segue_caminho fs ts 1 = Some e \<longrightarrow> segue_caminho fs' ts 1 = Some e"
    "\<forall>g. ficheiro fs g \<longrightarrow> ficheiro fs' g \<and> blocos fs' g = blocos fs g \<and> conteudo_f fs' g = conteudo_f fs g"
    using fs_create_ok[OF a d r s(1,2,4)] by blast
  have uf: "unat (of_nat f :: inodeid_t) = f" using F(3) by (simp add: ITAB_SIZE_def unsigned_of_nat take_bit_nat_eq_self)
  note ok = arvore_dirsD(1)[OF F(2)]
  have "s \<noteq> []" using s(1) by (auto simp: nome_mau_def)
  then obtain fs1 where L: "fs_lookup fs' (p @ BARRA # s) = Inr (1, Some (of_nat f), fs1)"
    using fs_lookup_junta[OF ok p s(3) _ F(6)] by blast
  have "itype (inode_tab fs' ! f) = FS_FILE" using F(4) by (simp add: ficheiro_def)
  moreover have "length (entradas fs' d) \<le> 320" using dir_tamanho(2,4)[OF ok F(8)] by simp
  moreover have "\<forall>e \<in> set (entradas fs' d). unat (snd e) < ITAB_SIZE" using e F(3,7) uf by auto
  ultimately have R: "fs_readdir fs' (of_nat d) 320 = Inr (0, Some (map (com_tipo fs') (entradas fs d) @ [(s, FS_FILE)]),
      fs'\<lparr>leitores := 0, turno := ESCRITA, n_pilha := n_pilha fs' + 1\<rparr>)"
    using fs_readdir_ok[OF ok F(8), of 320] uf by (simp add: F(7) com_tipo_def[of fs' "(s, of_nat f)"])
  have "conteudo_f fs' (unat (of_nat f :: inodeid_t)) = []" using F(5) uf by simp
  then show ?thesis using F(1,2,9,10) L R by blast
qed

lemma mkdir_procurar_listar:
  assumes a: "arvore_dirs fs" and d: "dir_ok fs d" "segue_caminho fs (tokens p) 1 = Some d" and r: "ha_lugar fs d"
    and s: "\<not> nome_mau s" "0 \<notin> set s" "BARRA \<notin> set s" "map_of (entradas fs d) s = None"
    and p: "p = [] \<or> take 1 p = [BARRA]" "length (p @ BARRA # s) < MAX_PATH_NAME_SIZE"
  shows "\<exists>f fs' fs1 fs2. fs_mkdir fs (of_nat d) s = Inr (0, Some f, fs') \<and> arvore_dirs fs' \<and> dir_ok fs' (unat f) \<and>
    fs_lookup fs' (p @ BARRA # s) = Inr (1, Some f, fs1) \<and> fs_readdir fs' f 320 = Inr (0, Some [], fs2) \<and>
    segue_caminho fs' (tokens p @ [s]) 1 = Some (unat f) \<and>
    (\<forall>ts e. segue_caminho fs ts 1 = Some e \<longrightarrow> segue_caminho fs' ts 1 = Some e) \<and>
    (\<forall>g. ficheiro fs g \<longrightarrow> ficheiro fs' g \<and> conteudo_f fs' g = conteudo_f fs g)"
proof -
  obtain f fs' where F: "fs_mkdir fs (of_nat d) s = Inr (0, Some (of_nat f), fs')" "arvore_dirs fs'" "f < ITAB_SIZE"
    "dir_ok fs' f" "entradas fs' f = []" "segue_caminho fs' (tokens p @ [s]) 1 = Some f"
    "\<forall>ts e. segue_caminho fs ts 1 = Some e \<longrightarrow> segue_caminho fs' ts 1 = Some e"
    "\<forall>g. ficheiro fs g \<longrightarrow> ficheiro fs' g \<and> blocos fs' g = blocos fs g \<and> conteudo_f fs' g = conteudo_f fs g"
    using fs_mkdir_ok[OF a d r s(1,2,4)] by blast
  have uf: "unat (of_nat f :: inodeid_t) = f" using F(3) by (simp add: ITAB_SIZE_def unsigned_of_nat take_bit_nat_eq_self)
  note ok = arvore_dirsD(1)[OF F(2)]
  have "s \<noteq> []" using s(1) by (auto simp: nome_mau_def)
  then obtain fs1 where L: "fs_lookup fs' (p @ BARRA # s) = Inr (1, Some (of_nat f), fs1)"
    using fs_lookup_junta[OF ok p s(3) _ F(6)] by blast
  have R: "fs_readdir fs' (of_nat f) 320 = Inr (0, Some [], fs'\<lparr>leitores := 0, turno := ESCRITA, n_pilha := n_pilha fs' + 1\<rparr>)"
    using fs_readdir_ok[OF ok F(4), of 320] F(5) by simp
  have "dir_ok fs' (unat (of_nat f :: inodeid_t))" "segue_caminho fs' (tokens p @ [s]) 1 = Some (unat (of_nat f :: inodeid_t))"
    using F(4,6) uf by simp_all
  then show ?thesis using F(1,2,7,8) L R by blast
qed

text \<open>A lookup changes nothing that matters to a file.\<close>

lemma pronto_lido:
  assumes "pronto fs f K"
  shows "pronto (fs\<lparr>leitores := 0, turno := t, n_pilha := q\<rparr>) f K"
    "conteudo_f (fs\<lparr>leitores := 0, turno := t, n_pilha := q\<rparr>) f = conteudo_f fs f"
proof -
  let ?s = "fs\<lparr>leitores := 0, turno := t, n_pilha := q\<rparr>"
  have b: "bks ?s = bks fs" "blocos ?s g = blocos fs g" "blocos_ok ?s bs = blocos_ok fs bs" "blocos_livres ?s = blocos_livres fs" for g bs
    by (simp_all add: bks_def blocos_def blocos_ok_def blocos_livres_def)
  have "fs_ok fs" using assms by (simp add: pronto_def)
  then have "fs_ok ?s" unfolding fs_ok_def fs_meta_def b by (simp add: livre_def)
  moreover have "ficheiro ?s f = ficheiro fs f" unfolding ficheiro_def b by simp
  moreover have "proprios ?s bs = proprios fs bs" for bs unfolding proprios_def b by simp
  ultimately show "pronto ?s f K" using assms unfolding pronto_def b by simp
  show "conteudo_f ?s f = conteudo_f fs f" by (simp add: conteudo_f_def b)
qed

lemma criar_escrever_ler:
  assumes a: "arvore_dirs fs" and d: "dir_ok fs d" "segue_caminho fs (tokens p) 1 = Some d" and r: "ha_lugar fs d"
    and s: "\<not> nome_mau s" "0 \<notin> set s" "BARRA \<notin> set s" "map_of (entradas fs d) s = None"
    and p: "p = [] \<or> take 1 p = [BARRA]" "length (p @ BARRA # s) < MAX_PATH_NAME_SIZE"
    and K: "K \<le> 10" "K < card (blocos_livres fs)" "numeroNosUtilizados (cache fs) + int K \<le> numeroMaxNos (cache fs)"
    and l: "unat cnt = length data" "length data \<le> 512 * K"
  shows "\<exists>f fs1 fs2 fs3 fs4. fs_create fs (of_nat d) s = Inr (0, Some f, fs1) \<and> fs_write fs1 f 0 cnt data = Inr (0, fs2) \<and>
    fs_lookup fs2 (p @ BARRA # s) = Inr (1, Some f, fs3) \<and> fs_read fs3 f 0 cnt = Inr (0, Some data, fs4) \<and> arvore_dirs fs2 \<and>
    (\<forall>g. ficheiro fs g \<longrightarrow> ficheiro fs2 g \<and> conteudo_f fs2 g = conteudo_f fs g)"
proof -
  obtain f fs1 where F: "fs_create fs (of_nat d) s = Inr (0, Some (of_nat f), fs1)" "arvore_dirs fs1" "f < ITAB_SIZE"
    "\<not> ocupado (inode_bmap fs) f" "ficheiro fs1 f" "conteudo_f fs1 f = []" "segue_caminho fs1 (tokens p @ [s]) 1 = Some f"
    "pronto fs1 f K"
    "\<forall>g. ficheiro fs g \<longrightarrow> ficheiro fs1 g \<and> blocos fs1 g = blocos fs g \<and> conteudo_f fs1 g = conteudo_f fs g"
    using fs_create_ok[OF a d r s(1,2,4)] K by blast
  let ?f = "of_nat f :: inodeid_t"
  have uf: "unat ?f = f" using F(3) by (simp add: ITAB_SIZE_def unsigned_of_nat take_bit_nat_eq_self)
  have pr: "pronto fs1 (unat ?f) K" using F(8) uf by simp
  have o: "0 = min (unat (0 :: 32 word)) (length (conteudo_f fs1 (unat ?f)))" by simp
  have m: "0 + unat cnt \<le> 512 * K" "unat cnt \<le> length data" using l by simp_all
  obtain fs2 where W: "fs_write fs1 ?f 0 cnt data = Inr (0, fs2)" "pronto fs2 f K" "conteudo_f fs2 f = data"
    "\<forall>g. ficheiro fs1 g \<longrightarrow> g \<noteq> f \<longrightarrow> set (blocos fs1 g) \<inter> set (blocos fs1 f) = {} \<longrightarrow> ficheiro fs2 g \<and> conteudo_f fs2 g = conteudo_f fs1 g"
    using fs_write_ok[OF pr o m] F(6) l(1) uf by (auto simp: emenda_def)
  note Wd = fs_write_dirs[OF F(2) pr o m W(1)]
  have "blocos fs1 f = []"
    using blocos_length(1,5)[OF arvore_dirsD(1)[OF F(2)] F(5)] F(6) by (simp add: OFFSET_TO_BLOCKS_ok)
  then have G: "\<forall>g. ficheiro fs g \<longrightarrow> ficheiro fs2 g \<and> conteudo_f fs2 g = conteudo_f fs g"
    using F(4,9) W(4) by (metis ficheiro_def inf_bot_right list.set(1))
  have "s \<noteq> []" using s(1) by (auto simp: nome_mau_def)
  then obtain fs3 where L: "fs_lookup fs2 (p @ BARRA # s) = Inr (1, Some ?f, fs3)"
    "fs3 = fs2\<lparr>leitores := 0, turno := ESCRITA, n_pilha := n_pilha fs2 + length (tokens p @ [s])\<rparr>"
    using fs_lookup_junta[OF arvore_dirsD(1)[OF Wd(1)] p s(3) _ Wd(2)[OF F(7)]] by blast
  have "pronto fs3 (unat ?f) K" "conteudo_f fs3 f = data" unfolding L(2) uf using pronto_lido[OF W(2)] W(3) by simp_all
  then obtain fs4 where "fs_read fs3 ?f 0 cnt = Inr (0, Some data, fs4)"
    using fs_read_pronto[of fs3 ?f K 0 cnt] l(1) uf by auto
  then show ?thesis using F(1) W(1) L(1) Wd(1) G by blast
qed

end
