(* ===== verification/Servidor.thy ===== *)
theory Servidor
  imports FsCopia Agenda
begin

text \<open>
  The server: the messages of include/snfs_proto.h, the handlers of snfs_server/snfs.c and the
  threads of snfs_server/server.c with their ring of requests.

  A message is its type with the member of the union that the type selects; names are the C
  strings in their arrays.  File handles are ints that the handlers cut to 16 bits.  Sockets are
  outside the model: the receiver is given the messages, the sender the responses.
\<close>

section \<open>Messages\<close>

definition MAX_FILE_NAME_SIZE :: nat where "MAX_FILE_NAME_SIZE = 14"
definition MAX_READ_DATA :: nat where "MAX_READ_DATA = 1024"
definition MAX_WRITE_DATA :: nat where "MAX_WRITE_DATA = 1024"
definition MAX_READDIR_ENTRIES :: nat where "MAX_READDIR_ENTRIES = 64"

type_synonym snfs_fhandle_t = "32 word"

datatype snfs_msg_req =
    REQ_NULL
  | REQ_PING nome
  | REQ_LOOKUP nome
  | REQ_READ snfs_fhandle_t "32 word" "32 word"
  | REQ_WRITE snfs_fhandle_t "32 word" "32 word" "byte list"
  | REQ_CREATE snfs_fhandle_t nome
  | REQ_MKDIR snfs_fhandle_t nome
  | REQ_READDIR snfs_fhandle_t "32 word"
  | REQ_COPY snfs_fhandle_t snfs_fhandle_t nome nome
  | REQ_REMOVE snfs_fhandle_t nome
  | REQ_APPEND snfs_fhandle_t snfs_fhandle_t nome nome
  | REQ_DEFRAG
  | REQ_DISKUSAGE
  | REQ_DUMPCACHE

datatype snfs_status = RES_OK | RES_ERROR | RES_UNKNOWN

record snfs_dir_entry =
  name_d :: nome
  len_d :: nat
  type_d :: fs_itype_t

text \<open>The body of a response; a response that is not OK has the zeros of memset.\<close>

datatype snfs_body =
    Vazio
  | PingRes nome
  | LookupRes snfs_fhandle_t "32 word"
  | ReadRes "byte list"
  | WriteRes "32 word"
  | FileRes snfs_fhandle_t
  | ReaddirRes "snfs_dir_entry list"
  | AppendRes "32 word"

text \<open>\<open>ressz\<close> is \<open>None\<close> where the handler does not store a size.\<close>

record snfs_msg_res =
  type_m :: int
  status_m :: snfs_status
  body_m :: snfs_body
  ressz_m :: "nat option"

definition responde :: "int \<Rightarrow> nat \<Rightarrow> snfs_status \<Rightarrow> snfs_body \<Rightarrow> snfs_msg_res" where
  "responde t sz st b = \<lparr>type_m = t, status_m = st, body_m = b, ressz_m = Some (8 + sz)\<rparr>"

section \<open>Handlers\<close>

text \<open>
  The strings are cut at the last byte of their array.  \<open>z\<close> is the content of the
  uninitialised local variable fileid.
\<close>

definition corta_nome :: "nome \<Rightarrow> nome" where
  "corta_nome n = take (MAX_FILE_NAME_SIZE - 1) n"

text \<open>"PONG to client!"\<close>

definition PONG :: nome where
  "PONG = [80, 79, 78, 71, 32, 116, 111, 32, 99, 108, 105, 101, 110, 116, 33]"

definition snfs_ping :: "fs_t \<Rightarrow> nome \<Rightarrow> (snfs_msg_res \<times> fs_t) res" where
  "snfs_ping FS msg = Inr (responde 1 256 RES_OK (PingRes PONG), FS)"

definition snfs_lookup :: "inodeid_t \<Rightarrow> fs_t \<Rightarrow> nome \<Rightarrow> (snfs_msg_res \<times> fs_t) res" where
  "snfs_lookup z FS file =
     bindr (fs_lookup FS file) (\<lambda>(st, fid, FS).
     let fileid = (case fid of Some f \<Rightarrow> f | None \<Rightarrow> z); erro = responde 2 8 RES_ERROR Vazio in
     if st = 1 then
       bindr (fs_get_attrs FS fileid) (\<lambda>(st, a).
       case a of
         Some a \<Rightarrow> Inr (if st = 0 then responde 2 8 RES_OK (LookupRes (ucast fileid) (asize a)) else erro, FS)
       | None \<Rightarrow> Inr (erro, FS))
     else Inr (erro, FS))"

definition snfs_read :: "fs_t \<Rightarrow> snfs_fhandle_t \<Rightarrow> 32 word \<Rightarrow> 32 word \<Rightarrow> (snfs_msg_res \<times> fs_t) res" where
  "snfs_read FS fh offset count =
     (let erro = responde 3 1028 RES_ERROR Vazio in
      if unat count \<le> MAX_READ_DATA then
        bindr (fs_read FS (ucast fh) offset count) (\<lambda>(st, d, FS).
        case d of
          Some d \<Rightarrow> Inr (if st = 0 then responde 3 1028 RES_OK (ReadRes d) else erro, FS)
        | None \<Rightarrow> Inr (erro, FS))
      else Inr (erro, FS))"

definition snfs_write :: "fs_t \<Rightarrow> snfs_fhandle_t \<Rightarrow> 32 word \<Rightarrow> 32 word \<Rightarrow> byte list \<Rightarrow> (snfs_msg_res \<times> fs_t) res" where
  "snfs_write FS fh offset count data =
     (let erro = responde 4 4 RES_ERROR Vazio in
      if unat count \<le> MAX_WRITE_DATA then
        bindr (fs_write FS (ucast fh) offset count data) (\<lambda>(st, FS).
        if st \<noteq> 0 then Inr (erro, FS)
        else
          bindr (fs_get_attrs FS (ucast fh)) (\<lambda>(st, a).
          case a of
            Some a \<Rightarrow> Inr (if st = 0 then responde 4 4 RES_OK (WriteRes (asize a)) else erro, FS)
          | None \<Rightarrow> Inr (erro, FS)))
      else Inr (erro, FS))"

text \<open>The response of a handler that returns a file handle, from the result of the operation.\<close>

definition resposta_fh :: "int \<Rightarrow> int \<times> inodeid_t option \<times> fs_t \<Rightarrow> snfs_msg_res \<times> fs_t" where
  "resposta_fh t r =
     (case r of (st, fid, FS) \<Rightarrow>
        (if st = 0 then
           responde t 4 RES_OK (FileRes (ucast (case fid of Some f \<Rightarrow> f | None \<Rightarrow> 0)))
         else responde t 4 RES_ERROR Vazio, FS))"

definition snfs_create :: "fs_t \<Rightarrow> snfs_fhandle_t \<Rightarrow> nome \<Rightarrow> (snfs_msg_res \<times> fs_t) res" where
  "snfs_create FS dir n = bindr (fs_create FS (ucast dir) (corta_nome n)) (\<lambda>r. Inr (resposta_fh 5 r))"

definition snfs_mkdir :: "fs_t \<Rightarrow> snfs_fhandle_t \<Rightarrow> nome \<Rightarrow> (snfs_msg_res \<times> fs_t) res" where
  "snfs_mkdir FS dir f = bindr (fs_mkdir FS (ucast dir) (corta_nome f)) (\<lambda>r. Inr (resposta_fh 6 r))"

definition snfs_remove :: "fs_t \<Rightarrow> snfs_fhandle_t \<Rightarrow> nome \<Rightarrow> (snfs_msg_res \<times> fs_t) res" where
  "snfs_remove FS dir n = bindr (fs_remove FS (ucast dir) (corta_nome n)) (\<lambda>r. Inr (resposta_fh 9 r))"

text \<open>The type of an entry must be one of the two; the array of names has 64 elements.\<close>

definition entrada_msg :: "fs_file_name \<Rightarrow> snfs_dir_entry res" where
  "entrada_msg e =
     (if snd e = FS_DIR \<or> snd e = FS_FILE
      then Inr \<lparr>name_d = fst e, len_d = length (fst e), type_d = snd e\<rparr>
      else Inl (Exited (-1)))"

definition snfs_readdir :: "fs_t \<Rightarrow> snfs_fhandle_t \<Rightarrow> 32 word \<Rightarrow> (snfs_msg_res \<times> fs_t) res" where
  "snfs_readdir FS dir cmax =
     bindr (fs_readdir FS (ucast dir) (sint cmax)) (\<lambda>(st, es, FS).
     case es of
       None \<Rightarrow> Inr (responde 7 1540 RES_ERROR Vazio, FS)
     | Some es \<Rightarrow>
         if length es > MAX_READDIR_ENTRIES then Inl (OutOfRange MAX_READDIR_ENTRIES)
         else bindr (mapr entrada_msg es) (\<lambda>l. Inr (responde 7 1540 RES_OK (ReaddirRes l), FS)))"

text \<open>snfs_copy answers with the uninitialised variable fileId.\<close>

definition snfs_copy :: "inodeid_t \<Rightarrow> fs_t \<Rightarrow> snfs_fhandle_t \<Rightarrow> snfs_fhandle_t \<Rightarrow> nome \<Rightarrow> nome \<Rightarrow> (snfs_msg_res \<times> fs_t) res" where
  "snfs_copy z FS src dst sn dn =
     bindr (fs_copy FS (ucast src) (corta_nome sn) (ucast dst) (corta_nome dn)) (\<lambda>(st, FS).
     Inr (resposta_fh 8 (st, Some z, FS)))"

definition snfs_append :: "fs_t \<Rightarrow> snfs_fhandle_t \<Rightarrow> snfs_fhandle_t \<Rightarrow> nome \<Rightarrow> nome \<Rightarrow> (snfs_msg_res \<times> fs_t) res" where
  "snfs_append FS d1 d2 n1 n2 =
     bindr (fs_append FS (ucast d1) (corta_nome n1) (ucast d2) (corta_nome n2)) (\<lambda>(st, sz, FS).
     Inr (if st = 0 then responde 10 4 RES_OK (AppendRes (case sz of Some s \<Rightarrow> s | None \<Rightarrow> 0))
          else responde 10 4 RES_ERROR Vazio, FS))"

text \<open>The second test overwrites the status the first one set; no size is stored.\<close>

definition snfs_defrag :: "fs_t \<Rightarrow> (snfs_msg_res \<times> fs_t) res" where
  "snfs_defrag FS =
     bindr (fs_defrag FS) (\<lambda>(stat, FS).
     let s0 = (if stat = -1 then RES_ERROR else RES_OK);
         s = (if stat = 0 then RES_UNKNOWN else RES_OK)
     in Inr (\<lparr>type_m = 11, status_m = s, body_m = Vazio, ressz_m = None\<rparr>, FS))"

definition snfs_diskusage :: "nat \<Rightarrow> fs_t \<Rightarrow> (snfs_msg_res \<times> fs_t) res" where
  "snfs_diskusage fuel FS =
     bindr (fs_diskUsage fuel FS) (\<lambda>(st, _, FS).
     Inr (responde 12 4 (if st = 0 then RES_OK else RES_ERROR) Vazio, FS))"

definition snfs_dumpcache :: "fs_t \<Rightarrow> (snfs_msg_res \<times> fs_t) res" where
  "snfs_dumpcache FS =
     bindr (fs_dumpcache FS) (\<lambda>(st, _, FS).
     Inr (responde 13 4 (if st = 0 then RES_OK else RES_ERROR) Vazio, FS))"

text \<open>
  The table Service and its search: the handler of the type, or an unknown request, for which
  only the status and the size of the header are sent.  \<open>z\<close> and \<open>fuel\<close> as above.
\<close>

definition serve :: "inodeid_t \<Rightarrow> nat \<Rightarrow> fs_t \<Rightarrow> snfs_msg_req \<Rightarrow> (snfs_msg_res \<times> fs_t) res" where
  "serve z fuel FS r =
     (case r of
        REQ_PING m \<Rightarrow> snfs_ping FS m
      | REQ_LOOKUP n \<Rightarrow> snfs_lookup z FS n
      | REQ_READ f off cnt \<Rightarrow> snfs_read FS f off cnt
      | REQ_WRITE f off cnt d \<Rightarrow> snfs_write FS f off cnt d
      | REQ_CREATE d n \<Rightarrow> snfs_create FS d n
      | REQ_MKDIR d n \<Rightarrow> snfs_mkdir FS d n
      | REQ_READDIR d m \<Rightarrow> snfs_readdir FS d m
      | REQ_REMOVE d n \<Rightarrow> snfs_remove FS d n
      | REQ_COPY s d sn dn \<Rightarrow> snfs_copy z FS s d sn dn
      | REQ_APPEND a b an bn \<Rightarrow> snfs_append FS a b an bn
      | REQ_DEFRAG \<Rightarrow> snfs_defrag FS
      | REQ_DISKUSAGE \<Rightarrow> snfs_diskusage fuel FS
      | REQ_DUMPCACHE \<Rightarrow> snfs_dumpcache FS
      | REQ_NULL \<Rightarrow> Inr (\<lparr>type_m = 0, status_m = RES_UNKNOWN, body_m = Vazio, ressz_m = Some 8\<rparr>, FS))"

section \<open>The ring of requests\<close>

definition RING_SIZE :: nat where
  "RING_SIZE = 10"

text \<open>The two positions are static variables of get_req and put_req.\<close>

record 'r anel =
  ring :: "'r option list"
  pos_get :: nat
  pos_put :: nat
  available_reqs :: nat

definition anel_vazio :: "'r anel" where
  "anel_vazio = \<lparr>ring = replicate RING_SIZE None, pos_get = 0, pos_put = 0, available_reqs = 0\<rparr>"

definition get_req :: "'r anel \<Rightarrow> ('r option \<times> 'r anel) res" where
  "get_req a = bindr (le_pos (ring a) (pos_get a)) (\<lambda>r. Inr (r, a\<lparr>pos_get := (pos_get a + 1) mod RING_SIZE\<rparr>))"

definition put_req :: "'r anel \<Rightarrow> 'r \<Rightarrow> 'r anel res" where
  "put_req a r =
     bindr (poe_pos (ring a) (pos_put a) (Some r)) (\<lambda>rg.
     Inr (a\<lparr>ring := rg, pos_put := (pos_put a + 1) mod RING_SIZE\<rparr>))"

text \<open>
  One round of the producer: it waits for a free slot, receives and inserts; a failed receive
  (size 0) inserts nothing.
\<close>

definition produz :: "'r anel \<Rightarrow> 'r \<Rightarrow> nat \<Rightarrow> 'r anel res" where
  "produz a r reqsz =
     (if available_reqs a = RING_SIZE then Inl Blocked
      else if reqsz = 0 then Inr a
      else bindr (put_req a r) (\<lambda>a. Inr (a\<lparr>available_reqs := available_reqs a + 1\<rparr>)))"

text \<open>The consumer takes a request when there is one.\<close>

definition consome :: "'r anel \<Rightarrow> ('r \<times> 'r anel) res" where
  "consome a =
     (if available_reqs a = 0 then Inl Blocked
      else
        bindr (get_req a) (\<lambda>(r, a).
        case r of
          None \<Rightarrow> Inl (BadAddr NULL)
        | Some r \<Rightarrow> Inr (r, a\<lparr>available_reqs := available_reqs a - 1\<rparr>)))"

text \<open>
  One round of a consumer thread: the request, its response and the number of bytes sent;
  \<open>ressz\<close> is the variable of the thread, which keeps its value when the handler stores none.
\<close>

definition thread_consumer :: "inodeid_t \<Rightarrow> nat \<Rightarrow> snfs_msg_req anel \<Rightarrow> fs_t \<Rightarrow> nat
    \<Rightarrow> (snfs_msg_res \<times> nat \<times> snfs_msg_req anel \<times> fs_t) res" where
  "thread_consumer z fuel a FS ressz =
     bindr (consome a) (\<lambda>(r, a).
     bindr (serve z fuel FS r) (\<lambda>(m, FS).
     Inr (m, (case ressz_m m of Some n \<Rightarrow> n | None \<Rightarrow> ressz), a, FS)))"

text \<open>The start of the server: a new file system, formatted.\<close>

definition NUM_BLOCKS :: "32 word" where
  "NUM_BLOCKS = 8 * 1024 * 2"

definition snfs_init :: "fs_t \<Rightarrow> (nat \<Rightarrow> nat) \<Rightarrow> bool \<Rightarrow> (int \<times> fs_t) res" where
  "snfs_init bruto z criada = bindr (fs_new bruto z NUM_BLOCKS criada) fs_format"

section \<open>The ring is a bounded queue\<close>

definition anel_ok :: "'r anel \<Rightarrow> 'r list \<Rightarrow> bool" where
  "anel_ok a xs \<longleftrightarrow>
     length (ring a) = RING_SIZE \<and> pos_get a < RING_SIZE \<and> available_reqs a = length xs \<and>
     length xs \<le> RING_SIZE \<and> pos_put a = (pos_get a + length xs) mod RING_SIZE \<and>
     (\<forall>i < length xs. ring a ! ((pos_get a + i) mod RING_SIZE) = Some (xs ! i))"

lemma anel_vazio_ok: "anel_ok anel_vazio []"
  by (simp add: anel_ok_def anel_vazio_def RING_SIZE_def)

lemma mod_dobro: "x < n + n \<Longrightarrow> x mod n = (if x < n then x else x - (n::nat))"
  by (simp add: le_mod_geq)

lemma mod_anel:
  assumes "p < RING_SIZE" "i < RING_SIZE" "j < RING_SIZE"
  shows "(p + i) mod RING_SIZE = (p + j) mod RING_SIZE \<longleftrightarrow> i = j" "(p + i) mod RING_SIZE < RING_SIZE"
    "((p + 1) mod RING_SIZE + i) mod RING_SIZE = (p + Suc i) mod RING_SIZE"
proof -
  show "(p + i) mod RING_SIZE = (p + j) mod RING_SIZE \<longleftrightarrow> i = j"
    using assms mod_dobro[of "p + i" RING_SIZE] mod_dobro[of "p + j" RING_SIZE] by (auto split: if_splits)
  show "(p + i) mod RING_SIZE < RING_SIZE" by (simp add: RING_SIZE_def)
  show "((p + 1) mod RING_SIZE + i) mod RING_SIZE = (p + Suc i) mod RING_SIZE"
    by (simp add: mod_add_left_eq)
qed

lemma produz_ok:
  assumes a: "anel_ok a xs" and n: "length xs < RING_SIZE" and z: "reqsz \<noteq> 0"
  shows "\<exists>a'. produz a r reqsz = Inr a' \<and> anel_ok a' (xs @ [r])"
proof -
  have p: "pos_get a < RING_SIZE" "pos_put a = (pos_get a + length xs) mod RING_SIZE"
    "length (ring a) = RING_SIZE" "available_reqs a = length xs"
    using a by (simp_all add: anel_ok_def)
  have m: "pos_put a < RING_SIZE" using mod_anel(2)[OF p(1) n n] p(2) by simp
  let ?a = "a\<lparr>ring := (ring a)[pos_put a := Some r], pos_put := (pos_put a + 1) mod RING_SIZE,
      available_reqs := available_reqs a + 1\<rparr>"
  have "produz a r reqsz = Inr ?a" using p n z m by (simp add: produz_def put_req_def)
  moreover have "anel_ok ?a (xs @ [r])"
    unfolding anel_ok_def
  proof (intro conjI allI impI)
    show "pos_put ?a = (pos_get ?a + length (xs @ [r])) mod RING_SIZE"
      using p(2) by (simp add: mod_Suc_eq)
    fix i assume i: "i < length (xs @ [r])"
    show "ring ?a ! ((pos_get ?a + i) mod RING_SIZE) = Some ((xs @ [r]) ! i)"
    proof (cases "i = length xs")
      case True
      then show ?thesis using p m by simp
    next
      case False
      then have i: "i < length xs" using i by simp
      then have "(pos_get a + i) mod RING_SIZE \<noteq> pos_put a"
        using mod_anel(1)[OF p(1), of i "length xs"] n p(2) by simp
      then show ?thesis using a i by (simp add: anel_ok_def nth_append)
    qed
  qed (use a n p in auto)
  ultimately show ?thesis by blast
qed

lemma consome_ok:
  assumes a: "anel_ok a (r # xs)"
  shows "\<exists>a'. consome a = Inr (r, a') \<and> anel_ok a' xs"
proof -
  have p: "pos_get a < RING_SIZE" "length (ring a) = RING_SIZE" "available_reqs a = Suc (length xs)"
    "length xs < RING_SIZE" "pos_put a = (pos_get a + Suc (length xs)) mod RING_SIZE"
    using a by (simp_all add: anel_ok_def)
  let ?a = "a\<lparr>pos_get := (pos_get a + 1) mod RING_SIZE, available_reqs := length xs\<rparr>"
  have el: "ring a ! ((pos_get a + i) mod RING_SIZE) = Some ((r # xs) ! i)" if "i < Suc (length xs)" for i
    using a that by (simp add: anel_ok_def)
  have "ring a ! pos_get a = Some r" using el[of 0] p(1) by simp
  then have "consome a = Inr (r, ?a)"
    using p by (simp add: consome_def get_req_def)
  moreover have "anel_ok ?a xs"
    unfolding anel_ok_def
  proof (intro conjI allI impI)
    show "pos_get ?a < RING_SIZE" by (simp add: RING_SIZE_def)
    show "pos_put ?a = (pos_get ?a + length xs) mod RING_SIZE"
      using mod_anel(3)[OF p(1) p(4) p(4)] p(5) by simp
    fix i assume i: "i < length xs"
    then have "i < RING_SIZE" using p(4) by simp
    then show "ring ?a ! ((pos_get ?a + i) mod RING_SIZE) = Some (xs ! i)"
      using el[of "Suc i"] i mod_anel(3)[OF p(1) _ p(4), of i] by simp
  qed (use p in auto)
  ultimately show ?thesis by blast
qed

interpretation anel: fifo anel_ok "\<lambda>a r. produz a r n" "\<lambda>_ xs. length xs < RING_SIZE \<and> n \<noteq> 0" consome for n
  by unfold_locales (simp_all add: produz_ok consome_ok)

text \<open>A full ring blocks the producer and an empty one the consumers.\<close>

lemma anel_cheio: "anel_ok a xs \<Longrightarrow> length xs = RING_SIZE \<Longrightarrow> produz a r n = Inl Blocked"
  by (simp add: produz_def anel_ok_def)

lemma anel_sem_pedidos: "anel_ok a [] \<Longrightarrow> consome a = Inl Blocked"
  by (simp add: consome_def anel_ok_def)

end
