(* ===== verification/SnfsApi.thy ===== *)
theory SnfsApi
  imports FsDirectorio Servidor
begin

text \<open>
  The API layer of the client, snfs_lib/snfs_api.c: each call formats a request, sends it, waits
  for the response and reads its body.  The names that the server also uses have the suffix
  \<open>_c\<close>.

  The socket is a parameter: \<open>sendto\<close> takes the request and gives the status of the system call,
  \<open>recvfrom\<close> gives the number of bytes and the message, or never returns.  \<open>'w\<close> is the world
  behind the socket.  Strings are copied into arrays of fixed size without a test; a string that
  does not fit stops the model.
\<close>

section \<open>Calls\<close>

datatype snfs_call_status = STAT_OK | STAT_BUSY | STAT_ERROR

record 'w rede =
  sendto :: "'w \<Rightarrow> snfs_msg_req \<Rightarrow> int \<times> 'w"
  recvfrom :: "'w \<Rightarrow> (int \<times> snfs_msg_res \<times> 'w) res"

text \<open>The response after memset: the status 0 is RES_OK.\<close>

definition res0 :: snfs_msg_res where
  "res0 = \<lparr>type_m = 0, status_m = RES_OK, body_m = Vazio, ressz_m = None\<rparr>"

definition remote_call :: "'w rede \<Rightarrow> 'w \<Rightarrow> snfs_msg_req \<Rightarrow> (int \<times> snfs_msg_res \<times> 'w) res" where
  "remote_call N w req =
     (let (status, w) = sendto N w req in
      if status < 0 then Inr (-1, res0, w)
      else
        bindr (recvfrom N w) (\<lambda>(status, res, w).
        if status \<le> 0 then Inr (-1, res0, w) else Inr (status, res, w)))"

definition falhou :: "int \<Rightarrow> snfs_msg_res \<Rightarrow> bool" where
  "falhou status res \<longleftrightarrow> status < 0 \<or> status_m res \<noteq> RES_OK"

text \<open>strcpy of a string into an array of the message.\<close>

definition strcpy_msg :: "nat \<Rightarrow> nome \<Rightarrow> nome res" where
  "strcpy_msg n s = (if length s < n then Inr s else Inl (OutOfRange n))"

text \<open>The fields of the body; what the server did not store is zero.\<close>

definition lookup_de :: "snfs_msg_res \<Rightarrow> snfs_fhandle_t \<times> 32 word" where
  "lookup_de m = (case body_m m of LookupRes f s \<Rightarrow> (f, s) | _ \<Rightarrow> (0, 0))"

definition read_de :: "snfs_msg_res \<Rightarrow> byte list" where
  "read_de m = (case body_m m of ReadRes d \<Rightarrow> d | _ \<Rightarrow> [])"

definition write_de :: "snfs_msg_res \<Rightarrow> 32 word" where
  "write_de m = (case body_m m of WriteRes s \<Rightarrow> s | _ \<Rightarrow> 0)"

definition fh_de :: "snfs_msg_res \<Rightarrow> snfs_fhandle_t" where
  "fh_de m = (case body_m m of FileRes f \<Rightarrow> f | _ \<Rightarrow> 0)"

definition readdir_de :: "snfs_msg_res \<Rightarrow> snfs_dir_entry list" where
  "readdir_de m = (case body_m m of ReaddirRes l \<Rightarrow> l | _ \<Rightarrow> [])"

definition ping_de :: "snfs_msg_res \<Rightarrow> nome" where
  "ping_de m = (case body_m m of PingRes n \<Rightarrow> n | _ \<Rightarrow> [])"

section \<open>The API\<close>

text \<open>
  snfs_init_c: a name is \<open>None\<close> when it is NULL; the flags say whether socket and bind succeed.
  The path of a socket address has 108 bytes.
\<close>

definition snfs_init_c :: "nome option \<Rightarrow> nome option \<Rightarrow> bool \<Rightarrow> bool \<Rightarrow> int res" where
  "snfs_init_c cli_name server_name sock bnd =
     (case (cli_name, server_name) of
        (Some c, Some s) \<Rightarrow>
          if \<not> sock then Inr (-1)
          else
            bindr (strcpy_msg 108 c) (\<lambda>c.
            if \<not> bnd then Inr (-1)
            else bindr (strcpy_msg 108 s) (\<lambda>s. Inr 0))
      | _ \<Rightarrow> Inr (-1))"

definition snfs_ping_c :: "'w rede \<Rightarrow> 'w \<Rightarrow> nome \<Rightarrow> nat \<Rightarrow> nat \<Rightarrow> (snfs_call_status \<times> nome option \<times> 'w) res" where
  "snfs_ping_c N w inmsg insize outsize =
     (if insize > 256 then Inl (OutOfRange 256)
      else
        bindr (remote_call N w (REQ_PING (take insize inmsg))) (\<lambda>(status, res, w).
        if falhou status res then Inr (STAT_ERROR, None, w)
        else Inr (STAT_OK, Some (take outsize (ping_de res)), w)))"

text \<open>snfs_lookup stores the file handle on errors too, and the size only on success.\<close>

definition snfs_lookup_c :: "'w rede \<Rightarrow> 'w \<Rightarrow> nome
    \<Rightarrow> (snfs_call_status \<times> snfs_fhandle_t \<times> 32 word option \<times> 'w) res" where
  "snfs_lookup_c N w caminho =
     bindr (strcpy_msg MAX_PATH_NAME_SIZE caminho) (\<lambda>p.
     bindr (remote_call N w (REQ_LOOKUP p)) (\<lambda>(status, res, w).
     if falhou status res then Inr (STAT_ERROR, fst (lookup_de res), None, w)
     else Inr (STAT_OK, fst (lookup_de res), Some (snd (lookup_de res)), w)))"

text \<open>snfs_read copies \<open>count\<close> bytes, however many were read.\<close>

definition snfs_read_c :: "'w rede \<Rightarrow> 'w \<Rightarrow> snfs_fhandle_t \<Rightarrow> 32 word \<Rightarrow> 32 word
    \<Rightarrow> (snfs_call_status \<times> (byte list \<times> 32 word) option \<times> 'w) res" where
  "snfs_read_c N w fhandle offset count =
     bindr (remote_call N w (REQ_READ fhandle offset count)) (\<lambda>(status, res, w).
     if falhou status res then Inr (STAT_ERROR, None, w)
     else if unat count > MAX_READ_DATA then Inl (OutOfRange MAX_READ_DATA)
     else Inr (STAT_OK, Some (take (unat count) (read_de res @ zeros MAX_READ_DATA), of_nat (length (read_de res))), w))"

definition snfs_write_c :: "'w rede \<Rightarrow> 'w \<Rightarrow> snfs_fhandle_t \<Rightarrow> 32 word \<Rightarrow> 32 word \<Rightarrow> byte list
    \<Rightarrow> (snfs_call_status \<times> 32 word option \<times> 'w) res" where
  "snfs_write_c N w fhandle offset count buffer =
     (if unat count > MAX_WRITE_DATA then Inl (OutOfRange MAX_WRITE_DATA)
      else if unat count > length buffer then Inl (OutOfRange (length buffer))
      else
        bindr (remote_call N w (REQ_WRITE fhandle offset count (take (unat count) buffer))) (\<lambda>(status, res, w).
        if falhou status res then Inr (STAT_ERROR, None, w) else Inr (STAT_OK, Some (write_de res), w)))"

definition snfs_create_c :: "'w rede \<Rightarrow> 'w \<Rightarrow> snfs_fhandle_t \<Rightarrow> nome
    \<Rightarrow> (snfs_call_status \<times> snfs_fhandle_t option \<times> 'w) res" where
  "snfs_create_c N w dir name =
     bindr (strcpy_msg MAX_FILE_NAME_SIZE name) (\<lambda>n.
     bindr (remote_call N w (REQ_CREATE dir n)) (\<lambda>(status, res, w).
     if falhou status res then Inr (STAT_ERROR, None, w) else Inr (STAT_OK, Some (fh_de res), w)))"

definition snfs_mkdir_c :: "'w rede \<Rightarrow> 'w \<Rightarrow> snfs_fhandle_t \<Rightarrow> nome
    \<Rightarrow> (snfs_call_status \<times> snfs_fhandle_t option \<times> 'w) res" where
  "snfs_mkdir_c N w dir name =
     bindr (strcpy_msg MAX_FILE_NAME_SIZE name) (\<lambda>n.
     bindr (remote_call N w (REQ_MKDIR dir n)) (\<lambda>(status, res, w).
     if falhou status res then Inr (STAT_ERROR, None, w) else Inr (STAT_OK, Some (fh_de res), w)))"

text \<open>
  \<open>espaco\<close> is the number of entries of the caller's list; the number of entries is the one the
  server sent.
\<close>

definition snfs_readdir_c :: "'w rede \<Rightarrow> 'w \<Rightarrow> snfs_fhandle_t \<Rightarrow> 32 word \<Rightarrow> nat
    \<Rightarrow> (snfs_call_status \<times> snfs_dir_entry list option \<times> 'w) res" where
  "snfs_readdir_c N w dir cmax espaco_l =
     bindr (remote_call N w (REQ_READDIR dir cmax)) (\<lambda>(status, res, w).
     if falhou status res then Inr (STAT_ERROR, None, w)
     else if length (readdir_de res) > min espaco_l MAX_READDIR_ENTRIES then Inl (OutOfRange (min espaco_l MAX_READDIR_ENTRIES))
     else Inr (STAT_OK, Some (readdir_de res), w))"

definition snfs_remove_c :: "'w rede \<Rightarrow> 'w \<Rightarrow> snfs_fhandle_t \<Rightarrow> nome
    \<Rightarrow> (snfs_call_status \<times> snfs_fhandle_t option \<times> 'w) res" where
  "snfs_remove_c N w dir name =
     bindr (strcpy_msg MAX_FILE_NAME_SIZE name) (\<lambda>n.
     bindr (remote_call N w (REQ_REMOVE dir n)) (\<lambda>(status, res, w).
     if falhou status res then Inr (STAT_ERROR, None, w) else Inr (STAT_OK, Some (fh_de res), w)))"

text \<open>snfs_copy and snfs_append do not store the results their last parameter is for.\<close>

definition snfs_copy_c :: "'w rede \<Rightarrow> 'w \<Rightarrow> snfs_fhandle_t \<Rightarrow> nome \<Rightarrow> snfs_fhandle_t \<Rightarrow> nome \<Rightarrow> (snfs_call_status \<times> 'w) res" where
  "snfs_copy_c N w src_dir src_name dst_dir dst_name =
     bindr (strcpy_msg MAX_FILE_NAME_SIZE src_name) (\<lambda>sn.
     bindr (strcpy_msg MAX_FILE_NAME_SIZE dst_name) (\<lambda>dn.
     bindr (remote_call N w (REQ_COPY src_dir dst_dir sn dn)) (\<lambda>(status, res, w).
     Inr (if falhou status res then STAT_ERROR else STAT_OK, w))))"

definition snfs_append_c :: "'w rede \<Rightarrow> 'w \<Rightarrow> snfs_fhandle_t \<Rightarrow> nome \<Rightarrow> snfs_fhandle_t \<Rightarrow> nome \<Rightarrow> (snfs_call_status \<times> 'w) res" where
  "snfs_append_c N w dir1 name1 dir2 name2 =
     bindr (strcpy_msg MAX_FILE_NAME_SIZE name1) (\<lambda>n1.
     bindr (strcpy_msg MAX_FILE_NAME_SIZE name2) (\<lambda>n2.
     bindr (remote_call N w (REQ_APPEND dir1 dir2 n1 n2)) (\<lambda>(status, res, w).
     Inr (if falhou status res then STAT_ERROR else STAT_OK, w))))"

definition snfs_defrag_c :: "'w rede \<Rightarrow> 'w \<Rightarrow> (snfs_call_status \<times> 'w) res" where
  "snfs_defrag_c N w =
     bindr (remote_call N w REQ_DEFRAG) (\<lambda>(status, res, w).
     Inr (if status < 0 \<or> status_m res = RES_ERROR then STAT_ERROR
          else if status_m res = RES_UNKNOWN then STAT_BUSY else STAT_OK, w))"

definition snfs_diskusage_c :: "'w rede \<Rightarrow> 'w \<Rightarrow> (snfs_call_status \<times> 'w) res" where
  "snfs_diskusage_c N w =
     bindr (remote_call N w REQ_DISKUSAGE) (\<lambda>(status, res, w).
     Inr (if falhou status res then STAT_ERROR else STAT_OK, w))"

definition snfs_dumpcache_c :: "'w rede \<Rightarrow> 'w \<Rightarrow> (snfs_call_status \<times> 'w) res" where
  "snfs_dumpcache_c N w =
     bindr (remote_call N w REQ_DUMPCACHE) (\<lambda>(status, res, w).
     Inr (if falhou status res then STAT_ERROR else STAT_OK, w))"

section \<open>The server behind the socket\<close>

text \<open>
  A world with one server: a request is handled when it is sent, the response waits to be
  received; nothing comes when the server stopped.
\<close>

definition ao_servidor :: "inodeid_t \<Rightarrow> nat \<Rightarrow> (fs_t \<times> snfs_msg_res option) rede" where
  "ao_servidor z fuel =
     \<lparr>sendto = (\<lambda>(FS, r) req. (1, case serve z fuel FS req of Inr (m, FS') \<Rightarrow> (FS', Some m) | Inl e \<Rightarrow> (FS, None))),
      recvfrom = (\<lambda>(FS, r). case r of None \<Rightarrow> Inl Blocked | Some m \<Rightarrow> Inr (8, m, (FS, None)))\<rparr>"

lemma ao_servidor_chama:
  "serve z fuel FS req = Inr (m, FS') \<Longrightarrow>
   remote_call (ao_servidor z fuel) (FS, r) req = Inr (8, m, (FS', None))"
  by (simp add: remote_call_def ao_servidor_def)

text \<open>The reads and writes the client asks for, at the server.\<close>

lemma serve_read:
  assumes "pronto FS (unat (ucast fh :: inodeid_t)) K" "unat cnt \<le> 1024"
  shows "\<exists>FS'. serve z fuel FS (REQ_READ fh off cnt) =
      Inr (responde 3 1028 RES_OK (ReadRes (take (unat cnt) (drop (unat off) (conteudo_f FS (unat (ucast fh :: inodeid_t)))))), FS') \<and>
    pronto FS' (unat (ucast fh :: inodeid_t)) K \<and> conteudo_f FS' (unat (ucast fh :: inodeid_t)) = conteudo_f FS (unat (ucast fh :: inodeid_t))"
  using fs_read_pronto[OF assms(1), of off cnt] assms(2)
  by (auto simp: serve_def snfs_read_def MAX_READ_DATA_def)

lemma fs_get_attrs_pronto:
  assumes "pronto FS (unat f) K"
  shows "\<exists>n. fs_get_attrs FS f = Inr (0, Some \<lparr>inodeid = f, atype = FS_FILE, asize = of_nat (length (conteudo_f FS (unat f))), num_entries = n\<rparr>)"
proof -
  have ok: "fs_ok FS" and fi: "ficheiro FS (unat f)" using assms by (simp_all add: pronto_def)
  note i = inode_do_ficheiro[OF ok] and b = blocos_length[OF ok fi]
  have F: "unat f < ITAB_SIZE" "ocupado (inode_bmap FS) (unat f)" "itype (inode_tab FS ! unat f) = FS_FILE"
    using fi by (simp_all add: ficheiro_def)
  then show ?thesis using i[OF F(1)] b(5) by (simp add: fs_get_attrs_def inode_em_def ITAB_SIZE_def Let_def FS_FILE_def FS_DIR_def)
qed

lemma serve_write:
  assumes p: "pronto FS (unat (ucast fh :: inodeid_t)) K" and c: "unat cnt \<le> 1024" "unat cnt \<le> length d"
    and o: "unat off \<le> length (conteudo_f FS (unat (ucast fh :: inodeid_t)))" "unat off + unat cnt \<le> 512 * K"
  shows "\<exists>FS'. serve z fuel FS (REQ_WRITE fh off cnt d) =
      Inr (responde 4 4 RES_OK (WriteRes (of_nat (length (conteudo_f FS' (unat (ucast fh :: inodeid_t)))))), FS') \<and>
    pronto FS' (unat (ucast fh :: inodeid_t)) K \<and>
    conteudo_f FS' (unat (ucast fh :: inodeid_t)) = emenda (conteudo_f FS (unat (ucast fh :: inodeid_t))) (unat off) (take (unat cnt) d)"
proof -
  let ?f = "unat (ucast fh :: inodeid_t)"
  have k: "unat off = min (unat off) (length (conteudo_f FS ?f))" using o(1) by simp
  obtain FS' where w: "fs_write FS (ucast fh) off cnt d = Inr (0, FS')" "pronto FS' ?f K"
    "conteudo_f FS' ?f = emenda (conteudo_f FS ?f) (unat off) (take (unat cnt) d)"
    using fs_write_ok[OF p k o(2) c(2)] by blast
  then show ?thesis using c(1) fs_get_attrs_pronto[OF w(2)]
    by (auto simp: serve_def snfs_write_def MAX_WRITE_DATA_def)
qed

end
