(* ===== verification/FilaFich.thy ===== *)
theory FilaFich
  imports Agenda Block
begin

text \<open>
  The open files of the client library: the descriptors of include/myfs.h and the queue of
  snfs_lib/queue.c that holds pointers to them.  The names that sthread_lib/queue.c also uses
  have the suffix \<open>_f\<close>.  \<open>fila_f m q ps as\<close> says that the queue consists of the cells \<open>ps\<close> and
  holds the descriptors at the addresses \<open>as\<close>, front first; every operation is shown to act on
  \<open>as\<close>.
\<close>

section \<open>Descriptors, cells, queue\<close>

text \<open>struct _file_desc; the ints are 32 bits and wrap.\<close>

record file_desc =
  fileId :: "32 word"
  size_fd :: "32 word"
  read_offset :: "32 word"
  write_offset :: "32 word"

record elem_f =
  fd_e :: addr
  next_e :: addr

record queue_f =
  first_f :: addr
  last_f :: addr

record mem_f =
  elems_f :: "addr \<Rightarrow> elem_f option"
  fds :: "addr \<Rightarrow> file_desc option"
  prox_f :: addr

definition deref_e :: "mem_f \<Rightarrow> addr \<Rightarrow> elem_f res" where
  "deref_e m p = (case elems_f m p of None \<Rightarrow> Inl (BadAddr p) | Some c \<Rightarrow> Inr c)"

definition deref_fd :: "mem_f \<Rightarrow> addr \<Rightarrow> file_desc res" where
  "deref_fd m p = (case fds m p of None \<Rightarrow> Inl (BadAddr p) | Some d \<Rightarrow> Inr d)"

section \<open>Operations\<close>

text \<open>A queue pointer is \<open>None\<close> when it is NULL.\<close>

definition queue_create :: queue_f where
  "queue_create = \<lparr>first_f = NULL, last_f = NULL\<rparr>"

definition queue_destroy :: "queue_f option \<Rightarrow> int \<times> queue_f option" where
  "queue_destroy q =
     (case q of
        None \<Rightarrow> (0, q)
      | Some qq \<Rightarrow> if first_f qq \<noteq> NULL then (-1, q) else (0, None))"

definition queue_enqueue :: "mem_f \<Rightarrow> queue_f option \<Rightarrow> addr \<Rightarrow> (queue_f option \<times> mem_f) res" where
  "queue_enqueue m q fd =
     (case q of
        None \<Rightarrow> Inr (q, m)
      | Some qq \<Rightarrow>
          if fd = NULL then Inr (q, m)
          else
            let p = prox_f m;
                m = m\<lparr>prox_f := prox_f m + 1, elems_f := (elems_f m)(p \<mapsto> \<lparr>fd_e = fd, next_e = NULL\<rparr>)\<rparr>
            in if first_f qq = NULL then Inr (Some \<lparr>first_f = p, last_f = p\<rparr>, m)
               else
                 bindr (deref_e m (last_f qq)) (\<lambda>c.
                 Inr (Some (qq\<lparr>last_f := p\<rparr>), m\<lparr>elems_f := (elems_f m)(last_f qq \<mapsto> c\<lparr>next_e := p\<rparr>)\<rparr>)))"

definition queue_is_empty_f :: "queue_f option \<Rightarrow> bool" where
  "queue_is_empty_f q = (case q of None \<Rightarrow> True | Some q \<Rightarrow> first_f q = NULL)"

definition queue_first_f :: "mem_f \<Rightarrow> queue_f option \<Rightarrow> addr res" where
  "queue_first_f m q =
     (case q of
        None \<Rightarrow> Inr NULL
      | Some q \<Rightarrow> if first_f q = NULL then Inr NULL else bindr (deref_e m (first_f q)) (\<lambda>c. Inr (fd_e c)))"

definition queue_dequeue :: "mem_f \<Rightarrow> queue_f option \<Rightarrow> (addr \<times> queue_f option \<times> mem_f) res" where
  "queue_dequeue m q =
     (case q of
        None \<Rightarrow> Inr (NULL, q, m)
      | Some qq \<Rightarrow>
          if first_f qq = NULL then Inr (NULL, q, m)
          else
            bindr (deref_e m (first_f qq)) (\<lambda>c.
            Inr (fd_e c,
              Some (if first_f qq = last_f qq then \<lparr>first_f = NULL, last_f = NULL\<rparr> else qq\<lparr>first_f := next_e c\<rparr>),
              m\<lparr>elems_f := (elems_f m)(first_f qq := None)\<rparr>)))"

text \<open>
  The searches read the first element before they test the queue pointer.  The loop over the
  cells returns the descriptor found, or NULL; its bound is above the number of allocations.
\<close>

fun procura_fd :: "nat \<Rightarrow> mem_f \<Rightarrow> addr \<Rightarrow> 32 word \<Rightarrow> addr res" where
  "procura_fd 0 m p i = Inl NoFuel"
| "procura_fd (Suc n) m p i =
     (if p = NULL then Inr NULL
      else bindr (deref_e m p) (\<lambda>c. bindr (deref_fd m (fd_e c)) (\<lambda>d.
        if fileId d = i then Inr (fd_e c) else procura_fd n m (next_e c) i)))"

definition queue_node_get :: "mem_f \<Rightarrow> queue_f option \<Rightarrow> 32 word \<Rightarrow> addr res" where
  "queue_node_get m q i =
     (case q of None \<Rightarrow> Inl (BadAddr NULL) | Some q \<Rightarrow> procura_fd (Suc (prox_f m)) m (first_f q) i)"

definition queue_node_search :: "mem_f \<Rightarrow> queue_f option \<Rightarrow> 32 word \<Rightarrow> int res" where
  "queue_node_search m q i =
     (case q of
        None \<Rightarrow> Inl (BadAddr NULL)
      | Some q \<Rightarrow> bindr (procura_fd (Suc (prox_f m)) m (first_f q) i) (\<lambda>a. Inr (if a = NULL then 0 else 1)))"

fun remove_fd :: "nat \<Rightarrow> mem_f \<Rightarrow> queue_f \<Rightarrow> addr \<Rightarrow> addr \<Rightarrow> 32 word \<Rightarrow> (addr \<times> queue_f \<times> mem_f) res" where
  "remove_fd 0 m q aux1 aux2 i = Inl NoFuel"
| "remove_fd (Suc n) m q aux1 aux2 i =
     (if aux2 = NULL then Inr (NULL, q, m)
      else bindr (deref_e m aux2) (\<lambda>c2. bindr (deref_fd m (fd_e c2)) (\<lambda>d.
        if fileId d = i then
          bindr (deref_e m aux1) (\<lambda>c1.
          Inr (fd_e c2, if last_f q = aux2 then q\<lparr>last_f := aux1\<rparr> else q,
               m\<lparr>elems_f := (elems_f m)(aux1 \<mapsto> c1\<lparr>next_e := next_e c2\<rparr>, aux2 := None)\<rparr>))
        else remove_fd n m q aux2 (next_e c2) i)))"

definition queue_node_remove :: "mem_f \<Rightarrow> queue_f option \<Rightarrow> 32 word \<Rightarrow> (addr \<times> queue_f option \<times> mem_f) res" where
  "queue_node_remove m q i =
     (case q of
        None \<Rightarrow> Inl (BadAddr NULL)
      | Some qq \<Rightarrow>
          if first_f qq = NULL then Inr (NULL, q, m)
          else
            bindr (deref_e m (first_f qq)) (\<lambda>c. bindr (deref_fd m (fd_e c)) (\<lambda>d.
            if fileId d = i then queue_dequeue m q
            else
              bindr (remove_fd (Suc (prox_f m)) m qq (first_f qq) (next_e c) i) (\<lambda>(a, q, m).
              Inr (a, Some q, m)))))"

section \<open>What the queue represents\<close>

fun cadeia :: "mem_f \<Rightarrow> addr \<Rightarrow> addr list \<Rightarrow> addr list \<Rightarrow> addr \<Rightarrow> bool" where
  "cadeia m p [] [] z \<longleftrightarrow> p = z"
| "cadeia m p (b # ps) (a # as) z \<longleftrightarrow>
     p = b \<and> b \<noteq> NULL \<and> (\<exists>c. elems_f m b = Some c \<and> fd_e c = a \<and> cadeia m (next_e c) ps as z)"
| "cadeia m p _ _ z \<longleftrightarrow> False"

definition mem_f_ok :: "mem_f \<Rightarrow> bool" where
  "mem_f_ok m \<longleftrightarrow> NULL < prox_f m \<and> (\<forall>a. elems_f m a \<noteq> None \<or> fds m a \<noteq> None \<longrightarrow> NULL < a \<and> a < prox_f m)"

definition fila_f :: "mem_f \<Rightarrow> queue_f \<Rightarrow> addr list \<Rightarrow> addr list \<Rightarrow> bool" where
  "fila_f m q ps as \<longleftrightarrow>
     mem_f_ok m \<and> distinct ps \<and> cadeia m (first_f q) ps as NULL \<and>
     last_f q = (if ps = [] then NULL else last ps) \<and> (\<forall>a \<in> set as. fds m a \<noteq> None)"

lemma cadeia_length: "cadeia m p ps as z \<Longrightarrow> length ps = length as"
  by (induction m p ps as z rule: cadeia.induct) auto

lemma cadeia_Cons:
  "cadeia m p ps (a # as) z \<longleftrightarrow>
     p \<noteq> NULL \<and> (\<exists>c ps'. ps = p # ps' \<and> elems_f m p = Some c \<and> fd_e c = a \<and> cadeia m (next_e c) ps' as z)"
  by (cases ps) auto

lemma cadeia_cells: "cadeia m p ps as z \<Longrightarrow> b \<in> set ps \<Longrightarrow> elems_f m b \<noteq> None \<and> b \<noteq> NULL"
  by (induction m p ps as z rule: cadeia.induct) auto

lemma cadeia_cong: "(\<And>b. b \<in> set ps \<Longrightarrow> elems_f m' b = elems_f m b) \<Longrightarrow> cadeia m' p ps as z = cadeia m p ps as z"
  by (induction m p ps as z rule: cadeia.induct) auto

lemma cadeia_append:
  "length ps = length as \<Longrightarrow> cadeia m p (ps @ ps') (as @ as') z \<longleftrightarrow> (\<exists>y. cadeia m p ps as y \<and> cadeia m y ps' as' z)"
  by (induction ps as arbitrary: p rule: list_induct2) auto

lemma fila_f_vazia: "fila_f m q ps as \<Longrightarrow> first_f q = NULL \<longleftrightarrow> as = []" "fila_f m q ps as \<Longrightarrow> ps = [] \<longleftrightarrow> as = []"
  by (cases ps; cases as; auto simp: fila_f_def)+

lemma fila_f_cells: "fila_f m q ps as \<Longrightarrow> set ps \<subseteq> {0<..<prox_f m}"
  using cadeia_cells by (fastforce simp: fila_f_def mem_f_ok_def NULL_def)

lemma fila_f_curta: "fila_f m q ps as \<Longrightarrow> length ps < prox_f m"
proof -
  assume f: "fila_f m q ps as"
  have "card (set ps) \<le> card {0<..<prox_f m}" by (rule card_mono) (use fila_f_cells[OF f] in auto)
  moreover have "0 < prox_f m" "distinct ps" using f by (simp_all add: fila_f_def mem_f_ok_def NULL_def)
  ultimately show ?thesis by (simp add: distinct_card)
qed

section \<open>The operations on the list\<close>

lemma queue_enqueue_fila:
  assumes f: "fila_f m q ps as" and a: "fds m a \<noteq> None"
  shows "\<exists>p q' m'. queue_enqueue m (Some q) a = Inr (Some q', m') \<and> fila_f m' q' (ps @ [p]) (as @ [a]) \<and> fds m' = fds m"
proof -
  let ?p = "prox_f m"
  have ok: "mem_f_ok m" and an: "a \<noteq> NULL" and pn: "?p \<noteq> NULL" "?p \<notin> set ps"
    using f a fila_f_cells[OF f] by (auto simp: fila_f_def mem_f_ok_def)
  define m1 where "m1 = m\<lparr>prox_f := ?p + 1, elems_f := (elems_f m)(?p \<mapsto> \<lparr>fd_e = a, next_e = NULL\<rparr>)\<rparr>"
  have ok1: "mem_f_ok m1" using ok by (auto simp: mem_f_ok_def m1_def less_Suc_eq)
  have c1: "cadeia m1 x ps as z = cadeia m x ps as z" for x z
    by (rule cadeia_cong) (use pn in \<open>auto simp: m1_def\<close>)
  show ?thesis
  proof (cases "as = []")
    case True
    then have e: "ps = []" "first_f q = NULL" using fila_f_vazia[OF f] by auto
    have "queue_enqueue m (Some q) a = Inr (Some \<lparr>first_f = ?p, last_f = ?p\<rparr>, m1)"
      using e an by (simp add: queue_enqueue_def m1_def Let_def)
    moreover have "fila_f m1 \<lparr>first_f = ?p, last_f = ?p\<rparr> [?p] [a]"
      using ok1 pn a by (auto simp: fila_f_def m1_def)
    ultimately show ?thesis using True e by (auto simp: m1_def)
  next
    case False
    then have nn: "ps \<noteq> []" "first_f q \<noteq> NULL" using fila_f_vazia[OF f] by auto
    obtain ps0 b where ps: "ps = ps0 @ [b]" using nn rev_exhaust by blast
    obtain as0 x where as: "as = as0 @ [x]" using False rev_exhaust by blast
    have l: "length ps0 = length as0" using f cadeia_length[of m "first_f q" ps as] ps as by (auto simp: fila_f_def)
    have lb: "last_f q = b" using f ps by (simp add: fila_f_def)
    have "cadeia m (first_f q) (ps0 @ [b]) (as0 @ [x]) NULL" using f ps as by (simp add: fila_f_def)
    then obtain y where y: "cadeia m (first_f q) ps0 as0 y" "cadeia m y [b] [x] NULL" using cadeia_append[OF l] by blast
    then have cb: "y = b" "elems_f m b = Some \<lparr>fd_e = x, next_e = NULL\<rparr>" "b \<noteq> NULL"
      by auto
    have bp: "b \<noteq> ?p" "b \<notin> set ps0" using pn ps f by (auto simp: fila_f_def)
    define m2 where "m2 = m1\<lparr>elems_f := (elems_f m1)(b \<mapsto> \<lparr>fd_e = x, next_e = ?p\<rparr>)\<rparr>"
    have "queue_enqueue m (Some q) a = Inr (Some (q\<lparr>last_f := ?p\<rparr>), m2)"
      using nn an lb cb bp by (simp add: queue_enqueue_def m1_def m2_def Let_def deref_e_def)
    moreover have "cadeia m2 (first_f q) ps0 as0 b"
      using y(1) cb(1) bp pn ps by (subst cadeia_cong[of ps0 m2 m]) (auto simp: m2_def m1_def)
    moreover have "cadeia m2 b [b, ?p] [x, a] NULL" using bp cb pn by (auto simp: m2_def m1_def)
    ultimately have "cadeia m2 (first_f q) (ps @ [?p]) (as @ [a]) NULL"
      using cadeia_append[OF l, of m2 "first_f q" "[b, ?p]" "[x, a]" NULL] ps as by auto
    moreover have "mem_f_ok m2" using ok1 ok cb bp by (auto simp: mem_f_ok_def m2_def m1_def)
    ultimately have "fila_f m2 (q\<lparr>last_f := ?p\<rparr>) (ps @ [?p]) (as @ [a])"
      using f pn a by (auto simp: fila_f_def m2_def m1_def)
    then show ?thesis using \<open>queue_enqueue m (Some q) a = _\<close> by (auto simp: m2_def m1_def)
  qed
qed

definition tem_id :: "mem_f \<Rightarrow> 32 word \<Rightarrow> addr \<Rightarrow> bool" where
  "tem_id m i a \<longleftrightarrow> (\<exists>d. fds m a = Some d \<and> fileId d = i)"

lemma procura_fd_ok:
  "cadeia m p ps as NULL \<Longrightarrow> \<forall>a \<in> set as. fds m a \<noteq> None \<Longrightarrow> length ps < n \<Longrightarrow>
   procura_fd n m p i = Inr (case find (tem_id m i) as of Some a \<Rightarrow> a | None \<Rightarrow> NULL)"
proof (induction n m p i arbitrary: ps as rule: procura_fd.induct)
  case (2 n m p i)
  show ?case
  proof (cases as)
    case Nil
    then have "p = NULL" using 2(2) by (cases ps) auto
    then show ?thesis using Nil by simp
  next
    case (Cons a as')
    then obtain ps' where ps: "ps = p # ps'" using 2(2) by (cases ps) auto
    obtain c where c: "elems_f m p = Some c" "fd_e c = a" "cadeia m (next_e c) ps' as' NULL" "p \<noteq> NULL"
      using 2(2) Cons ps by auto
    obtain d where d: "fds m a = Some d" using 2(3) Cons by auto
    show ?thesis
    proof (cases "fileId d = i")
      case True
      then show ?thesis using c d Cons by (simp add: deref_e_def deref_fd_def tem_id_def)
    next
      case False
      have "procura_fd n m (next_e c) i = Inr (case find (tem_id m i) as' of Some a \<Rightarrow> a | None \<Rightarrow> NULL)"
        by (rule 2(1)[OF c(4) _ _ False c(3)]) (use c d 2(3,4) Cons ps in \<open>auto simp: deref_e_def deref_fd_def\<close>)
      moreover have "\<not> tem_id m i a" using d False by (simp add: tem_id_def)
      ultimately show ?thesis using c d False Cons by (simp add: deref_e_def deref_fd_def)
    qed
  qed
qed simp

lemma queue_node_get_fila:
  assumes "fila_f m q ps as"
  shows "queue_node_get m (Some q) i = Inr (case find (tem_id m i) as of Some a \<Rightarrow> a | None \<Rightarrow> NULL)"
  using procura_fd_ok[of m "first_f q" ps as "Suc (prox_f m)" i] assms fila_f_curta[OF assms]
  by (simp add: queue_node_get_def fila_f_def)

lemma queue_dequeue_fila:
  assumes f: "fila_f m q (p # ps) (a # as)"
  shows "\<exists>q' m'. queue_dequeue m (Some q) = Inr (a, Some q', m') \<and> fila_f m' q' ps as \<and> fds m' = fds m"
proof -
  obtain c where c: "elems_f m p = Some c" "fd_e c = a" "cadeia m (next_e c) ps as NULL" "p \<noteq> NULL" "first_f q = p"
    and d: "p \<notin> set ps" "distinct ps" and l: "last_f q = last (p # ps)" and ok: "mem_f_ok m"
    using f by (auto simp: fila_f_def)
  let ?m = "m\<lparr>elems_f := (elems_f m)(p := None)\<rparr>"
  let ?q = "if first_f q = last_f q then \<lparr>first_f = NULL, last_f = NULL\<rparr> else q\<lparr>first_f := next_e c\<rparr>"
  have "cadeia ?m (next_e c) ps as NULL" using c(3) d(1) by (subst cadeia_cong[of ps ?m m]) auto
  moreover have "first_f q = last_f q \<longleftrightarrow> ps = []" using c(5) l d(1) by (auto split: if_splits)
  moreover have "ps = [] \<Longrightarrow> as = []" using c(3) by (cases as) auto
  ultimately have "fila_f ?m ?q ps as" using f l d(2) ok by (auto simp: fila_f_def mem_f_ok_def)
  moreover have "queue_dequeue m (Some q) = Inr (a, Some ?q, ?m)" using c by (simp add: queue_dequeue_def deref_e_def)
  ultimately show ?thesis by (intro exI[of _ ?q] exI[of _ ?m]) simp
qed

lemma desliga_fd:
  assumes f: "fila_f m q (ps1 @ b1 # b2 # ps2) (as1 @ a1 # a2 # as2)" and l: "length ps1 = length as1"
    and c: "elems_f m b1 = Some c1" "elems_f m b2 = Some c2"
    and q': "q' = (if last_f q = b2 then q\<lparr>last_f := b1\<rparr> else q)"
    and m': "m' = m\<lparr>elems_f := (elems_f m)(b1 \<mapsto> c1\<lparr>next_e := next_e c2\<rparr>, b2 := None)\<rparr>"
  shows "fila_f m' q' (ps1 @ b1 # ps2) (as1 @ a1 # as2)" "next_e c1 = b2" "fd_e c1 = a1" "fd_e c2 = a2"
proof -
  have d: "distinct (ps1 @ b1 # b2 # ps2)" and ok: "mem_f_ok m" and la: "last_f q = last (ps1 @ b1 # b2 # ps2)"
    and fd: "\<forall>a \<in> set (as1 @ a1 # a2 # as2). fds m a \<noteq> None" and ch: "cadeia m (first_f q) (ps1 @ b1 # b2 # ps2) (as1 @ a1 # a2 # as2) NULL"
    using f by (simp_all add: fila_f_def)
  obtain y where y: "cadeia m (first_f q) ps1 as1 y" "cadeia m y (b1 # b2 # ps2) (a1 # a2 # as2) NULL"
    using ch cadeia_append[OF l] by blast
  then show e: "next_e c1 = b2" "fd_e c1 = a1" "fd_e c2 = a2" using c by auto
  have y2: "y = b1" "b1 \<noteq> NULL" "cadeia m (next_e c2) ps2 as2 NULL" using y(2) c by auto
  have "cadeia m' (first_f q) ps1 as1 b1" using y(1) y2(1) d by (subst cadeia_cong[of ps1 m' m]) (auto simp: m')
  moreover have "cadeia m' (next_e c2) ps2 as2 NULL" using y2(3) d by (subst cadeia_cong[of ps2 m' m]) (auto simp: m')
  then have "cadeia m' b1 (b1 # ps2) (a1 # as2) NULL" using y2(2) d e by (auto simp: m')
  ultimately have "cadeia m' (first_f q) (ps1 @ b1 # ps2) (as1 @ a1 # as2) NULL" using cadeia_append[OF l] by blast
  moreover have "last_f q' = last (ps1 @ b1 # ps2)" using la d by (cases ps2 rule: rev_cases) (auto simp: q')
  moreover have "mem_f_ok m'" using ok c by (auto simp: mem_f_ok_def m')
  moreover have "first_f q' = first_f q" by (simp add: q')
  ultimately show "fila_f m' q' (ps1 @ b1 # ps2) (as1 @ a1 # as2)" using d fd by (auto simp: fila_f_def m')
qed

lemma remove_fd_ok:
  assumes "fila_f m q (ps1 @ b1 # ps2) (as1 @ a1 # as2)" "length ps1 = length as1" "cadeia m b2 ps2 as2 NULL" "length ps2 < n"
  shows "as2 = xs @ a # ys \<Longrightarrow> \<forall>x \<in> set xs. \<not> tem_id m i x \<Longrightarrow> tem_id m i a \<Longrightarrow>
      \<exists>q' m' ps'. remove_fd n m q b1 b2 i = Inr (a, q', m') \<and> fila_f m' q' ps' (as1 @ a1 # xs @ ys) \<and> fds m' = fds m"
    and "\<forall>x \<in> set as2. \<not> tem_id m i x \<Longrightarrow> remove_fd n m q b1 b2 i = Inr (NULL, q, m)"
  using assms
proof (induction n arbitrary: ps1 b1 ps2 as1 a1 as2 b2 xs)
  case (Suc n)
  {
    case 1
    obtain ps2' where ps2: "ps2 = b2 # ps2'" using 1(6) unfolding 1(1) by (cases xs) (auto simp: cadeia_Cons)
    obtain c1 where c1: "elems_f m b1 = Some c1"
      using 1(4) cadeia_cells[of m "first_f q" "ps1 @ b1 # ps2" "as1 @ a1 # as2" NULL b1] by (auto simp: fila_f_def)
    show ?case
    proof (cases xs)
      case Nil
      then obtain c2 where c2: "elems_f m b2 = Some c2" "fd_e c2 = a" "b2 \<noteq> NULL" using 1(1,6) ps2 by auto
      obtain d where d: "fds m a = Some d" "fileId d = i" using 1(3) by (auto simp: tem_id_def)
      have "fila_f m q (ps1 @ b1 # b2 # ps2') (as1 @ a1 # a # ys)" using 1(1,4) ps2 Nil by simp
      note u = desliga_fd[OF this 1(5) c1 c2(1) refl refl]
      then show ?thesis using c1 c2 d Nil by (auto simp: deref_e_def deref_fd_def)
    next
      case (Cons x xs')
      then obtain c2 where c2: "elems_f m b2 = Some c2" "fd_e c2 = x" "b2 \<noteq> NULL" "cadeia m (next_e c2) ps2' (xs' @ a # ys) NULL"
        using 1(1,6) ps2 by auto
      have "fds m x \<noteq> None" using 1(1,4) Cons by (auto simp: fila_f_def)
      then obtain d where d: "fds m x = Some d" "fileId d \<noteq> i" using 1(2) Cons by (auto simp: tem_id_def)
      have "\<exists>q' m' ps'. remove_fd n m q b2 (next_e c2) i = Inr (a, q', m') \<and>
          fila_f m' q' ps' ((as1 @ [a1]) @ x # xs' @ ys) \<and> fds m' = fds m"
        by (rule Suc.IH(1)[of _ _ "ps1 @ [b1]" _ ps2']) (use 1 ps2 Cons c2 in auto)
      then show ?thesis using c2 d Cons by (simp add: deref_e_def deref_fd_def)
    qed
  next
    case 2
    show ?case
    proof (cases as2)
      case Nil
      then show ?thesis using 2(4) by (cases ps2) auto
    next
      case (Cons x as2')
      then obtain ps2' where ps2: "ps2 = b2 # ps2'" using 2(4) by (auto simp: cadeia_Cons)
      obtain c2 where c2: "elems_f m b2 = Some c2" "fd_e c2 = x" "b2 \<noteq> NULL" "cadeia m (next_e c2) ps2' as2' NULL"
        using 2(4) ps2 Cons by auto
      have "fds m x \<noteq> None" using 2(2) Cons by (auto simp: fila_f_def)
      then obtain d where d: "fds m x = Some d" "fileId d \<noteq> i" using 2(1) Cons by (auto simp: tem_id_def)
      have "remove_fd n m q b2 (next_e c2) i = Inr (NULL, q, m)"
        by (rule Suc.IH(2)[of as2' "ps1 @ [b1]" _ ps2' "as1 @ [a1]" x]) (use 2 ps2 Cons c2 in auto)
      then show ?thesis using c2 d by (simp add: deref_e_def deref_fd_def)
    qed
  }
qed simp_all

declare procura_fd.simps(2) [simp del] remove_fd.simps(2) [simp del]

lemma queue_node_remove_fila:
  assumes f: "fila_f m q ps as"
  shows "as = xs @ a # ys \<Longrightarrow> \<forall>x \<in> set xs. \<not> tem_id m i x \<Longrightarrow> tem_id m i a \<Longrightarrow>
      \<exists>q' m' ps'. queue_node_remove m (Some q) i = Inr (a, Some q', m') \<and> fila_f m' q' ps' (xs @ ys) \<and> fds m' = fds m"
    and "\<forall>x \<in> set as. \<not> tem_id m i x \<Longrightarrow> queue_node_remove m (Some q) i = Inr (NULL, Some q, m)"
proof -
  have as0: "queue_node_remove m (Some q) i = Inr (NULL, Some q, m)" if "as = []"
    using that fila_f_vazia[OF f] by (simp add: queue_node_remove_def)
  have run: "\<exists>p ps' c d. ps = p # ps' \<and> first_f q = p \<and> p \<noteq> NULL \<and> elems_f m p = Some c \<and> fd_e c = a1 \<and> cadeia m (next_e c) ps' as' NULL \<and>
      fds m a1 = Some d \<and> length ps' < Suc (prox_f m) \<and> queue_node_remove m (Some q) i = (if fileId d = i then queue_dequeue m (Some q)
        else bindr (remove_fd (Suc (prox_f m)) m q p (next_e c) i) (\<lambda>(a, q, m). Inr (a, Some q, m)))"
    if e: "as = a1 # as'" for a1 as'
  proof -
    obtain p ps' where ps: "ps = p # ps'" using f by (auto simp: fila_f_def e cadeia_Cons)
    then obtain c where "first_f q = p" "p \<noteq> NULL" "elems_f m p = Some c" "fd_e c = a1" "cadeia m (next_e c) ps' as' NULL"
      using f e by (auto simp: fila_f_def)
    moreover obtain d where "fds m a1 = Some d" using f e by (auto simp: fila_f_def)
    ultimately show ?thesis using ps fila_f_curta[OF f] by (auto simp: queue_node_remove_def deref_e_def deref_fd_def)
  qed
  show "\<exists>q' m' ps'. queue_node_remove m (Some q) i = Inr (a, Some q', m') \<and> fila_f m' q' ps' (xs @ ys) \<and> fds m' = fds m"
    if s: "as = xs @ a # ys" "\<forall>x \<in> set xs. \<not> tem_id m i x" "tem_id m i a"
  proof (cases xs)
    case Nil
    then obtain p ps' where r: "ps = p # ps'" "queue_node_remove m (Some q) i = queue_dequeue m (Some q)"
      using run[of a ys] s by (auto simp: tem_id_def)
    then show ?thesis using queue_dequeue_fila[of m q p ps' a ys] f s Nil by fastforce
  next
    case (Cons x xs')
    then have "as = x # xs' @ a # ys" using s(1) by simp
    from run[OF this] obtain p ps' and c :: elem_f and d where r: "ps = p # ps'" "cadeia m (next_e c) ps' (xs' @ a # ys) NULL" "length ps' < Suc (prox_f m)"
      "fds m x = Some d" "queue_node_remove m (Some q) i = (if fileId d = i then queue_dequeue m (Some q)
        else bindr (remove_fd (Suc (prox_f m)) m q p (next_e c) i) (\<lambda>(a, q, m). Inr (a, Some q, m)))"
      by (elim exE conjE) iprover
    have "fileId d \<noteq> i" using s(2) Cons r(4) by (auto simp: tem_id_def)
    moreover have "fila_f m q ([] @ p # ps') ([] @ x # xs' @ a # ys)" using f r(1) s(1) Cons by simp
    then have "\<exists>q' m' ps''. remove_fd (Suc (prox_f m)) m q p (next_e c) i = Inr (a, q', m') \<and> fila_f m' q' ps'' ([] @ x # xs' @ ys) \<and> fds m' = fds m"
      by (rule remove_fd_ok(1)[OF _ refl r(2,3) refl _ s(3)]) (use s(2) Cons in simp)
    ultimately show ?thesis using r(5) Cons by auto
  qed
  show "queue_node_remove m (Some q) i = Inr (NULL, Some q, m)" if nada: "\<forall>x \<in> set as. \<not> tem_id m i x"
  proof (cases as)
    case (Cons x as')
    from run[OF this] obtain p ps' and c :: elem_f and d where r: "ps = p # ps'" "cadeia m (next_e c) ps' as' NULL" "length ps' < Suc (prox_f m)"
      "fds m x = Some d" "queue_node_remove m (Some q) i = (if fileId d = i then queue_dequeue m (Some q)
        else bindr (remove_fd (Suc (prox_f m)) m q p (next_e c) i) (\<lambda>(a, q, m). Inr (a, Some q, m)))"
      by (elim exE conjE) iprover
    have "fileId d \<noteq> i" using nada Cons r(4) by (auto simp: tem_id_def)
    then show ?thesis using remove_fd_ok(2)[of m q "[]" p ps' "[]" x as' "next_e c" "Suc (prox_f m)" i] r f nada Cons by simp
  qed (rule as0)
qed

section \<open>The queue as a container of descriptors\<close>

text \<open>A new descriptor is allocated and put at the end, as my_open does.\<close>

definition guarda_fd :: "queue_f option \<times> mem_f \<Rightarrow> file_desc \<Rightarrow> (queue_f option \<times> mem_f) res" where
  "guarda_fd s d =
     (let m = snd s; p = prox_f m
      in queue_enqueue (m\<lparr>prox_f := p + 1, fds := (fds m)(p \<mapsto> d)\<rparr>) (fst s) p)"

definition tira_fd :: "queue_f option \<times> mem_f \<Rightarrow> (file_desc \<times> queue_f option \<times> mem_f) res" where
  "tira_fd s =
     bindr (queue_dequeue (snd s) (fst s)) (\<lambda>(a, q, m). bindr (deref_fd m a) (\<lambda>d. Inr (d, q, m)))"

definition tem_fds :: "queue_f option \<times> mem_f \<Rightarrow> file_desc list \<Rightarrow> bool" where
  "tem_fds s ds \<longleftrightarrow>
     (\<exists>q ps as. fst s = Some q \<and> fila_f (snd s) q ps as \<and> map (fds (snd s)) as = map Some ds)"

lemma fila_f_novo:
  assumes "fila_f m q ps as"
  shows "fila_f (m\<lparr>prox_f := prox_f m + 1, fds := (fds m)(prox_f m \<mapsto> d)\<rparr>) q ps as" "prox_f m \<notin> set as"
proof -
  have "mem_f_ok m" using assms by (simp add: fila_f_def)
  then have "fds m (prox_f m) \<noteq> None \<Longrightarrow> prox_f m < prox_f m" unfolding mem_f_ok_def by blast
  then show "prox_f m \<notin> set as" using assms by (auto simp: fila_f_def)
  show "fila_f (m\<lparr>prox_f := prox_f m + 1, fds := (fds m)(prox_f m \<mapsto> d)\<rparr>) q ps as"
    using assms cadeia_cong[of ps "m\<lparr>prox_f := prox_f m + 1, fds := (fds m)(prox_f m \<mapsto> d)\<rparr>" m]
    by (auto simp: fila_f_def mem_f_ok_def less_Suc_eq)
qed

interpretation abertos: fifo tem_fds guarda_fd "\<lambda>_ _. True" tira_fd
proof
  fix s ds and d :: file_desc
  assume "tem_fds s ds"
  then obtain q ps as where f: "fst s = Some q" "fila_f (snd s) q ps as" "map (fds (snd s)) as = map Some ds"
    by (auto simp: tem_fds_def)
  let ?p = "prox_f (snd s)"
  let ?m = "(snd s)\<lparr>prox_f := ?p + 1, fds := (fds (snd s))(?p \<mapsto> d)\<rparr>"
  obtain b q' m' where e: "queue_enqueue ?m (Some q) ?p = Inr (Some q', m')" "fila_f m' q' (ps @ [b]) (as @ [?p])" "fds m' = fds ?m"
    using queue_enqueue_fila[OF fila_f_novo(1)[OF f(2), of d], of ?p] by auto
  have "map (fds m') as = map (fds (snd s)) as" using fila_f_novo(2)[OF f(2)] by (auto simp: e(3))
  then have "tem_fds (Some q', m') (ds @ [d])" 
    unfolding tem_fds_def using e f(3) by (intro exI[of _ q'] exI[of _ "ps @ [b]"] exI[of _ "as @ [?p]"]) simp
  then show "\<exists>s'. guarda_fd s d = Inr s' \<and> tem_fds s' (ds @ [d])" using e(1) f(1) by (simp add: guarda_fd_def)
next
  fix s and d :: file_desc and ds
  assume "tem_fds s (d # ds)"
  then obtain q ps a as where f: "fst s = Some q" "fila_f (snd s) q ps (a # as)" "fds (snd s) a = Some d" "map (fds (snd s)) as = map Some ds"
    by (auto simp: tem_fds_def map_eq_Cons_conv)
  then obtain p ps' where "ps = p # ps'" using fila_f_vazia(2)[OF f(2)] by (cases ps) auto
  then obtain q' m' where r: "queue_dequeue (snd s) (Some q) = Inr (a, Some q', m')" "fila_f m' q' ps' as" "fds m' = fds (snd s)"
    using queue_dequeue_fila[of "snd s" q p ps' a as] f(2) by blast
  then have "tira_fd s = Inr (d, Some q', m')" using f by (simp add: tira_fd_def deref_fd_def)
  moreover have "tem_fds (Some q', m') ds" unfolding tem_fds_def using r f(4) by (intro exI[of _ q'] exI[of _ ps'] exI[of _ as]) simp
  ultimately show "\<exists>s'. tira_fd s = Inr (d, s') \<and> tem_fds s' ds" by blast
qed

end
