(* ===== verification/MyFs.thy ===== *)
theory MyFs
  imports SnfsApi FilaFich
begin

text \<open>
  The programming interface of the client, snfs_lib/myfs.c.  A \<open>cliente\<close> has the static
  variables of the file and the memory of the descriptors and of the queue of open files; every
  function returns what the C function returns, the client and the world behind the socket.
  The char arrays of the path functions are byte lists of the size of the array.
\<close>

section \<open>State\<close>

definition MAX_OPEN_FILES :: int where "MAX_OPEN_FILES = 10"
definition O_CREATE :: int where "O_CREATE = 1"
definition ROOT_FHANDLE :: snfs_fhandle_t where "ROOT_FHANDLE = 1"

record cliente =
  Open_files_list :: "queue_f option"
  Lib_initted :: bool
  Open_files :: int
  mem_c :: mem_f

text \<open>Before main: the static variables are zero.\<close>

definition cliente_inicial :: cliente where
  "cliente_inicial = \<lparr>Open_files_list = None, Lib_initted = False, Open_files = 0,
     mem_c = \<lparr>elems_f = Map.empty, fds = Map.empty, prox_f = 1\<rparr>\<rparr>"

text \<open>The flags say whether mkstemp and snfs_init succeed.\<close>

definition my_init_lib :: "cliente \<Rightarrow> bool \<Rightarrow> bool \<Rightarrow> int \<times> cliente" where
  "my_init_lib c mk ini =
     (if \<not> mk then (-1, c)
      else if \<not> ini then (-1, c)
      else (0, c\<lparr>Open_files_list := Some queue_create, Lib_initted := True\<rparr>))"

section \<open>Strings in arrays\<close>

definition cstr_a :: "byte list \<Rightarrow> nome res" where
  "cstr_a a = (if 0 \<in> set a then Inr (takeWhile (\<lambda>b. b \<noteq> 0) a) else Inl (OutOfRange (length a)))"

definition strcpy_a :: "byte list \<Rightarrow> nome \<Rightarrow> byte list res" where
  "strcpy_a a s = (if length s < length a then Inr (poe_bytes a 0 (s @ [0])) else Inl (OutOfRange (length a)))"

definition strncpy_a :: "byte list \<Rightarrow> nome \<Rightarrow> nat \<Rightarrow> byte list res" where
  "strncpy_a a s n = (if n \<le> length a then Inr (poe_bytes a 0 (take n (s @ zeros n))) else Inl (OutOfRange (length a)))"

fun duas_barras :: "nome \<Rightarrow> bool" where
  "duas_barras (a # b # s) \<longleftrightarrow> a = BARRA \<and> b = BARRA \<or> duas_barras (b # s)"
| "duas_barras s \<longleftrightarrow> False"

text \<open>
  myparse copies the path before it tests its size; the test for a slash at the end looks at the
  terminator.
\<close>

definition myparse :: "nome \<Rightarrow> int res" where
  "myparse caminho =
     bindr (strcpy_a (zeros MAX_PATH_NAME_SIZE) caminho) (\<lambda>line.
     bindr (cstr_a line) (\<lambda>s.
     if length s \<ge> MAX_PATH_NAME_SIZE \<or> length s < 1 then Inr (-1)
     else if 32 \<in> set s \<or> duas_barras s \<or> line ! 0 \<noteq> BARRA then Inr (-1)
     else if line ! length caminho = BARRA then Inr (-1)
     else if \<exists>t \<in> set (tokens s). length t > MAX_FILE_NAME_SIZE - 1 then Inr (-1)
     else Inr 0))"

text \<open>
  The splitting of a path that my_open, my_mkdir, my_remove and my_copy share: the number of
  names, the last name, the path before it.
\<close>

fun copia_tokens :: "byte list \<Rightarrow> nat \<Rightarrow> nome list \<Rightarrow> (nat \<times> byte list) res" where
  "copia_tokens a i [] = Inr (i, a)"
| "copia_tokens a i (t # ts) = bindr (strcpy_a a t) (\<lambda>a. copia_tokens a (i + 1) ts)"

definition nomes_de :: "(byte list \<Rightarrow> nat \<Rightarrow> nome list \<Rightarrow> (nat \<times> byte list) res) \<Rightarrow> nome \<Rightarrow> (nat \<times> nome \<times> nome) res" where
  "nomes_de copia name =
     bindr (strcpy_a (zeros MAX_PATH_NAME_SIZE) name) (\<lambda>full.
     bindr (copia (zeros MAX_FILE_NAME_SIZE) 0 (tokens name)) (\<lambda>(i, a).
     if i > 1 then
       bindr (cstr_a a) (\<lambda>f.
       if length name < length f + 1 then Inl (OutOfRange MAX_PATH_NAME_SIZE)
       else
         bindr (strncpy_a (zeros MAX_PATH_NAME_SIZE) name (length name - (length f + 1))) (\<lambda>d.
         bindr (cstr_a d) (\<lambda>d. Inr (i, f, d))))
     else if name = [] then Inl (OutOfRange MAX_FILE_NAME_SIZE)
     else
       bindr (strncpy_a a (drop 1 name) (length name - 1)) (\<lambda>a.
       bindr (cstr_a a) (\<lambda>f. Inr (i, f, name)))))"

definition separa :: "nome \<Rightarrow> (nat \<times> nome \<times> nome) res" where
  "separa name = nomes_de copia_tokens name"

text \<open>my_append copies every name with strncpy, without its terminator.\<close>

fun copia_tokens_n :: "byte list \<Rightarrow> nat \<Rightarrow> nome list \<Rightarrow> (nat \<times> byte list) res" where
  "copia_tokens_n a i [] = Inr (i, a)"
| "copia_tokens_n a i (t # ts) = bindr (strncpy_a a t (length t)) (\<lambda>a. copia_tokens_n a (i + 1) ts)"

definition separa_append :: "nome \<Rightarrow> (nat \<times> nome \<times> nome) res" where
  "separa_append name = nomes_de copia_tokens_n name"

section \<open>Opening and closing\<close>

definition abre :: "cliente \<Rightarrow> snfs_fhandle_t \<Rightarrow> 32 word \<Rightarrow> (int \<times> cliente) res" where
  "abre c fh fsize =
     (let m = mem_c c; p = prox_f m;
          m = m\<lparr>prox_f := p + 1, fds := (fds m)(p \<mapsto> \<lparr>fileId = fh, size_fd = fsize, read_offset = 0, write_offset = 0\<rparr>)\<rparr>
      in bindr (queue_enqueue m (Open_files_list c) p) (\<lambda>(q, m).
         Inr (sint fh, c\<lparr>Open_files_list := q, Open_files := Open_files c + 1, mem_c := m\<rparr>)))"

definition my_open :: "'w rede \<Rightarrow> cliente \<Rightarrow> 'w \<Rightarrow> nome \<Rightarrow> int \<Rightarrow> (int \<times> cliente \<times> 'w) res" where
  "my_open N c w name flags =
     (if \<not> Lib_initted c then Inr (-1, c, w)
      else if Open_files c \<ge> MAX_OPEN_FILES then Inr (-1, c, w)
      else
        bindr (myparse name) (\<lambda>p.
        if p \<noteq> 0 then Inr (-1, c, w)
        else
          bindr (separa name) (\<lambda>(i, newfilename, newdirname).
          bindr (snfs_lookup_c N w name) (\<lambda>(status, file_fh, s, w).
          let fsize = (case s of Some s \<Rightarrow> s | None \<Rightarrow> 0) in
          bindr (if status \<noteq> STAT_OK then
                   bindr (snfs_lookup_c N w newdirname) (\<lambda>(_, dir, s, w).
                   Inr (if i = 1 then ROOT_FHANDLE else dir, case s of Some s \<Rightarrow> s | None \<Rightarrow> fsize, w))
                 else Inr (0, fsize, w)) (\<lambda>(dir, fsize, w).
          if flags = O_CREATE \<and> status \<noteq> STAT_OK then
            bindr (snfs_create_c N w dir newfilename) (\<lambda>(st, fh, w).
            case fh of
              None \<Rightarrow> Inr (-1, c, w)
            | Some fh \<Rightarrow> bindr (abre c fh fsize) (\<lambda>(r, c). Inr (r, c, w)))
          else if status \<noteq> STAT_OK then Inr (-1, c, w)
          else bindr (abre c file_fh fsize) (\<lambda>(r, c). Inr (r, c, w)))))))"

definition my_close :: "cliente \<Rightarrow> 32 word \<Rightarrow> (int \<times> cliente) res" where
  "my_close c i =
     (if \<not> Lib_initted c then Inr (-1, c)
      else
        bindr (queue_node_remove (mem_c c) (Open_files_list c) i) (\<lambda>(a, q, m).
        let c = c\<lparr>Open_files_list := q, mem_c := m\<rparr> in
        if a = NULL then Inr (-1, c)
        else Inr (0, c\<lparr>mem_c := m\<lparr>fds := (fds m)(a := None)\<rparr>, Open_files := Open_files c - 1\<rparr>)))"

section \<open>Reading and writing\<close>

definition poe_fd :: "cliente \<Rightarrow> addr \<Rightarrow> file_desc \<Rightarrow> cliente" where
  "poe_fd c p d = c\<lparr>mem_c := (mem_c c)\<lparr>fds := (fds (mem_c c))(p \<mapsto> d)\<rparr>\<rparr>"

definition poe_buf :: "byte list \<Rightarrow> 32 word \<Rightarrow> byte list \<Rightarrow> byte list res" where
  "poe_buf b k bs = (if unat k + length bs \<le> length b then Inr (poe_bytes b (unat k) bs) else Inl (OutOfRange (length b)))"

text \<open>
  The loop of my_read; it does not end when the server returns no bytes, so it has fuel.
\<close>

fun le_ciclo :: "nat \<Rightarrow> 'w rede \<Rightarrow> 32 word \<Rightarrow> addr \<Rightarrow> cliente \<Rightarrow> 'w \<Rightarrow> byte list \<Rightarrow> 32 word \<Rightarrow> 32 word \<Rightarrow> 32 word
    \<Rightarrow> (int \<times> byte list \<times> cliente \<times> 'w) res" where
  "le_ciclo 0 N i p c w buffer rBytes numBytes counter = Inl NoFuel"
| "le_ciclo (Suc n) N i p c w buffer rBytes numBytes counter =
     (if numBytes = 0 then Inr (sint counter, buffer, c, w)
      else
        let rBytes = (if rBytes > numBytes then numBytes else rBytes) in
        bindr (deref_fd (mem_c c) p) (\<lambda>d.
        bindr (snfs_read_c N w i (read_offset d) rBytes) (\<lambda>(st, r, w).
        case r of
          None \<Rightarrow> Inr (-1, buffer, c, w)
        | Some (bs, nread) \<Rightarrow>
            bindr (poe_buf buffer counter bs) (\<lambda>buffer.
            le_ciclo n N i p (poe_fd c p (d\<lparr>read_offset := read_offset d + nread\<rparr>)) w buffer rBytes
              (numBytes - nread) (counter + nread)))))"

definition my_read :: "nat \<Rightarrow> 'w rede \<Rightarrow> cliente \<Rightarrow> 'w \<Rightarrow> 32 word \<Rightarrow> byte list \<Rightarrow> 32 word
    \<Rightarrow> (int \<times> byte list \<times> cliente \<times> 'w) res" where
  "my_read fuel N c w i buffer numBytes =
     (if \<not> Lib_initted c then Inr (-1, buffer, c, w)
      else
        bindr (queue_node_get (mem_c c) (Open_files_list c) i) (\<lambda>p.
        if p = NULL then Inr (-1, buffer, c, w)
        else
          bindr (deref_fd (mem_c c) p) (\<lambda>d.
          if read_offset d = size_fd d then Inr (0, buffer, c, w)
          else
            let numBytes = (if size_fd d < read_offset d + numBytes then size_fd d - read_offset d else numBytes);
                rBytes = (if unat numBytes > MAX_READ_DATA then of_nat MAX_READ_DATA else numBytes)
            in le_ciclo fuel N i p c w buffer rBytes numBytes 0)))"

text \<open>
  The loop of my_write takes at least one byte off \<open>numBytes\<close> in each round, so one more than
  \<open>numBytes\<close> rounds are enough.
\<close>

fun escreve_ciclo :: "nat \<Rightarrow> 'w rede \<Rightarrow> 32 word \<Rightarrow> addr \<Rightarrow> cliente \<Rightarrow> 'w \<Rightarrow> byte list \<Rightarrow> 32 word \<Rightarrow> 32 word \<Rightarrow> 32 word
    \<Rightarrow> (int \<times> cliente \<times> 'w) res" where
  "escreve_ciclo 0 N i p c w buffer wBytes numBytes counter = Inl NoFuel"
| "escreve_ciclo (Suc n) N i p c w buffer wBytes numBytes counter =
     (if numBytes = 0 then Inr (sint counter, c, w)
      else
        let wBytes = (if wBytes > numBytes then numBytes else wBytes) in
        bindr (deref_fd (mem_c c) p) (\<lambda>d.
        bindr (snfs_write_c N w i (write_offset d) wBytes (drop (unat counter) buffer)) (\<lambda>(st, s, w).
        case s of
          None \<Rightarrow> Inr (-1, c, w)
        | Some fsize \<Rightarrow>
            escreve_ciclo n N i p (poe_fd c p (d\<lparr>size_fd := fsize, write_offset := write_offset d + wBytes\<rparr>)) w buffer
              wBytes (numBytes - wBytes) (counter + wBytes))))"

definition my_write :: "'w rede \<Rightarrow> cliente \<Rightarrow> 'w \<Rightarrow> 32 word \<Rightarrow> byte list \<Rightarrow> 32 word \<Rightarrow> (int \<times> cliente \<times> 'w) res" where
  "my_write N c w i buffer numBytes =
     (if \<not> Lib_initted c then Inr (-1, c, w)
      else
        bindr (queue_node_get (mem_c c) (Open_files_list c) i) (\<lambda>p.
        if p = NULL then Inr (-1, c, w)
        else
          let wBytes = (if unat numBytes > MAX_WRITE_DATA then of_nat MAX_WRITE_DATA else numBytes)
          in escreve_ciclo (Suc (unat numBytes)) N i p c w buffer wBytes numBytes 0))"

end
