(* ===== verification/MyFsNomes.thy ===== *)
theory MyFsNomes
  imports MyFs
begin

text \<open>
  The functions of snfs_lib/myfs.c that work on paths: listing, making and removing
  directories, copying and appending files, and the maintenance calls.  The handle of the root
  directory is 1; it is used when the path has one name.
\<close>

section \<open>Directories\<close>

definition my_listdir :: "'w rede \<Rightarrow> cliente \<Rightarrow> 'w \<Rightarrow> nome \<Rightarrow> (int \<times> (byte list \<times> int) option \<times> 'w) res" where
  "my_listdir N c w caminho =
     (if \<not> Lib_initted c then Inr (-1, None, w)
      else
        bindr (myparse caminho) (\<lambda>p.
        if p \<noteq> 0 then Inr (-1, None, w)
        else
          bindr (if length caminho = 1 \<and> caminho ! 0 = BARRA then Inr (Some ROOT_FHANDLE, w)
                 else
                   bindr (snfs_lookup_c N w caminho) (\<lambda>(st, dir, s, w).
                   Inr (if st \<noteq> STAT_OK then None else Some dir, w))) (\<lambda>(dir, w).
          case dir of
            None \<Rightarrow> Inr (-1, None, w)
          | Some dir \<Rightarrow>
              bindr (snfs_readdir_c N w dir (of_nat MAX_READDIR_ENTRIES) MAX_READDIR_ENTRIES) (\<lambda>(st, l, w).
              case l of
                None \<Rightarrow> Inr (-1, None, w)
              | Some l \<Rightarrow>
                  let fnames = concat (map (\<lambda>e. name_d e @ [0]) l) in
                  if length fnames > (MAX_FILE_NAME_SIZE + 1) * length l then Inl (OutOfRange ((MAX_FILE_NAME_SIZE + 1) * length l))
                  else Inr (0, Some (fnames, int (length l)), w)))))"

text \<open>The directory of a path: the root when the path has one name, or the one the server finds.\<close>

definition directorio :: "'w rede \<Rightarrow> 'w \<Rightarrow> nat \<Rightarrow> nome \<Rightarrow> (snfs_fhandle_t option \<times> 'w) res" where
  "directorio N w i dirname =
     (if i = 1 then Inr (Some ROOT_FHANDLE, w)
      else bindr (snfs_lookup_c N w dirname) (\<lambda>(st, dir, s, w). Inr (if st \<noteq> STAT_OK then None else Some dir, w)))"

definition my_mkdir :: "'w rede \<Rightarrow> cliente \<Rightarrow> 'w \<Rightarrow> nome \<Rightarrow> (int \<times> 'w) res" where
  "my_mkdir N c w dirname =
     (if \<not> Lib_initted c then Inr (-1, w)
      else
        bindr (myparse dirname) (\<lambda>p.
        if p \<noteq> 0 then Inr (-1, w)
        else
          bindr (snfs_lookup_c N w dirname) (\<lambda>(st, dir, s, w).
          if st = STAT_OK then Inr (-1, w)
          else
            bindr (separa dirname) (\<lambda>(i, newfilename, newdirname).
            bindr (directorio N w i newdirname) (\<lambda>(dir, w).
            case dir of
              None \<Rightarrow> Inr (-1, w)
            | Some dir \<Rightarrow>
                bindr (snfs_mkdir_c N w dir newfilename) (\<lambda>(st, newdir, w).
                Inr (if st \<noteq> STAT_OK then -1 else 0, w)))))))"

definition my_remove :: "'w rede \<Rightarrow> cliente \<Rightarrow> 'w \<Rightarrow> nome \<Rightarrow> (int \<times> 'w) res" where
  "my_remove N c w name =
     (if \<not> Lib_initted c then Inr (0, w)
      else
        bindr (myparse name) (\<lambda>p.
        if p \<noteq> 0 then Inr (0, w)
        else
          bindr (snfs_lookup_c N w name) (\<lambda>(st, file_fh, s, w).
          if st \<noteq> STAT_OK then Inr (0, w)
          else
            bindr (separa name) (\<lambda>(i, newfilename, newdirname).
            bindr (directorio N w i newdirname) (\<lambda>(dir, w).
            case dir of
              None \<Rightarrow> Inr (-1, w)
            | Some dir \<Rightarrow>
                bindr (snfs_remove_c N w dir newfilename) (\<lambda>(st, novo, w).
                Inr (if st \<noteq> STAT_OK then 0 else 1, w)))))))"

section \<open>Copying and appending\<close>

text \<open>
  The paths are refused only when both are malformed.  The file the copy goes to is created
  when it does not exist.
\<close>

definition my_copy :: "'w rede \<Rightarrow> cliente \<Rightarrow> 'w \<Rightarrow> nome \<Rightarrow> nome \<Rightarrow> (int \<times> 'w) res" where
  "my_copy N c w nameOrigem nameDestino =
     (if \<not> Lib_initted c then Inr (0, w)
      else
        bindr (myparse nameOrigem) (\<lambda>p1.
        bindr (if p1 \<noteq> 0 then myparse nameDestino else Inr 0) (\<lambda>p2.
        if p1 \<noteq> 0 \<and> p2 \<noteq> 0 then Inr (0, w)
        else
          bindr (snfs_lookup_c N w nameOrigem) (\<lambda>(st, fileOrigem, s, w).
          if st \<noteq> STAT_OK then Inr (0, w)
          else
            bindr (separa nameOrigem) (\<lambda>(i, filenameOrigem, dirnameOrigem).
            bindr (directorio N w i dirnameOrigem) (\<lambda>(dirOrigem, w).
            case dirOrigem of
              None \<Rightarrow> Inr (0, w)
            | Some dirOrigem \<Rightarrow>
                bindr (separa nameDestino) (\<lambda>(i, filenameDestino, dirnameDestino).
                bindr (directorio N w i dirnameDestino) (\<lambda>(dirDestino, w).
                case dirDestino of
                  None \<Rightarrow> Inr (0, w)
                | Some dirDestino \<Rightarrow>
                    bindr (snfs_lookup_c N w nameDestino) (\<lambda>(st, fileDestino, s, w).
                    bindr (if st \<noteq> STAT_OK then
                             bindr (snfs_create_c N w dirDestino filenameDestino) (\<lambda>(st, f, w). Inr (st = STAT_OK, w))
                           else Inr (True, w)) (\<lambda>(criado, w).
                    if \<not> criado then Inr (0, w)
                    else
                      bindr (snfs_copy_c N w dirOrigem filenameOrigem dirDestino filenameDestino) (\<lambda>(st, w).
                      Inr (if st = STAT_OK then 1 else 0, w))))))))))))"

definition my_append :: "'w rede \<Rightarrow> cliente \<Rightarrow> 'w \<Rightarrow> nome \<Rightarrow> nome \<Rightarrow> (int \<times> 'w) res" where
  "my_append N c w nameOrigem nameDestino =
     (if \<not> Lib_initted c then Inr (-1, w)
      else
        bindr (myparse nameOrigem) (\<lambda>p1.
        bindr (if p1 \<noteq> 0 then myparse nameDestino else Inr 0) (\<lambda>p2.
        if p1 \<noteq> 0 \<and> p2 \<noteq> 0 then Inr (-1, w)
        else
          bindr (snfs_lookup_c N w nameOrigem) (\<lambda>(st, fileOrigem, s, w).
          if st \<noteq> STAT_OK then Inr (-1, w)
          else
            bindr (separa_append nameOrigem) (\<lambda>(i, filenameOrigem, dirnameOrigem).
            bindr (directorio N w i dirnameOrigem) (\<lambda>(dirOrigem, w).
            case dirOrigem of
              None \<Rightarrow> Inr (-1, w)
            | Some dirOrigem \<Rightarrow>
                bindr (snfs_lookup_c N w nameDestino) (\<lambda>(st, fileDestino, s, w).
                if st \<noteq> STAT_OK then Inr (-1, w)
                else
                  bindr (separa_append nameDestino) (\<lambda>(i, filenameDestino, dirnameDestino).
                  bindr (directorio N w i dirnameDestino) (\<lambda>(dirDestino, w).
                  case dirDestino of
                    None \<Rightarrow> Inr (-1, w)
                  | Some dirDestino \<Rightarrow>
                      bindr (snfs_append_c N w dirOrigem filenameOrigem dirDestino filenameDestino) (\<lambda>(st, w).
                      Inr (if st = STAT_OK then 1 else 0, w)))))))))))"

section \<open>Maintenance\<close>

definition my_defrag :: "'w rede \<Rightarrow> 'w \<Rightarrow> (int \<times> 'w) res" where
  "my_defrag N w =
     bindr (snfs_defrag_c N w) (\<lambda>(stat, w).
     Inr (if stat = STAT_OK then 1 else if stat = STAT_BUSY then 0 else -1, w))"

definition my_diskusage :: "'w rede \<Rightarrow> 'w \<Rightarrow> (int \<times> 'w) res" where
  "my_diskusage N w = bindr (snfs_diskusage_c N w) (\<lambda>(st, w). Inr (0, w))"

definition my_dumpcache :: "'w rede \<Rightarrow> 'w \<Rightarrow> (int \<times> 'w) res" where
  "my_dumpcache N w = bindr (snfs_dumpcache_c N w) (\<lambda>(st, w). Inr (0, w))"

end
