(* ===== verification/ClienteLemas.thy ===== *)
theory ClienteLemas
  imports MyFsNomes
begin

text \<open>
  What the client library gives: \<open>ficheiro_remoto\<close> states what it needs of the server about one
  file, reads that return a part of the content and writes that put bytes into it; my_read and
  my_write are proved inside it to do the same for any number of bytes, and the file system
  behind the server is shown to satisfy it.
\<close>

section \<open>Open files\<close>

text \<open>Descriptor \<open>d\<close> at \<open>p\<close> is the first open file with identifier \<open>i\<close>.\<close>

definition aberto :: "cliente \<Rightarrow> 32 word \<Rightarrow> addr \<Rightarrow> file_desc \<Rightarrow> bool" where
  "aberto c i p d \<longleftrightarrow>
     Lib_initted c \<and> fds (mem_c c) p = Some d \<and>
     (\<exists>q ps as. Open_files_list c = Some q \<and> fila_f (mem_c c) q ps as \<and> find (tem_id (mem_c c) i) as = Some p)"

lemma poe_fd_nada: "fds (mem_c c) p = Some d \<Longrightarrow> poe_fd c p d = c"
  by (simp add: poe_fd_def fun_upd_idem)

lemma poe_fd_campos [simp]:
  "fds (mem_c (poe_fd c p d)) p = Some d" "poe_fd (poe_fd c p d) p e = poe_fd c p e"
  by (simp_all add: poe_fd_def)

lemma fila_f_fds:
  assumes "fila_f m q ps as" "fds m p \<noteq> None"
  shows "fila_f (m\<lparr>fds := (fds m)(p \<mapsto> d)\<rparr>) q ps as"
  using assms cadeia_cong[of ps "m\<lparr>fds := (fds m)(p \<mapsto> d)\<rparr>" m]
  by (auto simp: fila_f_def mem_f_ok_def)

lemma aberto_poe:
  assumes "aberto c i p d" "fileId e = fileId d"
  shows "aberto (poe_fd c p e) i p e"
proof -
  obtain q ps as where q: "Open_files_list c = Some q" "fila_f (mem_c c) q ps as" "find (tem_id (mem_c c) i) as = Some p"
    and d: "Lib_initted c" "fds (mem_c c) p = Some d"
    using assms(1) by (auto simp: aberto_def)
  have "tem_id (mem_c (poe_fd c p e)) i = tem_id (mem_c c) i"
    using d(2) assms(2) by (intro ext) (auto simp: tem_id_def poe_fd_def)
  then show ?thesis using q d fila_f_fds[OF q(2), of p e] by (auto simp: aberto_def poe_fd_def)
qed

lemma aberto_get:
  assumes "aberto c i p d"
  shows "queue_node_get (mem_c c) (Open_files_list c) i = Inr p" "p \<noteq> NULL"
  using assms queue_node_get_fila[of "mem_c c" _ _ _ i] by (auto simp: aberto_def fila_f_def mem_f_ok_def)

section \<open>Buffers\<close>

lemma poe_bytes_junta:
  "k + length a + length b \<le> length p \<Longrightarrow> poe_bytes (poe_bytes p k a) (k + length a) b = poe_bytes p k (a @ b)"
  by (simp add: poe_bytes_def ac_simps)

lemma poe_bytes_vazio [simp]: "k \<le> length p \<Longrightarrow> poe_bytes p k [] = p"
  by (simp add: poe_bytes_def)

lemma emenda_junta:
  "k \<le> length c \<Longrightarrow> emenda (emenda c k a) (k + length a) b = emenda c k (a @ b)"
  by (simp add: emenda_def min_def ac_simps)

lemma emenda_vazio [simp]: "k \<le> length c \<Longrightarrow> emenda c k [] = c"
  by (simp add: emenda_def)

section \<open>What the client needs of the server\<close>

locale leitor_remoto =
  fixes N :: "'w rede" and fh :: "32 word" and vale :: "'w \<Rightarrow> bool" and cont :: "'w \<Rightarrow> byte list" and cap :: nat
  assumes cap_ok: "cap < 2 ^ 31"
    and tam: "vale w \<Longrightarrow> length (cont w) \<le> cap"
    and le: "vale w \<Longrightarrow> unat cnt \<le> MAX_READ_DATA \<Longrightarrow>
      \<exists>w'. snfs_read_c N w fh off cnt =
          Inr (STAT_OK, Some (take (unat cnt) (take (unat cnt) (drop (unat off) (cont w)) @ zeros MAX_READ_DATA),
            of_nat (length (take (unat cnt) (drop (unat off) (cont w))))), w') \<and>
        vale w' \<and> cont w' = cont w"
begin

lemma soma: "unat (a :: 32 word) + unat b < 2 ^ 32 \<Longrightarrow> unat (a + b) = unat a + unat b"
  by (subst unat_add_lem[symmetric]) simp

lemma le_ciclo_ok:
  assumes "vale w" "fds (mem_c c) p = Some d" "unat (read_offset d) + unat numBytes \<le> length (cont w)"
    "unat counter + unat numBytes \<le> length buffer" "unat counter + unat numBytes < 2 ^ 31" "unat numBytes < fuel"
    "0 < unat rBytes \<or> numBytes = 0" "unat rBytes \<le> MAX_READ_DATA"
  shows "\<exists>w'. le_ciclo fuel N fh p c w buffer rBytes numBytes counter =
      Inr (int (unat counter + unat numBytes),
        poe_bytes buffer (unat counter) (take (unat numBytes) (drop (unat (read_offset d)) (cont w))),
        poe_fd c p (d\<lparr>read_offset := read_offset d + numBytes\<rparr>), w') \<and> vale w' \<and> cont w' = cont w"
  using assms
proof (induction fuel arbitrary: c d w buffer rBytes numBytes counter)
  case (Suc fuel)
  note P = Suc.prems
  show ?case
  proof (cases "numBytes = 0")
    case True
    have "d\<lparr>read_offset := read_offset d + numBytes\<rparr> = d" using True by simp
    moreover have "sint counter = int (unat counter)" using P(5) by (intro sint_pequeno) simp
    ultimately show ?thesis using True P(1,2,4) by (simp add: poe_fd_nada)
  next
    case False
    define r where "r = (if rBytes > numBytes then numBytes else rBytes)"
    have r: "unat r \<le> unat numBytes" "unat r \<le> MAX_READ_DATA" "0 < unat r"
      using P(7,8) False by (auto simp: r_def word_less_nat_alt unat_gt_0)
    define bs where "bs = take (unat r) (drop (unat (read_offset d)) (cont w))"
    have lb: "length bs = unat r" using P(3) r(1) by (simp add: bs_def)
    obtain w1 where w1: "snfs_read_c N w fh (read_offset d) r = Inr (STAT_OK, Some (bs, r), w1)" "vale w1" "cont w1 = cont w"
      using le[OF P(1) r(2), of "read_offset d"] unfolding bs_def[symmetric] by (auto simp: lb)
    let ?b1 = "poe_bytes buffer (unat counter) bs" and ?d1 = "d\<lparr>read_offset := read_offset d + r\<rparr>"
    have b1: "poe_buf buffer counter bs = Inr ?b1" using P(4) lb r(1) by (simp add: poe_buf_def)
    have step: "le_ciclo (Suc fuel) N fh p c w buffer rBytes numBytes counter =
        le_ciclo fuel N fh p (poe_fd c p ?d1) w1 ?b1 r (numBytes - r) (counter + r)"
      using False P(2) w1(1) b1 by (simp add: r_def[symmetric] deref_fd_def)
    have un: "unat (numBytes - r) = unat numBytes - unat r" using r(1) by (simp add: unat_sub word_le_nat_alt)
    have uc: "unat (counter + r) = unat counter + unat r" using P(5) r(1) by (intro soma) simp
    have lw: "length (cont w) < 2 ^ 31" using tam[OF P(1)] cap_ok by simp
    have uo: "unat (read_offset d + r) = unat (read_offset d) + unat r" using P(3) lw r(1) by (intro soma) simp
    have "\<exists>w'. le_ciclo fuel N fh p (poe_fd c p ?d1) w1 ?b1 r (numBytes - r) (counter + r) =
      Inr (int (unat (counter + r) + unat (numBytes - r)),
        poe_bytes ?b1 (unat (counter + r)) (take (unat (numBytes - r)) (drop (unat (read_offset ?d1)) (cont w1))),
        poe_fd (poe_fd c p ?d1) p (?d1\<lparr>read_offset := read_offset ?d1 + (numBytes - r)\<rparr>), w') \<and> vale w' \<and> cont w' = cont w1"
      by (rule Suc.IH) (use P w1 un uc uo r lb in \<open>auto simp: poe_bytes_length\<close>)
    then obtain w2 where w2: "le_ciclo fuel N fh p (poe_fd c p ?d1) w1 ?b1 r (numBytes - r) (counter + r) =
      Inr (int (unat (counter + r) + unat (numBytes - r)),
        poe_bytes ?b1 (unat (counter + r)) (take (unat (numBytes - r)) (drop (unat (read_offset ?d1)) (cont w1))),
        poe_fd (poe_fd c p ?d1) p (?d1\<lparr>read_offset := read_offset ?d1 + (numBytes - r)\<rparr>), w2)" "vale w2" "cont w2 = cont w1"
      by (elim exE conjE)
    have e1: "unat (counter + r) + unat (numBytes - r) = unat counter + unat numBytes" using un uc r(1) by simp
    have e2: "poe_bytes ?b1 (unat (counter + r)) (take (unat (numBytes - r)) (drop (unat (read_offset ?d1)) (cont w1))) =
        poe_bytes buffer (unat counter) (take (unat numBytes) (drop (unat (read_offset d)) (cont w)))"
    proof -
      let ?x = "take (unat numBytes - unat r) (drop (unat (read_offset d) + unat r) (cont w))"
      have "poe_bytes ?b1 (unat counter + length bs) ?x = poe_bytes buffer (unat counter) (bs @ ?x)"
        by (rule poe_bytes_junta) (use P(3,4) r(1) lb in auto)
      moreover have "bs @ ?x = take (unat numBytes) (drop (unat (read_offset d)) (cont w))"
        using take_add[of "unat r" "unat numBytes - unat r" "drop (unat (read_offset d)) (cont w)"] r(1)
        by (simp add: bs_def add.commute)
      ultimately show ?thesis by (simp add: un uc uo lb w1(3))
    qed
    have e3: "poe_fd (poe_fd c p ?d1) p (?d1\<lparr>read_offset := read_offset ?d1 + (numBytes - r)\<rparr>) =
        poe_fd c p (d\<lparr>read_offset := read_offset d + numBytes\<rparr>)" by simp
    show ?thesis using w2(2,3) w1(3) unfolding step w2(1) e1 e2 e3 by (intro exI[of _ w2]) simp
  qed
qed simp

lemma my_read_ok:
  assumes a: "aberto c fh p d" and v: "vale w" and s: "size_fd d = of_nat (length (cont w))"
    and o: "unat (read_offset d) \<le> length (cont w)" and n: "unat (read_offset d) + unat numBytes < 2 ^ 32"
    and m: "m = min (unat numBytes) (length (cont w) - unat (read_offset d))" "m \<le> length buffer" "m < fuel"
  shows "\<exists>w'. my_read fuel N c w fh buffer numBytes =
      Inr (int m, poe_bytes buffer 0 (take m (drop (unat (read_offset d)) (cont w))),
        poe_fd c p (d\<lparr>read_offset := of_nat (unat (read_offset d) + m)\<rparr>), w') \<and> vale w' \<and> cont w' = cont w"
proof -
  have fd: "fds (mem_c c) p = Some d" "Lib_initted c" using a by (simp_all add: aberto_def)
  have lw: "length (cont w) < 2 ^ 31" using tam[OF v] cap_ok by simp
  have us: "unat (size_fd d) = length (cont w)" using lw by (simp add: s unsigned_of_nat take_bit_nat_eq_self)
  note g = aberto_get[OF a]
  show ?thesis
  proof (cases "read_offset d = size_fd d")
    case True
    then have "m = 0" using us m(1) by simp
    then show ?thesis using True[symmetric] g fd v poe_fd_nada[OF fd(1)] by (simp add: my_read_def deref_fd_def)
  next
    case False
    then have lt: "unat (read_offset d) < length (cont w)" using us o by (metis le_neq_implies_less word_unat_eq_iff)
    define nb where "nb = (if size_fd d < read_offset d + numBytes then size_fd d - read_offset d else numBytes)"
    have nb: "unat nb = m"
      using soma[OF n] us o m(1) by (auto simp: nb_def word_less_nat_alt unat_sub word_le_nat_alt min_def)
    define rb where "rb = (if unat nb > MAX_READ_DATA then of_nat MAX_READ_DATA else nb)"
    have rb: "0 < unat rb \<or> nb = 0" "unat rb \<le> MAX_READ_DATA"
      by (auto simp: rb_def MAX_READ_DATA_def unat_gt_0)
    have "my_read fuel N c w fh buffer numBytes = le_ciclo fuel N fh p c w buffer rb nb 0"
      using g fd False by (simp add: my_read_def deref_fd_def nb_def[symmetric] rb_def[symmetric] Let_def)
    moreover have "\<exists>w'. le_ciclo fuel N fh p c w buffer rb nb 0 =
      Inr (int (unat (0 :: 32 word) + unat nb),
        poe_bytes buffer (unat (0 :: 32 word)) (take (unat nb) (drop (unat (read_offset d)) (cont w))),
        poe_fd c p (d\<lparr>read_offset := read_offset d + nb\<rparr>), w') \<and> vale w' \<and> cont w' = cont w"
    proof (rule le_ciclo_ok[OF v fd(1)])
      show "unat (read_offset d) + unat nb \<le> length (cont w)" using nb m(1) o by simp
      then show "unat (0 :: 32 word) + unat nb < 2 ^ 31" using lw by simp
    qed (use nb m rb in auto)
    moreover have "read_offset d + nb = of_nat (unat (read_offset d) + m)" using nb by (simp flip: nb)
    ultimately show ?thesis using nb by simp
  qed
qed

text \<open>A descriptor that says there is more than the server has: my_read asks for ever.\<close>

lemma le_ciclo_sem_fim:
  "vale w \<Longrightarrow> fds (mem_c c) p = Some d \<Longrightarrow> length (cont w) \<le> unat (read_offset d) \<Longrightarrow> numBytes \<noteq> 0 \<Longrightarrow>
   unat counter + unat rBytes \<le> length buffer \<Longrightarrow> unat rBytes \<le> MAX_READ_DATA \<Longrightarrow>
   le_ciclo fuel N fh p c w buffer rBytes numBytes counter = Inl NoFuel"
proof (induction fuel arbitrary: c d w buffer rBytes)
  case (Suc fuel)
  note P = Suc.prems
  define r where "r = (if rBytes > numBytes then numBytes else rBytes)"
  have r: "unat r \<le> unat rBytes" by (auto simp: r_def word_less_nat_alt)
  then have r2: "unat r \<le> MAX_READ_DATA" using P(6) by simp
  have d: "drop (unat (read_offset d)) (cont w) = []" using P(3) by simp
  obtain w1 where w1: "snfs_read_c N w fh (read_offset d) r = Inr (STAT_OK, Some (take (unat r) (zeros MAX_READ_DATA), 0), w1)"
    "vale w1" "cont w1 = cont w"
    using le[OF P(1) r2, of "read_offset d"] unfolding d by auto
  have lz: "length (take (unat r) (zeros MAX_READ_DATA)) = unat r" using r2 by simp
  let ?b = "poe_bytes buffer (unat counter) (take (unat r) (zeros MAX_READ_DATA))"
  have "poe_buf buffer counter (take (unat r) (zeros MAX_READ_DATA)) = Inr ?b"
    using lz r P(5) by (simp add: poe_buf_def)
  then have "le_ciclo (Suc fuel) N fh p c w buffer rBytes numBytes counter =
      le_ciclo fuel N fh p (poe_fd c p d) w1 ?b r numBytes counter"
    using P(2,4) w1(1) by (simp add: r_def[symmetric] deref_fd_def)
  moreover have "length ?b = length buffer" using lz r P(5) by (simp add: poe_bytes_length)
  ultimately show ?case using Suc.IH[of w1 "poe_fd c p d" d r ?b] P w1 r by simp
qed simp

lemma my_read_sem_fim:
  assumes a: "aberto c fh p d" and v: "vale w" and o: "length (cont w) \<le> unat (read_offset d)" "read_offset d < size_fd d"
    and n: "numBytes \<noteq> 0" "unat numBytes \<le> length buffer" "unat (read_offset d) + unat numBytes < 2 ^ 32"
  shows "my_read fuel N c w fh buffer numBytes = Inl NoFuel"
proof -
  have fd: "fds (mem_c c) p = Some d" "Lib_initted c" using a by (simp_all add: aberto_def)
  note g = aberto_get[OF a]
  define nb where "nb = (if size_fd d < read_offset d + numBytes then size_fd d - read_offset d else numBytes)"
  have nb: "nb \<noteq> 0" "unat nb \<le> length buffer"
    using o(2) n soma[OF n(3)] by (auto simp: nb_def word_less_nat_alt unat_sub word_le_nat_alt)
  define rb where "rb = (if unat nb > MAX_READ_DATA then of_nat MAX_READ_DATA else nb)"
  have rb: "unat rb \<le> MAX_READ_DATA" "unat rb \<le> unat nb" by (auto simp: rb_def MAX_READ_DATA_def)
  have "my_read fuel N c w fh buffer numBytes = le_ciclo fuel N fh p c w buffer rb nb 0"
    using g fd o(2) by (auto simp: my_read_def deref_fd_def nb_def[symmetric] rb_def[symmetric] Let_def)
  then show ?thesis using le_ciclo_sem_fim[OF v fd(1) o(1) nb(1), of 0 rb buffer fuel] rb nb(2) by simp
qed

end

text \<open>Writing as well.\<close>

locale ficheiro_remoto = leitor_remoto N fh vale cont cap
  for N :: "'w rede" and fh :: "32 word" and vale :: "'w \<Rightarrow> bool" and cont :: "'w \<Rightarrow> byte list" and cap :: nat +
  assumes escreve: "vale w \<Longrightarrow> unat cnt \<le> MAX_WRITE_DATA \<Longrightarrow> unat cnt \<le> length b \<Longrightarrow> unat off \<le> length (cont w) \<Longrightarrow>
      unat off + unat cnt \<le> cap \<Longrightarrow>
      \<exists>w'. snfs_write_c N w fh off cnt b = Inr (STAT_OK, Some (of_nat (length (cont w'))), w') \<and>
        vale w' \<and> cont w' = emenda (cont w) (unat off) (take (unat cnt) b)"
begin

lemma escreve_ciclo_ok:
  assumes "vale w" "fds (mem_c c) p = Some d" "unat (write_offset d) \<le> length (cont w)"
    "unat (write_offset d) + unat numBytes \<le> cap" "unat counter + unat numBytes \<le> length buffer"
    "unat counter + unat numBytes < 2 ^ 31" "unat numBytes < fuel" "0 < unat wBytes \<or> numBytes = 0" "unat wBytes \<le> MAX_WRITE_DATA"
    "size_fd d = of_nat (length (cont w))"
  shows "\<exists>w'. escreve_ciclo fuel N fh p c w buffer wBytes numBytes counter =
      Inr (int (unat counter + unat numBytes),
        poe_fd c p (d\<lparr>size_fd := of_nat (length (cont w')), write_offset := write_offset d + numBytes\<rparr>), w') \<and> vale w' \<and>
      cont w' = emenda (cont w) (unat (write_offset d)) (take (unat numBytes) (drop (unat counter) buffer))"
  using assms
proof (induction fuel arbitrary: c d w wBytes numBytes counter)
  case (Suc fuel)
  note P = Suc.prems
  show ?case
  proof (cases "numBytes = 0")
    case True
    have "d\<lparr>size_fd := of_nat (length (cont w)), write_offset := write_offset d + numBytes\<rparr> = d"
      unfolding P(10)[symmetric] using True by simp
    moreover have "sint counter = int (unat counter)" using P(6) by (intro sint_pequeno) simp
    ultimately show ?thesis using True P(1,2,3) by (simp add: poe_fd_nada)
  next
    case False
    define r where "r = (if wBytes > numBytes then numBytes else wBytes)"
    have r: "unat r \<le> unat numBytes" "unat r \<le> MAX_WRITE_DATA" "0 < unat r"
      using P(8,9) False by (auto simp: r_def word_less_nat_alt unat_gt_0)
    define bs where "bs = take (unat r) (drop (unat counter) buffer)"
    have lb: "length bs = unat r" using P(5) r(1) by (simp add: bs_def)
    have lr: "unat r \<le> length (drop (unat counter) buffer)" "unat (write_offset d) + unat r \<le> cap" using P(4,5) r(1) by simp_all
    obtain w1 where w1: "snfs_write_c N w fh (write_offset d) r (drop (unat counter) buffer) = Inr (STAT_OK, Some (of_nat (length (cont w1))), w1)"
      "vale w1" "cont w1 = emenda (cont w) (unat (write_offset d)) bs"
      using escreve[OF P(1) r(2) lr(1) P(3) lr(2)] unfolding bs_def[symmetric] by (elim exE conjE)
    let ?d1 = "d\<lparr>size_fd := of_nat (length (cont w1)), write_offset := write_offset d + r\<rparr>"
    have step: "escreve_ciclo (Suc fuel) N fh p c w buffer wBytes numBytes counter =
        escreve_ciclo fuel N fh p (poe_fd c p ?d1) w1 buffer r (numBytes - r) (counter + r)"
      using False P(2) w1(1) by (simp add: r_def[symmetric] deref_fd_def)
    have un: "unat (numBytes - r) = unat numBytes - unat r" using r(1) by (simp add: unat_sub word_le_nat_alt)
    have uc: "unat (counter + r) = unat counter + unat r" using P(6) r(1) by (intro soma) simp
    have uo: "unat (write_offset d + r) = unat (write_offset d) + unat r" using lr(2) cap_ok by (intro soma) simp
    have l1: "unat (write_offset d) + unat r \<le> length (cont w1)" using P(3) lb by (simp add: w1(3) emenda_length)
    have "\<exists>w'. escreve_ciclo fuel N fh p (poe_fd c p ?d1) w1 buffer r (numBytes - r) (counter + r) =
      Inr (int (unat (counter + r) + unat (numBytes - r)),
        poe_fd (poe_fd c p ?d1) p (?d1\<lparr>size_fd := of_nat (length (cont w')), write_offset := write_offset ?d1 + (numBytes - r)\<rparr>), w') \<and> vale w' \<and>
      cont w' = emenda (cont w1) (unat (write_offset ?d1)) (take (unat (numBytes - r)) (drop (unat (counter + r)) buffer))"
      by (rule Suc.IH) (use P(4-7) w1(2) un uc uo r l1 in auto)
    then obtain w2 where w2: "escreve_ciclo fuel N fh p (poe_fd c p ?d1) w1 buffer r (numBytes - r) (counter + r) =
      Inr (int (unat (counter + r) + unat (numBytes - r)),
        poe_fd (poe_fd c p ?d1) p (?d1\<lparr>size_fd := of_nat (length (cont w2)), write_offset := write_offset ?d1 + (numBytes - r)\<rparr>), w2)" "vale w2"
      "cont w2 = emenda (cont w1) (unat (write_offset ?d1)) (take (unat (numBytes - r)) (drop (unat (counter + r)) buffer))"
      by (elim exE conjE)
    have e1: "unat (counter + r) + unat (numBytes - r) = unat counter + unat numBytes" using un uc r(1) by simp
    have e3: "poe_fd (poe_fd c p ?d1) p (?d1\<lparr>size_fd := of_nat (length (cont w2)), write_offset := write_offset ?d1 + (numBytes - r)\<rparr>) =
        poe_fd c p (d\<lparr>size_fd := of_nat (length (cont w2)), write_offset := write_offset d + numBytes\<rparr>)" by simp
    have e2: "cont w2 = emenda (cont w) (unat (write_offset d)) (take (unat numBytes) (drop (unat counter) buffer))"
    proof -
      let ?x = "take (unat numBytes - unat r) (drop (unat counter + unat r) buffer)"
      have "cont w2 = emenda (cont w) (unat (write_offset d)) (bs @ ?x)"
        using emenda_junta[OF P(3), of bs ?x] by (simp add: w2(3) w1(3) un uc uo lb)
      moreover have "bs @ ?x = take (unat numBytes) (drop (unat counter) buffer)"
        using take_add[of "unat r" "unat numBytes - unat r" "drop (unat counter) buffer"] r(1)
        by (simp add: bs_def add.commute)
      ultimately show ?thesis by simp
    qed
    show ?thesis using w2(2) e2 unfolding step w2(1) e1 e3 by (intro exI[of _ w2]) simp
  qed
qed simp

lemma my_write_ok:
  assumes a: "aberto c fh p d" and v: "vale w" and s: "size_fd d = of_nat (length (cont w))"
    and o: "unat (write_offset d) \<le> length (cont w)" "unat (write_offset d) + unat numBytes \<le> cap"
    and b: "unat numBytes \<le> length buffer"
  shows "\<exists>w'. my_write N c w fh buffer numBytes =
      Inr (int (unat numBytes), poe_fd c p (d\<lparr>size_fd := of_nat (length (cont w')), write_offset := write_offset d + numBytes\<rparr>), w') \<and>
    vale w' \<and> cont w' = emenda (cont w) (unat (write_offset d)) (take (unat numBytes) buffer)"
proof -
  have fd: "fds (mem_c c) p = Some d" "Lib_initted c" using a by (simp_all add: aberto_def)
  note g = aberto_get[OF a]
  define wb where "wb = (if unat numBytes > MAX_WRITE_DATA then of_nat MAX_WRITE_DATA else numBytes)"
  have wb: "0 < unat wb \<or> numBytes = 0" "unat wb \<le> MAX_WRITE_DATA"
    by (auto simp: wb_def MAX_WRITE_DATA_def unat_gt_0)
  have "my_write N c w fh buffer numBytes = escreve_ciclo (Suc (unat numBytes)) N fh p c w buffer wb numBytes 0"
    using g fd by (simp only: my_write_def bindr.simps wb_def[symmetric] Let_def) simp
  moreover have "\<exists>w'. escreve_ciclo (Suc (unat numBytes)) N fh p c w buffer wb numBytes 0 =
      Inr (int (unat (0 :: 32 word) + unat numBytes),
        poe_fd c p (d\<lparr>size_fd := of_nat (length (cont w')), write_offset := write_offset d + numBytes\<rparr>), w') \<and> vale w' \<and>
      cont w' = emenda (cont w) (unat (write_offset d)) (take (unat numBytes) (drop (unat (0 :: 32 word)) buffer))"
    by (rule escreve_ciclo_ok[OF v fd(1)]) (use o b s wb cap_ok in simp_all)
  ultimately show ?thesis by simp
qed

text \<open>Writing and reading back through one descriptor whose two offsets agree.\<close>

lemma my_write_read:
  assumes a: "aberto c fh p d" and v: "vale w" and s: "size_fd d = of_nat (length (cont w))"
    and o: "write_offset d = read_offset d" "unat (read_offset d) \<le> length (cont w)" "unat (read_offset d) + unat n \<le> cap"
    and b: "unat n \<le> length buffer" "unat n \<le> length buf2" "unat n < fuel"
  shows "\<exists>c' w' c'' w''. my_write N c w fh buffer n = Inr (int (unat n), c', w') \<and>
    my_read fuel N c' w' fh buf2 n = Inr (int (unat n), take (unat n) buffer @ drop (unat n) buf2, c'', w'') \<and> vale w'' \<and>
    cont w'' = emenda (cont w) (unat (read_offset d)) (take (unat n) buffer)"
proof -
  have o': "unat (write_offset d) \<le> length (cont w)" "unat (write_offset d) + unat n \<le> cap" using o by simp_all
  obtain w' where w: "my_write N c w fh buffer n =
      Inr (int (unat n), poe_fd c p (d\<lparr>size_fd := of_nat (length (cont w')), write_offset := write_offset d + n\<rparr>), w')"
    "vale w'" "cont w' = emenda (cont w) (unat (write_offset d)) (take (unat n) buffer)"
    using my_write_ok[OF a v s o' b(1)] by (elim exE conjE)
  let ?d = "d\<lparr>size_fd := of_nat (length (cont w')), write_offset := write_offset d + n\<rparr>"
  let ?c = "poe_fd c p ?d"
  have a1: "aberto ?c fh p ?d" by (rule aberto_poe[OF a]) simp
  have l: "unat (read_offset d) + unat n \<le> length (cont w')" using o(2) b(1) by (simp add: w(3) o(1) emenda_length)
  have m: "unat n = min (unat n) (length (cont w') - unat (read_offset ?d))" using l by simp
  have bnd: "unat (read_offset ?d) \<le> length (cont w')" "unat (read_offset ?d) + unat n < 2 ^ 32" using l o(3) cap_ok by simp_all
  have s1: "size_fd ?d = of_nat (length (cont w'))" by simp
  obtain w'' where w2: "my_read fuel N ?c w' fh buf2 n =
      Inr (int (unat n), poe_bytes buf2 0 (take (unat n) (drop (unat (read_offset ?d)) (cont w'))),
        poe_fd ?c p (?d\<lparr>read_offset := of_nat (unat (read_offset ?d) + unat n)\<rparr>), w'')" "vale w''" "cont w'' = cont w'"
    using my_read_ok[OF a1 w(2) s1 bnd m b(2,3)] by (elim exE conjE)
  have "take (unat n) (drop (unat (read_offset ?d)) (cont w')) = take (unat n) buffer"
    using emenda_le[OF o(2), of "take (unat n) buffer"] b(1) by (simp add: w(3) o(1))
  then have "poe_bytes buf2 0 (take (unat n) (drop (unat (read_offset ?d)) (cont w'))) = take (unat n) buffer @ drop (unat n) buf2"
    using b(1) by (simp add: poe_bytes_def)
  note w3 = w2(1)[unfolded this]
  have "cont w'' = emenda (cont w) (unat (read_offset d)) (take (unat n) buffer)" using w(3) w2(3) o(1) by simp
  then show ?thesis using w(1) w3 w2(2) by blast
qed

end

section \<open>The server keeps the contract\<close>

text \<open>The world behind the socket between two calls, and the file of a handle.\<close>

definition inode_do_fh :: "32 word \<Rightarrow> nat" where
  "inode_do_fh fh = unat (ucast fh :: inodeid_t)"

definition vale_fs :: "32 word \<Rightarrow> nat \<Rightarrow> fs_t \<times> snfs_msg_res option \<Rightarrow> bool" where
  "vale_fs fh K w \<longleftrightarrow> pronto (fst w) (inode_do_fh fh) K"

definition cont_fs :: "32 word \<Rightarrow> fs_t \<times> snfs_msg_res option \<Rightarrow> byte list" where
  "cont_fs fh w = conteudo_f (fst w) (inode_do_fh fh)"

lemma conteudo_cabe: "pronto fs f K \<Longrightarrow> length (conteudo_f fs f) \<le> 512 * K \<and> K \<le> 10"
  using blocos_length(3,5)[of fs f] mult_le_mono2[of "length (blocos fs f)" K 512] by (auto simp: pronto_def)

lemma read_de_responde [simp]: "read_de (responde t n s (ReadRes d)) = d" "write_de (responde t n s (WriteRes x)) = x"
  "falhou 8 (responde t n RES_OK b) = False"
  by (simp_all add: read_de_def write_de_def responde_def falhou_def)

interpretation no_servidor: ficheiro_remoto "ao_servidor z fuel" fh "vale_fs fh K" "cont_fs fh" "512 * min K 10" for z fuel fh K
proof
  show "512 * min K 10 < (2 :: nat) ^ 31" by simp
  fix w :: "fs_t \<times> snfs_msg_res option" assume v: "vale_fs fh K w"
  obtain FS r where w: "w = (FS, r)" by fastforce
  have p: "pronto FS (unat (ucast fh :: inodeid_t)) K" using v by (simp add: vale_fs_def w inode_do_fh_def)
  note cc = conteudo_cabe[OF p]
  show "length (cont_fs fh w) \<le> 512 * min K 10" using cc by (simp add: cont_fs_def w inode_do_fh_def min_def)
  fix cnt off :: "32 word"
  show "\<exists>w'. snfs_read_c (ao_servidor z fuel) w fh off cnt =
          Inr (STAT_OK, Some (take (unat cnt) (take (unat cnt) (drop (unat off) (cont_fs fh w)) @ zeros MAX_READ_DATA),
            of_nat (length (take (unat cnt) (drop (unat off) (cont_fs fh w))))), w') \<and>
        vale_fs fh K w' \<and> cont_fs fh w' = cont_fs fh w" if c: "unat cnt \<le> MAX_READ_DATA"
  proof -
    have "unat cnt \<le> 1024" using c by (simp add: MAX_READ_DATA_def)
    then obtain FS' where s: "serve z fuel FS (REQ_READ fh off cnt) =
      Inr (responde 3 1028 RES_OK (ReadRes (take (unat cnt) (drop (unat off) (conteudo_f FS (unat (ucast fh :: inodeid_t)))))), FS')"
      "pronto FS' (unat (ucast fh :: inodeid_t)) K" "conteudo_f FS' (unat (ucast fh :: inodeid_t)) = conteudo_f FS (unat (ucast fh :: inodeid_t))"
      using serve_read[OF p, of cnt z fuel off] by blast
    show ?thesis using c s(2,3) unfolding snfs_read_c_def w ao_servidor_chama[OF s(1)]
      by (intro exI[of _ "(FS', None)"]) (simp add: vale_fs_def cont_fs_def inode_do_fh_def)
  qed
  show "\<exists>w'. snfs_write_c (ao_servidor z fuel) w fh off cnt b = Inr (STAT_OK, Some (of_nat (length (cont_fs fh w'))), w') \<and>
        vale_fs fh K w' \<and> cont_fs fh w' = emenda (cont_fs fh w) (unat off) (take (unat cnt) b)"
    if c: "unat cnt \<le> MAX_WRITE_DATA" "unat cnt \<le> length b" "unat off \<le> length (cont_fs fh w)" "unat off + unat cnt \<le> 512 * min K 10" for b
  proof -
    have k: "unat cnt \<le> 1024" "unat cnt \<le> length (take (unat cnt) b)" "unat off \<le> length (conteudo_f FS (unat (ucast fh :: inodeid_t)))"
      "unat off + unat cnt \<le> 512 * K"
      using c cc by (simp_all add: MAX_WRITE_DATA_def cont_fs_def w inode_do_fh_def min_def split: if_splits)
    obtain FS' where s: "serve z fuel FS (REQ_WRITE fh off cnt (take (unat cnt) b)) =
      Inr (responde 4 4 RES_OK (WriteRes (of_nat (length (conteudo_f FS' (unat (ucast fh :: inodeid_t)))))), FS')"
      "pronto FS' (unat (ucast fh :: inodeid_t)) K"
      "conteudo_f FS' (unat (ucast fh :: inodeid_t)) = emenda (conteudo_f FS (unat (ucast fh :: inodeid_t))) (unat off) (take (unat cnt) (take (unat cnt) b))"
      using serve_write[OF p k, of z fuel] by blast
    show ?thesis using c(1,2) s(2,3) unfolding snfs_write_c_def w ao_servidor_chama[OF s(1)]
      by (intro exI[of _ "(FS', None)"]) (simp add: vale_fs_def cont_fs_def inode_do_fh_def)
  qed
qed

end
