(* ===== verification/ClienteUso.thy ===== *)
theory ClienteUso
  imports ClienteLemas
begin

text \<open>
  The client library as a whole: the loop of my_write ends, every sequence of calls keeps the
  list of open files consistent, paths are split into directory and name, and a file created
  in a directory is opened with the size of the directory.
\<close>

section \<open>The loop of my_write ends\<close>

definition nunca_NoFuel :: "'w rede \<Rightarrow> bool" where
  "nunca_NoFuel N \<longleftrightarrow> (\<forall>w. recvfrom N w \<noteq> Inl NoFuel)"

lemma bindr_NoFuel: "bindr m k = Inl NoFuel \<longleftrightarrow> m = Inl NoFuel \<or> (\<exists>x. m = Inr x \<and> k x = Inl NoFuel)"
  by (cases m) auto

lemma snfs_write_c_NoFuel: "nunca_NoFuel N \<Longrightarrow> snfs_write_c N w f off cnt b \<noteq> Inl NoFuel"
  by (auto simp: snfs_write_c_def remote_call_def nunca_NoFuel_def bindr_NoFuel Let_def split: prod.splits if_splits)

lemma escreve_ciclo_NoFuel:
  assumes "nunca_NoFuel N"
  shows "unat numBytes < fuel \<Longrightarrow> 0 < unat wBytes \<or> numBytes = 0 \<Longrightarrow>
    escreve_ciclo fuel N i p c w buffer wBytes numBytes counter \<noteq> Inl NoFuel"
proof (induction fuel arbitrary: c w wBytes numBytes counter)
  case (Suc fuel)
  show ?case
  proof (cases "numBytes = 0")
    case False
    define r where "r = (if wBytes > numBytes then numBytes else wBytes)"
    have r: "unat r \<le> unat numBytes" "0 < unat r"
      using Suc.prems(2) False by (auto simp: r_def word_less_nat_alt unat_gt_0)
    have un: "unat (numBytes - r) = unat numBytes - unat r" using r(1) by (simp add: unat_sub word_le_nat_alt)
    have "escreve_ciclo fuel N i p c' w' buffer r (numBytes - r) (counter + r) \<noteq> Inl NoFuel" for c' w'
      by (rule Suc.IH) (use Suc.prems(1) r un in auto)
    then show ?thesis using False snfs_write_c_NoFuel[OF assms]
      by (auto simp: r_def[symmetric] bindr_NoFuel deref_fd_def split: option.splits)
  qed simp
qed simp

lemma my_write_NoFuel:
  assumes "nunca_NoFuel N" "\<exists>q ps as. Open_files_list c = Some q \<and> fila_f (mem_c c) q ps as"
  shows "my_write N c w i buffer numBytes \<noteq> Inl NoFuel"
proof -
  obtain q ps as where q: "Open_files_list c = Some q" "fila_f (mem_c c) q ps as" using assms(2) by blast
  define wb where "wb = (if unat numBytes > MAX_WRITE_DATA then of_nat MAX_WRITE_DATA else numBytes)"
  have "0 < unat wb \<or> numBytes = 0" by (auto simp: wb_def MAX_WRITE_DATA_def unat_gt_0)
  then have "escreve_ciclo (Suc (unat numBytes)) N i p c w buffer wb numBytes 0 \<noteq> Inl NoFuel" for p
    by (intro escreve_ciclo_NoFuel[OF assms(1)]) simp_all
  then show ?thesis unfolding my_write_def q(1) queue_node_get_fila[OF q(2)] bindr.simps Let_def wb_def[symmetric]
    by (simp del: escreve_ciclo.simps)
qed

section \<open>The client between two calls\<close>

text \<open>The list of open files and its count; no descriptor is in the list twice.\<close>

definition cliente_ok :: "cliente \<Rightarrow> bool" where
  "cliente_ok c \<longleftrightarrow> Lib_initted c \<longrightarrow>
     (\<exists>q ps as. Open_files_list c = Some q \<and> fila_f (mem_c c) q ps as \<and> distinct as \<and>
        Open_files c = int (length as) \<and> Open_files c \<le> MAX_OPEN_FILES)"

lemma cliente_okI:
  "Open_files_list c = Some q \<Longrightarrow> fila_f (mem_c c) q ps as \<Longrightarrow> distinct as \<Longrightarrow> Open_files c = int (length as) \<Longrightarrow>
   Open_files c \<le> MAX_OPEN_FILES \<Longrightarrow> cliente_ok c"
  unfolding cliente_ok_def by blast

lemma abre_ok:
  assumes c: "cliente_ok c" "Lib_initted c" "Open_files c < MAX_OPEN_FILES"
  shows "\<exists>c' p. abre c fh s = Inr (sint fh, c') \<and> cliente_ok c' \<and> Open_files c' = Open_files c + 1 \<and> Lib_initted c' \<and>
    fds (mem_c c') p = Some \<lparr>fileId = fh, size_fd = s, read_offset = 0, write_offset = 0\<rparr> \<and>
    (\<forall>a. fds (mem_c c) a \<noteq> None \<longrightarrow> fds (mem_c c') a = fds (mem_c c) a) \<and>
    (\<forall>q ps as. Open_files_list c = Some q \<longrightarrow> fila_f (mem_c c) q ps as \<longrightarrow>
       (\<exists>q' ps'. Open_files_list c' = Some q' \<and> fila_f (mem_c c') q' ps' (as @ [p])))"
proof -
  obtain q ps as where q: "Open_files_list c = Some q" "fila_f (mem_c c) q ps as" "distinct as" "Open_files c = int (length as)"
    using c by (auto simp: cliente_ok_def)
  let ?p = "prox_f (mem_c c)" and ?d = "\<lparr>fileId = fh, size_fd = s, read_offset = 0, write_offset = 0\<rparr>"
  define m where "m = (mem_c c)\<lparr>prox_f := ?p + 1, fds := (fds (mem_c c))(?p \<mapsto> ?d)\<rparr>"
  have f: "fila_f m q ps as" if "fila_f (mem_c c) q ps as" for q ps as
    using that cadeia_cong[of ps m "mem_c c"] by (auto simp: fila_f_def mem_f_ok_def m_def less_Suc_eq)
  have "mem_f_ok (mem_c c)" using q(2) by (simp add: fila_f_def)
  then have "fds (mem_c c) ?p \<noteq> None \<Longrightarrow> ?p < ?p" unfolding mem_f_ok_def by blast
  then have pn: "?p \<notin> set as" using q(2) by (auto simp: fila_f_def)
  obtain b q' m' where e: "queue_enqueue m (Some q) ?p = Inr (Some q', m')" "fila_f m' q' (ps @ [b]) (as @ [?p])" "fds m' = fds m"
    using queue_enqueue_fila[OF f[OF q(2)], of ?p] by (auto simp: m_def)
  have un: "fila_f (mem_c c) q ps2 as2 \<Longrightarrow> as2 = as" for ps2 as2
  proof -
    have "cadeia n x a1 b1 z \<Longrightarrow> cadeia n x a2 b2 z \<Longrightarrow> z = NULL \<Longrightarrow> b1 = b2" for n x a1 b1 a2 b2 z
    proof (induction n x a1 b1 z arbitrary: a2 b2 rule: cadeia.induct)
      case (1 n x z)
      then show ?case by (cases a2; cases b2) auto
    next
      case (2 n x a1 p1 b1 as1 z)
      then show ?case by (cases a2; cases b2) auto
    qed auto
    then show "fila_f (mem_c c) q ps2 as2 \<Longrightarrow> as2 = as" using q(2) by (auto simp: fila_f_def)
  qed
  let ?c = "c\<lparr>Open_files_list := Some q', Open_files := Open_files c + 1, mem_c := m'\<rparr>"
  have run: "abre c fh s = Inr (sint fh, ?c)" using e(1) q(1) by (simp add: abre_def m_def Let_def)
  have "cliente_ok ?c" using e(2) q(3,4) pn c(3) by (intro cliente_okI[of _ q' "ps @ [b]" "as @ [?p]"]) auto
  moreover have "fds m' ?p = Some ?d" "\<forall>a. fds (mem_c c) a \<noteq> None \<longrightarrow> fds m' a = fds (mem_c c) a"
    using q(2) by (auto simp: e(3) m_def fila_f_def mem_f_ok_def)
  moreover have "\<exists>q' ps'. Open_files_list ?c = Some q' \<and> fila_f (mem_c ?c) q' ps' (as2 @ [?p])"
    if "Open_files_list c = Some q2" "fila_f (mem_c c) q2 ps2 as2" for q2 ps2 as2
  proof -
    have "as2 = as" using un that q(1) by auto
    then show ?thesis using e(2) by auto
  qed
  ultimately show ?thesis using run c(2) by (intro exI[of _ ?c] exI[of _ ?p]) simp
qed

lemma my_close_ok:
  assumes c: "cliente_ok c" "my_close c i = Inr (r, c')"
  shows "cliente_ok c' \<and> (r = 0 \<longrightarrow> Open_files c' = Open_files c - 1) \<and> (r \<noteq> 0 \<longrightarrow> c' = c) \<and> r \<in> {0, -1}"
proof (cases "Lib_initted c")
  case False
  then show ?thesis using c by (auto simp: my_close_def)
next
  case True
  then obtain q ps as where q: "Open_files_list c = Some q" "fila_f (mem_c c) q ps as" "distinct as" "Open_files c = int (length as)"
    "Open_files c \<le> MAX_OPEN_FILES" using c by (auto simp: cliente_ok_def)
  show ?thesis
  proof (cases "\<forall>x \<in> set as. \<not> tem_id (mem_c c) i x")
    case True
    have e: "c\<lparr>Open_files_list := Some q\<rparr> = c" unfolding q(1)[symmetric] by simp
    show ?thesis using c \<open>Lib_initted c\<close> q(1) queue_node_remove_fila(2)[OF q(2) True]
      by (auto simp: my_close_def e)
  next
    case False
    then obtain xs a ys where s: "as = xs @ a # ys" "tem_id (mem_c c) i a" "\<forall>x \<in> set xs. \<not> tem_id (mem_c c) i x"
      using split_list_first_prop[of as "tem_id (mem_c c) i"] by auto
    obtain q' m' ps' where r: "queue_node_remove (mem_c c) (Some q) i = Inr (a, Some q', m')" "fila_f m' q' ps' (xs @ ys)" "fds m' = fds (mem_c c)"
      using queue_node_remove_fila(1)[OF q(2) s(1,3,2)] by blast
    have an: "a \<noteq> NULL" using q(2) s(1) by (auto simp: fila_f_def mem_f_ok_def)
    let ?c = "c\<lparr>Open_files_list := Some q', mem_c := m'\<lparr>fds := (fds m')(a := None)\<rparr>, Open_files := Open_files c - 1\<rparr>"
    have run: "c' = ?c" "r = 0" using c(2) \<open>Lib_initted c\<close> q(1) r(1) an by (auto simp: my_close_def)
    have "fila_f (m'\<lparr>fds := (fds m')(a := None)\<rparr>) q' ps' (xs @ ys)"
      using r(2) q(3) s(1) cadeia_cong[of ps' "m'\<lparr>fds := (fds m')(a := None)\<rparr>" m'] by (auto simp: fila_f_def mem_f_ok_def)
    then have "cliente_ok ?c" using q s(1) by (intro cliente_okI[of _ q' ps' "xs @ ys"]) auto
    then show ?thesis using run by simp
  qed
qed

section \<open>Paths\<close>

lemma cstr_a_ok: "0 \<notin> set s \<Longrightarrow> cstr_a (s @ 0 # r) = Inr s"
  by (induction s) (auto simp: cstr_a_def)

lemma cstr_a_zeros: "0 \<notin> set s \<Longrightarrow> 0 < n \<Longrightarrow> cstr_a (s @ zeros n) = Inr s"
  using cstr_a_ok[of s "zeros (n - 1)"] by (cases n) (simp_all add: zeros_def)

lemma strcpy_ok:
  assumes "length s < length a" "0 \<notin> set s"
  shows "\<exists>a'. strcpy_a a s = Inr a' \<and> length a' = length a \<and> cstr_a a' = Inr s"
  using assms cstr_a_ok[OF assms(2), of "drop (Suc (length s)) a"] by (simp add: strcpy_a_def poe_bytes_def)

lemma copia_tokens_ok:
  "ts \<noteq> [] \<Longrightarrow> \<forall>t \<in> set ts. length t < length a \<and> 0 \<notin> set t \<Longrightarrow>
   \<exists>a'. copia_tokens a i ts = Inr (i + length ts, a') \<and> cstr_a a' = Inr (last ts)"
proof (induction ts arbitrary: a i)
  case (Cons t ts)
  obtain a1 where a1: "strcpy_a a t = Inr a1" "length a1 = length a" "cstr_a a1 = Inr t"
    using strcpy_ok[of t a] Cons.prems by auto
  show ?case
  proof (cases "ts = []")
    case False
    then show ?thesis using Cons.IH[of a1 "i + 1"] Cons.prems a1 by auto
  qed (use a1 in simp)
qed simp

lemma tokens_aux_bytes: "t \<in> set (tokens_aux ac s) \<Longrightarrow> set t \<subseteq> set ac \<union> set s"
  by (induction ac s rule: tokens_aux.induct) (auto split: if_splits)

lemma tokens_bytes: "t \<in> set (tokens s) \<Longrightarrow> set t \<subseteq> set s"
  using tokens_aux_bytes[of t "[]" s] by (simp add: tokens_def)

lemma myparse_0:
  assumes "myparse s = Inr 0" "0 \<notin> set s"
  shows "length s < MAX_PATH_NAME_SIZE" "\<forall>t \<in> set (tokens s). length t < MAX_FILE_NAME_SIZE" "s \<noteq> []" "s ! 0 = BARRA"
proof -
  show l: "length s < MAX_PATH_NAME_SIZE" using assms(1) by (auto simp: myparse_def strcpy_a_def split: if_splits)
  then obtain a' where a: "strcpy_a (zeros MAX_PATH_NAME_SIZE) s = Inr a'" "cstr_a a' = Inr s" "a' = s @ 0 # drop (Suc (length s)) (zeros MAX_PATH_NAME_SIZE)"
    using strcpy_ok[of s "zeros MAX_PATH_NAME_SIZE"] assms(2) by (auto simp: strcpy_a_def poe_bytes_def)
  then show t: "\<forall>t \<in> set (tokens s). length t < MAX_FILE_NAME_SIZE" and n: "s \<noteq> []" and "s ! 0 = BARRA"
    using assms(1) by (auto simp: myparse_def MAX_FILE_NAME_SIZE_def nth_append split: if_splits)
qed

lemma separa_ok:
  assumes p: "myparse (d @ BARRA # f) = Inr 0" and z: "0 \<notin> set (d @ BARRA # f)"
    and f: "f \<noteq> []" "BARRA \<notin> set f" and d: "tokens d \<noteq> []"
  shows "separa (d @ BARRA # f) = Inr (length (tokens d) + 1, f, d)"
proof -
  let ?n = "d @ BARRA # f"
  note m = myparse_0[OF p z]
  have t: "tokens ?n = tokens d @ [f]" by (rule tokens_junta[OF f(2,1)])
  have "\<forall>t \<in> set (tokens ?n). length t < length (zeros MAX_FILE_NAME_SIZE) \<and> 0 \<notin> set t"
  proof
    fix t assume "t \<in> set (tokens ?n)"
    then have "set t \<subseteq> set ?n" "length t < MAX_FILE_NAME_SIZE" using tokens_bytes m(2) by blast+
    then show "length t < length (zeros MAX_FILE_NAME_SIZE) \<and> 0 \<notin> set t" using z by (simp add: subset_iff) metis
  qed
  then obtain a where a: "copia_tokens (zeros MAX_FILE_NAME_SIZE) 0 (tokens ?n) = Inr (length (tokens ?n), a)" "cstr_a a = Inr f"
    using copia_tokens_ok[of "tokens ?n" "zeros MAX_FILE_NAME_SIZE" 0] t by auto
  obtain b where b: "strcpy_a (zeros MAX_PATH_NAME_SIZE) ?n = Inr b"
    using strcpy_ok[of ?n "zeros MAX_PATH_NAME_SIZE"] m(1) z by auto
  have ld: "length d < MAX_PATH_NAME_SIZE" using m(1) by simp
  have s: "strncpy_a (zeros MAX_PATH_NAME_SIZE) ?n (length d) = Inr (d @ zeros (MAX_PATH_NAME_SIZE - length d))"
    using ld by (simp add: strncpy_a_def poe_bytes_def zeros_def)
  have c: "cstr_a (d @ zeros (MAX_PATH_NAME_SIZE - length d)) = Inr d" by (rule cstr_a_zeros) (use z ld in auto)
  have "length ?n - (length f + 1) = length d" by simp
  then show ?thesis
    unfolding separa_def nomes_de_def b bindr.simps a(1) using a(2) s c t d
    by (cases "tokens d") simp_all
qed

text \<open>my_append keeps the rest of a longer name behind the last one.\<close>

lemma separa_append_dois:
  assumes "BARRA \<notin> set a" "BARRA \<notin> set f" "0 \<notin> set a" "0 \<notin> set f" "f \<noteq> []" "length f < length a" "length a < MAX_FILE_NAME_SIZE"
  shows "separa_append (BARRA # a @ BARRA # f) = Inr (2, f @ drop (length f) a, BARRA # take (length f) a)"
proof -
  let ?n = "BARRA # a @ BARRA # f"
  have an: "a \<noteq> []" using assms(6) by auto
  have t: "tokens ?n = [a, f]"
    using tokens_junta[OF assms(2,5), of "BARRA # a"] tokens_junta[OF assms(1) an, of "[]"] by (simp add: tokens_def)
  have l: "length ?n < MAX_PATH_NAME_SIZE" using assms(6,7) by (simp add: MAX_PATH_NAME_SIZE_def MAX_FILE_NAME_SIZE_def)
  have full: "strcpy_a (zeros MAX_PATH_NAME_SIZE) ?n = Inr (poe_bytes (zeros MAX_PATH_NAME_SIZE) 0 (?n @ [0]))"
    using l by (simp add: strcpy_a_def)
  have s1: "strncpy_a (zeros MAX_FILE_NAME_SIZE) a (length a) = Inr (a @ zeros (MAX_FILE_NAME_SIZE - length a))"
    using assms(7) by (simp add: strncpy_a_def poe_bytes_def zeros_def)
  have s2: "strncpy_a (a @ zeros (MAX_FILE_NAME_SIZE - length a)) f (length f) =
      Inr ((f @ drop (length f) a) @ zeros (MAX_FILE_NAME_SIZE - length a))"
    using assms(6,7) by (simp add: strncpy_a_def poe_bytes_def)
  have c: "cstr_a ((f @ drop (length f) a) @ zeros (MAX_FILE_NAME_SIZE - length a)) = Inr (f @ drop (length f) a)"
    by (rule cstr_a_zeros) (use assms(3,4,7) in \<open>auto dest: in_set_dropD\<close>)
  let ?d = "BARRA # take (length f) a"
  have lf: "length (f @ drop (length f) a) = length a" using assms(6) by simp
  have k: "length ?n - (length a + 1) = Suc (length f)" by simp
  have s3: "strncpy_a (zeros MAX_PATH_NAME_SIZE) ?n (Suc (length f)) = Inr (?d @ zeros (MAX_PATH_NAME_SIZE - Suc (length f)))"
    using l assms(6) by (simp add: strncpy_a_def poe_bytes_def zeros_def)
  have "0 \<notin> set ?d" using assms(3) by (auto simp: BARRA_def dest: in_set_takeD)
  then have c3: "cstr_a (?d @ zeros (MAX_PATH_NAME_SIZE - Suc (length f))) = Inr ?d"
    by (rule cstr_a_zeros) (use l in simp)
  have r: "copia_tokens_n (zeros MAX_FILE_NAME_SIZE) 0 (tokens ?n) = Inr (2, (f @ drop (length f) a) @ zeros (MAX_FILE_NAME_SIZE - length a))"
    unfolding t by (simp only: copia_tokens_n.simps bindr.simps s1 s2) simp
  have nl: "\<not> length ?n < length (f @ drop (length f) a) + 1" using lf by simp
  show ?thesis
    unfolding separa_append_def nomes_de_def full bindr.simps r prod.case
    using nl by (simp only: c bindr.simps lf k s3 c3 if_False) simp
qed

section \<open>Sequences of calls\<close>

text \<open>What the calls do to the client: none of the others has the client as a parameter.\<close>

lemma poe_fd_ok:
  assumes "cliente_ok c" "fds (mem_c c) p \<noteq> None"
  shows "cliente_ok (poe_fd c p d)"
  using assms fila_f_fds[OF _ assms(2)] unfolding cliente_ok_def by (fastforce simp: poe_fd_def)

lemma poe_fd_iguais [simp]: "Open_files (poe_fd c p d) = Open_files c" "Lib_initted (poe_fd c p d) = Lib_initted c"
  by (simp_all add: poe_fd_def)

lemma le_ciclo_cliente:
  "le_ciclo fuel N i p c w buffer rBytes numBytes counter = Inr (r, b, c', w') \<Longrightarrow> cliente_ok c \<Longrightarrow>
   cliente_ok c' \<and> Open_files c' = Open_files c \<and> Lib_initted c' = Lib_initted c"
proof (induction fuel arbitrary: c w buffer rBytes numBytes counter)
  case (Suc fuel)
  have "cliente_ok (poe_fd c p e)" if "deref_fd (mem_c c) p = Inr d" for d e
    using poe_fd_ok[OF Suc.prems(2)] that by (auto simp: deref_fd_def split: option.splits)
  then show ?case using Suc.prems Suc.IH
    by (fastforce simp: bindr_Inr_iff Let_def split: if_splits option.splits)
qed simp

lemma escreve_ciclo_cliente:
  "escreve_ciclo fuel N i p c w buffer wBytes numBytes counter = Inr (r, c', w') \<Longrightarrow> cliente_ok c \<Longrightarrow>
   cliente_ok c' \<and> Open_files c' = Open_files c \<and> Lib_initted c' = Lib_initted c"
proof (induction fuel arbitrary: c w wBytes numBytes counter)
  case (Suc fuel)
  have "cliente_ok (poe_fd c p e)" if "deref_fd (mem_c c) p = Inr d" for d e
    using poe_fd_ok[OF Suc.prems(2)] that by (auto simp: deref_fd_def split: option.splits)
  then show ?case using Suc.prems Suc.IH
    by (fastforce simp: bindr_Inr_iff Let_def split: if_splits option.splits)
qed simp

lemma my_read_cliente:
  "my_read fuel N c w i b n = Inr (r, b', c', w') \<Longrightarrow> cliente_ok c \<Longrightarrow> cliente_ok c'"
  using le_ciclo_cliente unfolding my_read_def by (fastforce simp: bindr_Inr_iff Let_def split: if_splits)

lemma my_write_cliente:
  "my_write N c w i b n = Inr (r, c', w') \<Longrightarrow> cliente_ok c \<Longrightarrow> cliente_ok c'"
  using escreve_ciclo_cliente unfolding my_write_def
  by (fastforce simp: bindr_Inr_iff Let_def simp del: escreve_ciclo.simps split: if_splits)

lemma abre_cliente:
  "abre c fh s = Inr (r, c') \<Longrightarrow> cliente_ok c \<Longrightarrow> Lib_initted c \<Longrightarrow> Open_files c < MAX_OPEN_FILES \<Longrightarrow> cliente_ok c'"
  using abre_ok[of c fh s] by auto

lemma case_opcao_Inr: "(case x of None \<Rightarrow> Inr a | Some y \<Rightarrow> g y) = Inr b \<longleftrightarrow> x = None \<and> a = b \<or> (\<exists>y. x = Some y \<and> g y = Inr b)"
  by (cases x) auto
lemma my_open_abre:
  assumes "my_open N c w n f = Inr (r, c', w')"
  shows "c' = c \<or> Lib_initted c \<and> Open_files c < MAX_OPEN_FILES \<and> (\<exists>fh s x. abre c fh s = Inr (x, c'))"
  using assms unfolding my_open_def
  apply (simp only: bindr_Inr_iff Let_def case_opcao_Inr split: if_split_asm)
  apply (simp_all add: bindr_Inr_iff case_opcao_Inr not_le split: prod.split_asm)
  apply (elim exE conjE)
  subgoal for x
    apply (cases "x = 0")
     apply (simp_all)
    apply (elim exE conjE)
    apply (simp only: if_split_eq1 bindr_Inr_iff case_opcao_Inr split: if_split_asm prod.split_asm)
    apply (auto simp: bindr_Inr_iff case_opcao_Inr split: prod.split_asm)
    done
  done

lemma my_open_cliente: "my_open N c w n f = Inr (r, c', w') \<Longrightarrow> cliente_ok c \<Longrightarrow> cliente_ok c'"
  using my_open_abre[of N c w n f r c' w'] abre_cliente by blast

inductive uso :: "'w rede \<Rightarrow> cliente \<Rightarrow> bool" for N where
  inicio: "my_init_lib cliente_inicial mk ini = (r, c) \<Longrightarrow> uso N c"
| abrir: "uso N c \<Longrightarrow> my_open N c w n f = Inr (r, c', w') \<Longrightarrow> uso N c'"
| ler: "uso N c \<Longrightarrow> my_read fuel N c w i b n = Inr (r, b', c', w') \<Longrightarrow> uso N c'"
| escrever: "uso N c \<Longrightarrow> my_write N c w i b n = Inr (r, c', w') \<Longrightarrow> uso N c'"
| fechar: "uso N c \<Longrightarrow> my_close c i = Inr (r, c') \<Longrightarrow> uso N c'"

lemma inicio_ok: "my_init_lib cliente_inicial mk ini = (r, c) \<Longrightarrow> cliente_ok c"
proof -
  assume "my_init_lib cliente_inicial mk ini = (r, c)"
  then have "c = cliente_inicial \<or> c = cliente_inicial\<lparr>Open_files_list := Some queue_create, Lib_initted := True\<rparr>"
    by (auto simp: my_init_lib_def split: if_splits)
  moreover have "fila_f (mem_c cliente_inicial) queue_create [] []"
    by (simp add: fila_f_def queue_create_def mem_f_ok_def cliente_inicial_def NULL_def)
  then have "cliente_ok (cliente_inicial\<lparr>Open_files_list := Some queue_create, Lib_initted := True\<rparr>)"
    by (intro cliente_okI[of _ queue_create "[]" "[]"]) (simp_all add: cliente_inicial_def MAX_OPEN_FILES_def)
  moreover have "cliente_ok cliente_inicial" by (simp add: cliente_ok_def cliente_inicial_def)
  ultimately show ?thesis by auto
qed

lemma uso_ok: "uso N c \<Longrightarrow> cliente_ok c"
proof (induction rule: uso.induct)
  case (inicio mk ini r c)
  then show ?case by (rule inicio_ok)
next
  case (abrir c w n f r c' w')
  show ?case by (rule my_open_cliente[OF abrir(2,3)])
next
  case (ler c fuel w i b n r b' c' w')
  show ?case by (rule my_read_cliente[OF ler(2,3)])
next
  case (escrever c w i b n r c' w')
  show ?case by (rule my_write_cliente[OF escrever(2,3)])
next
  case (fechar c i r c')
  then show ?case using my_close_ok by blast
qed

section \<open>Creating a file in a directory\<close>

lemma cria_em_directorio:
  assumes c: "cliente_ok c" "Lib_initted c" "Open_files c < MAX_OPEN_FILES"
    and p: "myparse name = Inr 0" "separa name = Inr (i, f, d)" "i > 1"
    and l: "snfs_lookup_c N w name = Inr (STAT_ERROR, x, None, w1)" "snfs_lookup_c N w1 d = Inr (STAT_OK, dh, Some s, w2)"
    and k: "snfs_create_c N w2 dh f = Inr (STAT_OK, Some fh, w3)" and n: "\<forall>a. \<not> tem_id (mem_c c) fh a"
  shows "\<exists>c' p. my_open N c w name O_CREATE = Inr (sint fh, c', w3) \<and>
    aberto c' fh p \<lparr>fileId = fh, size_fd = s, read_offset = 0, write_offset = 0\<rparr>"
proof -
  let ?d = "\<lparr>fileId = fh, size_fd = s, read_offset = 0, write_offset = 0\<rparr>"
  obtain q ps as where q: "Open_files_list c = Some q" "fila_f (mem_c c) q ps as" using c by (auto simp: cliente_ok_def)
  obtain c' p where a: "abre c fh s = Inr (sint fh, c')" "Lib_initted c'" "fds (mem_c c') p = Some ?d"
    "\<forall>a. fds (mem_c c) a \<noteq> None \<longrightarrow> fds (mem_c c') a = fds (mem_c c) a"
    "\<exists>q' ps'. Open_files_list c' = Some q' \<and> fila_f (mem_c c') q' ps' (as @ [p])"
    using abre_ok[OF c, of fh s] q by blast
  have "my_open N c w name O_CREATE = Inr (sint fh, c', w3)"
    using c p l k a(1) by (simp add: my_open_def)
  moreover have "find (tem_id (mem_c c') fh) (as @ [p]) = Some p"
  proof -
    have "\<not> tem_id (mem_c c') fh b" if "b \<in> set as" for b
      using that q(2) a(4) n by (auto simp: fila_f_def tem_id_def)
    then have "find (tem_id (mem_c c') fh) as = None" by (simp add: find_None_iff)
    moreover have "tem_id (mem_c c') fh p" using a(3) by (simp add: tem_id_def)
    moreover have "find P (xs @ [y]) = Some y" if "find P xs = None" "P y" for P and xs :: "addr list" and y
      using that by (induction xs) (auto split: if_splits)
    ultimately show ?thesis by blast
  qed
  ultimately show ?thesis using a by (auto simp: aberto_def)
qed

lemma ler_criado_sem_fim:
  assumes a: "aberto c fh p \<lparr>fileId = fh, size_fd = s, read_offset = 0, write_offset = 0\<rparr>" and s: "s \<noteq> 0"
    and r: "\<And>w off cnt. unat cnt \<le> MAX_READ_DATA \<Longrightarrow>
      \<exists>w'. snfs_read_c N w fh off cnt = Inr (STAT_OK, Some (take (unat cnt) (zeros MAX_READ_DATA), 0), w')"
    and n: "n \<noteq> 0" "unat n \<le> length buffer"
  shows "my_read fuel N c w fh buffer n = Inl NoFuel"
proof -
  have "leitor_remoto N fh (\<lambda>_. True) (\<lambda>_. []) 0" by unfold_locales (use r in simp_all)
  then show ?thesis
    by (rule leitor_remoto.my_read_sem_fim[OF _ a]) (use s n unsigned_less[of n] in \<open>simp_all add: word_gt_0\<close>)
qed

end
