(* ===== verification/MonitorSinc.thy ===== *)
theory MonitorSinc
  imports "HOL-Library.Multiset"
begin

text \<open>
  The monitors of sthread_user.c as the programs that use them see them: an owner, the queue of
  the mutex and the queue of the waiting threads; leaving a monitor hands it to the first thread of
  the mutex queue; a signal moves waiting threads to the mutex queue, and does nothing when the
  caller is not the owner.  Monitores shows that the calls of the scheduler do this.
\<close>

section \<open>Monitors\<close>

record mon_s =
  dono :: "nat option"
  fila_m :: "nat list"
  espera :: "nat list"

definition mon_novo :: mon_s where
  "mon_novo = \<lparr>dono = None, fila_m = [], espera = []\<rparr>"

definition entra :: "nat \<Rightarrow> mon_s \<Rightarrow> mon_s" where
  "entra i m = (if dono m = None then m\<lparr>dono := Some i\<rparr> else m\<lparr>fila_m := fila_m m @ [i]\<rparr>)"

definition sai :: "nat \<Rightarrow> mon_s \<Rightarrow> mon_s" where
  "sai i m =
     (if dono m \<noteq> Some i then m
      else case fila_m m of [] \<Rightarrow> m\<lparr>dono := None\<rparr> | w # ws \<Rightarrow> m\<lparr>dono := Some w, fila_m := ws\<rparr>)"

definition aguarda :: "nat \<Rightarrow> mon_s \<Rightarrow> mon_s" where
  "aguarda i m = (if dono m \<noteq> Some i then m else sai i (m\<lparr>espera := espera m @ [i]\<rparr>))"

definition assinala :: "nat \<Rightarrow> mon_s \<Rightarrow> mon_s" where
  "assinala i m =
     (if dono m \<noteq> Some i then m
      else case espera m of [] \<Rightarrow> m | w # ws \<Rightarrow> m\<lparr>fila_m := fila_m m @ [w], espera := ws\<rparr>)"

definition assinala_todos :: "nat \<Rightarrow> mon_s \<Rightarrow> mon_s" where
  "assinala_todos i m = (if dono m \<noteq> Some i then m else m\<lparr>fila_m := fila_m m @ espera m, espera := []\<rparr>)"

section \<open>Inside a monitor\<close>

text \<open>
  \<open>posse\<close>: a thread between entering and leaving a monitor is its owner, and the owner and the
  threads of the queues are inside the monitor or blocked at it.
\<close>

definition no_monitor :: "mon_s \<Rightarrow> nat list" where
  "no_monitor m = (case dono m of None \<Rightarrow> [] | Some i \<Rightarrow> [i]) @ fila_m m @ espera m"

definition posse :: "'p set \<Rightarrow> 'p \<Rightarrow> mon_s \<Rightarrow> (nat \<Rightarrow> 'p) \<Rightarrow> bool" where
  "posse Z B m p \<longleftrightarrow>
     distinct (no_monitor m) \<and> (\<forall>j \<in> set (no_monitor m). p j \<in> insert B Z) \<and>
     (\<forall>j. p j \<in> Z \<longrightarrow> dono m = Some j)"

lemma no_monitor_sai: "dono m = Some i \<Longrightarrow> no_monitor m = i # no_monitor (sai i m)"
  by (auto simp: no_monitor_def sai_def split: list.splits)

lemma posse_entra:
  assumes "posse Z B m p" "B \<notin> Z" "p i \<notin> insert B Z"
  shows "posse Z B (entra i m) (p(i := B))"
proof -
  have i: "i \<notin> set (no_monitor m)" using assms(1,3) unfolding posse_def by blast
  show ?thesis
  proof (cases "dono m")
    case None
    then have "no_monitor (entra i m) = i # no_monitor m" "\<And>j. p j \<notin> Z"
      using assms(1) by (auto simp: no_monitor_def entra_def posse_def)
    then show ?thesis using assms i by (auto simp: posse_def)
  next
    case (Some k)
    then have "set (no_monitor (entra i m)) = insert i (set (no_monitor m))" "distinct (no_monitor (entra i m))"
      "dono (entra i m) = dono m"
      using assms(1) i by (auto simp: no_monitor_def entra_def posse_def)
    then show ?thesis using assms unfolding posse_def by auto
  qed
qed

lemma so_um: "posse Z B m p \<Longrightarrow> dono m = Some i \<Longrightarrow> p j \<in> Z \<Longrightarrow> j = i"
  unfolding posse_def by (metis option.inject)

lemma posse_sai:
  assumes "posse Z B m p" "B \<notin> Z" "p i \<in> Z" "q \<notin> insert B Z"
  shows "posse Z B (sai i m) (p(i := q))"
proof -
  have d: "dono m = Some i" using assms(1,3) unfolding posse_def by blast
  have "distinct (i # no_monitor (sai i m))" "\<forall>j \<in> set (no_monitor (sai i m)). p j \<in> insert B Z"
    using assms(1) no_monitor_sai[OF d] unfolding posse_def by auto
  then have D: "distinct (no_monitor (sai i m))" "i \<notin> set (no_monitor (sai i m))"
    "\<And>j. j \<in> set (no_monitor (sai i m)) \<Longrightarrow> p j \<in> insert B Z" by simp_all
  have "\<forall>j \<in> set (no_monitor (sai i m)). (p(i := q)) j \<in> insert B Z"
  proof
    fix j assume j: "j \<in> set (no_monitor (sai i m))"
    then have "j \<noteq> i" using D(2) by blast
    then show "(p(i := q)) j \<in> insert B Z" using D(3)[OF j] by simp
  qed
  moreover have "(p(i := q)) j \<notin> Z" for j using so_um[OF assms(1) d] assms(4) by auto
  ultimately show ?thesis using D(1) unfolding posse_def by blast
qed

lemma posse_aguarda:
  assumes "posse Z B m p" "B \<notin> Z" "p i \<in> Z"
  shows "posse Z B (aguarda i m) (p(i := B))"
proof -
  have d: "dono m = Some i" using assms(1,3) unfolding posse_def by blast
  have "mset (no_monitor (aguarda i m)) = mset (no_monitor m)"
    using d by (auto simp: no_monitor_def aguarda_def sai_def split: list.splits)
  then have "distinct (no_monitor (aguarda i m))" "set (no_monitor (aguarda i m)) = set (no_monitor m)"
    using assms(1) by (auto simp: posse_def dest: mset_eq_setD mset_eq_imp_distinct_iff)
  moreover have "(p(i := B)) j \<notin> Z" for j using so_um[OF assms(1) d] assms(2) by auto
  moreover have "\<forall>j \<in> set (no_monitor m). (p(i := B)) j \<in> insert B Z" using assms(1) unfolding posse_def by simp
  ultimately show ?thesis unfolding posse_def by simp
qed

lemma posse_muda_filas:
  assumes "posse Z B m p" "mset (fila_m m' @ espera m') = mset (fila_m m @ espera m)" "dono m' = dono m"
  shows "posse Z B m' p"
proof -
  have "mset (no_monitor m') = mset (no_monitor m)" using assms(2,3) by (simp add: no_monitor_def)
  then have "set (no_monitor m') = set (no_monitor m)" "distinct (no_monitor m') = distinct (no_monitor m)"
    by (auto dest: mset_eq_setD mset_eq_imp_distinct_iff)
  then show ?thesis using assms(1,3) by (simp add: posse_def)
qed

lemma posse_assinala: "posse Z B m p \<Longrightarrow> posse Z B (assinala i m) p"
  by (erule posse_muda_filas) (simp_all add: assinala_def split: list.splits)

lemma posse_assinala_todos: "posse Z B m p \<Longrightarrow> posse Z B (assinala_todos i m) p"
  by (erule posse_muda_filas) (simp_all add: assinala_todos_def)

lemma posse_anda: "posse Z B m p \<Longrightarrow> dono m = Some i \<Longrightarrow> q \<in> Z \<Longrightarrow> posse Z B m (p(i := q))"
  unfolding posse_def by auto

lemma posse_outro: "posse Z B m p \<Longrightarrow> p i \<notin> insert B Z \<Longrightarrow> q \<notin> insert B Z \<Longrightarrow> posse Z B m (p(i := q))"
  unfolding posse_def by auto

lemma posse_dono: "posse Z B m p \<Longrightarrow> p i \<in> Z \<Longrightarrow> dono m = Some i"
  unfolding posse_def by blast

lemma dono_assinala [simp]: "dono (assinala i m) = dono m" "dono (assinala_todos i m) = dono m"
  by (simp_all add: assinala_def assinala_todos_def split: list.splits)

text \<open>
  A monitor whose threads are exactly the ones that are not outside, and that is free only when
  no thread waits for its mutex.  \<open>l\<close> tells where each thread is.
\<close>

datatype lugar = DeFora | AEspera | LaDentro

definition mon_certo :: "mon_s \<Rightarrow> (nat \<Rightarrow> lugar) \<Rightarrow> bool" where
  "mon_certo m l \<longleftrightarrow>
     posse {LaDentro} AEspera m l \<and> set (no_monitor m) = {j. l j \<noteq> DeFora} \<and> (dono m = None \<longrightarrow> fila_m m = [])"

lemma mon_certo_dono: "mon_certo m l \<Longrightarrow> l i = LaDentro \<Longrightarrow> dono m = Some i"
  by (auto simp: mon_certo_def intro: posse_dono)

lemma mon_certo_no_monitor: "mon_certo m l \<Longrightarrow> j \<in> set (no_monitor m) \<longleftrightarrow> l j \<noteq> DeFora"
  by (simp add: mon_certo_def)

lemma mon_certo_distinct: "mon_certo m l \<Longrightarrow> distinct (espera m)"
  by (simp add: mon_certo_def posse_def no_monitor_def)

lemma mon_certo_fora: "mon_certo m l \<Longrightarrow> l i = DeFora \<Longrightarrow> dono m \<noteq> Some i"
  using mon_certo_no_monitor[of m l i] by (auto simp: no_monitor_def)

lemma mon_certo_novo: "mon_certo mon_novo (\<lambda>_. DeFora)"
  by (simp add: mon_certo_def mon_novo_def posse_def no_monitor_def)

lemma mon_certoI:
  "posse {LaDentro} AEspera m l \<Longrightarrow> set (no_monitor m) = {j. l j \<noteq> DeFora} \<Longrightarrow> (dono m = None \<Longrightarrow> fila_m m = []) \<Longrightarrow>
   mon_certo m l"
  by (simp add: mon_certo_def)

lemma mon_certo_entra:
  assumes "mon_certo m l" "l i = DeFora"
  shows "mon_certo (entra i m) (l(i := AEspera))"
proof (rule mon_certoI)
  have "set (no_monitor (entra i m)) = insert i (set (no_monitor m))"
    using assms(1) by (auto simp: no_monitor_def entra_def mon_certo_def)
  then show "set (no_monitor (entra i m)) = {j. (l(i := AEspera)) j \<noteq> DeFora}"
    using assms(1) by (auto simp: mon_certo_def)
  show "posse {LaDentro} AEspera (entra i m) (l(i := AEspera))"
    using assms posse_entra[of "{LaDentro}" AEspera m l i] by (simp add: mon_certo_def)
qed (simp add: entra_def split: if_splits)

lemma mon_certo_passa:
  "mon_certo m l \<Longrightarrow> dono m = Some i \<Longrightarrow> mon_certo m (l(i := LaDentro))"
  using posse_anda[of "{LaDentro}" AEspera m l i LaDentro]
  by (auto simp: mon_certo_def no_monitor_def)

lemma mon_certo_fica: "mon_certo m l \<Longrightarrow> l i = x \<Longrightarrow> mon_certo m (l(i := x))"
  by (metis fun_upd_triv)

lemma mon_certo_sai:
  assumes "mon_certo m l" "l i = LaDentro"
  shows "mon_certo (sai i m) (l(i := DeFora))"
proof (rule mon_certoI)
  have d: "dono m = Some i" by (rule mon_certo_dono[OF assms])
  have D: "distinct (no_monitor m)" "set (no_monitor m) = {j. l j \<noteq> DeFora}"
    using assms(1) by (simp_all add: mon_certo_def posse_def)
  have "distinct (i # no_monitor (sai i m))" "set (i # no_monitor (sai i m)) = {j. l j \<noteq> DeFora}"
    using D unfolding no_monitor_sai[OF d] .
  then show "set (no_monitor (sai i m)) = {j. (l(i := DeFora)) j \<noteq> DeFora}" by auto
  show "posse {LaDentro} AEspera (sai i m) (l(i := DeFora))"
    using assms posse_sai[of "{LaDentro}" AEspera m l i DeFora] by (simp add: mon_certo_def)
  show "fila_m (sai i m) = []" if "dono (sai i m) = None"
    using d that by (simp add: sai_def split: list.splits)
qed

lemma mon_certo_aguarda:
  assumes "mon_certo m l" "l i = LaDentro"
  shows "mon_certo (aguarda i m) (l(i := AEspera))"
proof (rule mon_certoI)
  have d: "dono m = Some i" by (rule mon_certo_dono[OF assms])
  have "set (no_monitor (aguarda i m)) = set (no_monitor m)"
    using d by (auto simp: no_monitor_def aguarda_def sai_def split: list.splits)
  moreover have "{j. (l(i := AEspera)) j \<noteq> DeFora} = {j. l j \<noteq> DeFora}" using assms(2) by auto
  ultimately show "set (no_monitor (aguarda i m)) = {j. (l(i := AEspera)) j \<noteq> DeFora}"
    using assms(1) by (simp add: mon_certo_def)
  show "posse {LaDentro} AEspera (aguarda i m) (l(i := AEspera))"
    using assms posse_aguarda[of "{LaDentro}" AEspera m l i] by (simp add: mon_certo_def)
  show "fila_m (aguarda i m) = []" if "dono (aguarda i m) = None"
    using d that by (simp add: aguarda_def sai_def split: list.splits)
qed

lemma mon_certo_assinala:
  assumes "mon_certo m l"
  shows "mon_certo (assinala i m) l" "mon_certo (assinala_todos i m) l"
proof -
  have "set (no_monitor (assinala i m)) = set (no_monitor m)" "dono m = None \<longrightarrow> fila_m (assinala i m) = fila_m m"
    by (auto simp: no_monitor_def assinala_def split: list.splits)
  then show "mon_certo (assinala i m) l" using assms posse_assinala by (auto simp: mon_certo_def)
  have "set (no_monitor (assinala_todos i m)) = set (no_monitor m)" "dono m = None \<longrightarrow> fila_m (assinala_todos i m) = fila_m m"
    by (auto simp: no_monitor_def assinala_todos_def)
  then show "mon_certo (assinala_todos i m) l" using assms posse_assinala_todos by (auto simp: mon_certo_def)
qed

text \<open>After leaving or waiting the owner, if any, is a thread that was blocked.\<close>

lemma dono_depois:
  assumes "mon_certo m l" "l i = LaDentro" "dono (sai i m) = Some j \<or> dono (aguarda i m) = Some j"
  shows "j \<noteq> i" "l j = AEspera"
proof -
  have d: "dono m = Some i" by (rule mon_certo_dono[OF assms(1,2)])
  have j: "j \<in> set (fila_m m)" using assms(3) d by (auto simp: aguarda_def sai_def split: list.splits)
  have D: "distinct (no_monitor m)" "\<forall>j \<in> set (no_monitor m). l j \<in> {AEspera, LaDentro}"
    "\<forall>j. l j = LaDentro \<longrightarrow> dono m = Some j"
    using assms(1) by (auto simp: mon_certo_def posse_def)
  show ij: "j \<noteq> i" using D(1) j d by (auto simp: no_monitor_def)
  then show "l j = AEspera" using D(2,3) j d by (auto simp: no_monitor_def)
qed

lemma espera_depois [simp]:
  "espera (entra i m) = espera m" "espera (sai i m) = espera m" "espera (assinala_todos i m) = (if dono m = Some i then [] else espera m)"
  "espera (assinala i m) = (if dono m = Some i then tl (espera m) else espera m)"
  "dono m = Some i \<Longrightarrow> espera (aguarda i m) = espera m @ [i]"
  by (auto simp: entra_def sai_def assinala_todos_def assinala_def aguarda_def split: list.splits)

end
