(* ===== verification/Sincronizacao.thy ===== *)
theory Sincronizacao
  imports FsDados MonitorSinc
begin

text \<open>
  The readers and writers protocol of snfs_server/fs.c with its interleavings: iniciaLeitura,
  terminaLeitura, iniciaEscrita and terminaEscrita cut at every access to a shared variable or a
  monitor, for any number of threads, scheduled in any order.

  The monitors are those of MonitorSinc.
\<close>

section \<open>The protocol\<close>

text \<open>Where a thread is: \<open>LBloq\<close> and \<open>EBloq\<close> are inside a monitor operation that blocks.\<close>

datatype ponto =
    Fora
  | LEntra | LBloq | LTesta | LDec | LInc | LAvisa | Ler | LSinal | LSai
  | EEntra | EBloq | ETesta | EDec | EInc | Escrever | ETurno | ESinal | ESai

record sinc =
  monLeitores :: mon_s
  monEscritores :: mon_s
  n_leitores :: int
  n_escritores :: int
  n_wanna_l :: int
  n_wanna_e :: int
  vez :: int
  ponto_de :: "nat \<Rightarrow> ponto"

definition sinc_inicial :: sinc where
  "sinc_inicial = \<lparr>monLeitores = mon_novo, monEscritores = mon_novo, n_leitores = 0, n_escritores = 0,
     n_wanna_l = 0, n_wanna_e = 0, vez = LEITURA, ponto_de = (\<lambda>_. Fora)\<rparr>"

definition vai :: "nat \<Rightarrow> ponto \<Rightarrow> sinc \<Rightarrow> sinc" where
  "vai i p s = s\<lparr>ponto_de := (ponto_de s)(i := p)\<rparr>"

text \<open>One step of thread \<open>i\<close>; \<open>None\<close> when it cannot move.\<close>

definition anda :: "nat \<Rightarrow> sinc \<Rightarrow> sinc option" where
  "anda i s =
     (case ponto_de s i of
        Fora \<Rightarrow> None
      | LEntra \<Rightarrow> Some (vai i LBloq (s\<lparr>monLeitores := entra i (monLeitores s)\<rparr>))
      | LBloq \<Rightarrow> if dono (monLeitores s) = Some i then Some (vai i LTesta s) else None
      | LTesta \<Rightarrow>
          if n_escritores s \<noteq> 0 \<or> (vez s \<noteq> LEITURA \<and> n_wanna_e s > 0)
          then Some (vai i LBloq (s\<lparr>monLeitores := aguarda i (monLeitores s)\<rparr>))
          else Some (vai i LDec s)
      | LDec \<Rightarrow> Some (vai i LInc (s\<lparr>n_wanna_l := n_wanna_l s - 1\<rparr>))
      | LInc \<Rightarrow> Some (vai i LAvisa (s\<lparr>n_leitores := n_leitores s + 1\<rparr>))
      | LAvisa \<Rightarrow>
          if n_wanna_l s \<noteq> 0 then Some (vai i Ler (s\<lparr>monLeitores := assinala_todos i (monLeitores s)\<rparr>))
          else Some (vai i Ler (s\<lparr>vez := ESCRITA\<rparr>))
      | Ler \<Rightarrow> Some (vai i LSinal (s\<lparr>n_leitores := n_leitores s - 1\<rparr>))
      | LSinal \<Rightarrow>
          Some (vai i LSai (if n_leitores s = 0 then s\<lparr>monEscritores := assinala i (monEscritores s)\<rparr> else s))
      | LSai \<Rightarrow> Some (vai i Fora (s\<lparr>monLeitores := sai i (monLeitores s)\<rparr>))
      | EEntra \<Rightarrow> Some (vai i EBloq (s\<lparr>monEscritores := entra i (monEscritores s)\<rparr>))
      | EBloq \<Rightarrow> if dono (monEscritores s) = Some i then Some (vai i ETesta s) else None
      | ETesta \<Rightarrow>
          if n_escritores s \<noteq> 0 \<or> n_leitores s \<noteq> 0
          then Some (vai i EBloq (s\<lparr>monEscritores := aguarda i (monEscritores s)\<rparr>))
          else Some (vai i EDec s)
      | EDec \<Rightarrow> Some (vai i EInc (s\<lparr>n_wanna_e := n_wanna_e s - 1\<rparr>))
      | EInc \<Rightarrow> Some (vai i Escrever (s\<lparr>n_escritores := n_escritores s + 1\<rparr>))
      | Escrever \<Rightarrow> Some (vai i ETurno (s\<lparr>n_escritores := n_escritores s - 1\<rparr>))
      | ETurno \<Rightarrow> Some (vai i ESinal (s\<lparr>vez := LEITURA\<rparr>))
      | ESinal \<Rightarrow>
          Some (vai i ESai (if n_wanna_l s \<noteq> 0 then s\<lparr>monLeitores := assinala_todos i (monLeitores s)\<rparr>
                            else s\<lparr>monEscritores := assinala i (monEscritores s)\<rparr>))
      | ESai \<Rightarrow> Some (vai i Fora (s\<lparr>monEscritores := sai i (monEscritores s)\<rparr>)))"

text \<open>A thread outside can start either operation; both begin by counting the wish.\<close>

datatype accao = Quer_ler nat | Quer_escrever nat | Anda nat

definition faz :: "accao \<Rightarrow> sinc \<Rightarrow> sinc option" where
  "faz a s =
     (case a of
        Quer_ler i \<Rightarrow> if ponto_de s i = Fora then Some (vai i LEntra (s\<lparr>n_wanna_l := n_wanna_l s + 1\<rparr>)) else None
      | Quer_escrever i \<Rightarrow> if ponto_de s i = Fora then Some (vai i EEntra (s\<lparr>n_wanna_e := n_wanna_e s + 1\<rparr>)) else None
      | Anda i \<Rightarrow> anda i s)"

inductive sinc_passo :: "sinc \<Rightarrow> sinc \<Rightarrow> bool" where
  "faz a s = Some s' \<Longrightarrow> sinc_passo s s'"

inductive sinc_alcanca :: "sinc \<Rightarrow> bool" where
  inicio: "sinc_alcanca sinc_inicial"
| mais: "sinc_alcanca s \<Longrightarrow> sinc_passo s s' \<Longrightarrow> sinc_alcanca s'"

inductive_cases sinc_passoE: "sinc_passo s s'"

fun faz_todas :: "accao list \<Rightarrow> sinc \<Rightarrow> sinc option" where
  "faz_todas [] s = Some s"
| "faz_todas (a # as) s = (case faz a s of None \<Rightarrow> None | Some s' \<Rightarrow> faz_todas as s')"

section \<open>Inside a monitor\<close>

definition zona_l :: "ponto set" where
  "zona_l = {LTesta, LDec, LInc, LAvisa, Ler, LSinal, LSai}"

definition zona_e :: "ponto set" where
  "zona_e = {ETesta, EDec, EInc, Escrever, ETurno, ESinal, ESai}"

section \<open>The invariant\<close>

text \<open>
  \<open>n_leitores\<close> counts the reader between \<open>leitores++\<close> and \<open>leitores--\<close>; it is the owner of its
  monitor, so there is at most one.
\<close>

definition leu :: "nat option \<Rightarrow> (nat \<Rightarrow> ponto) \<Rightarrow> ponto set \<Rightarrow> int" where
  "leu d p Z = (case d of None \<Rightarrow> 0 | Some i \<Rightarrow> if p i \<in> Z then 1 else 0)"

definition sinc_ok :: "sinc \<Rightarrow> bool" where
  "sinc_ok s \<longleftrightarrow>
     posse zona_l LBloq (monLeitores s) (ponto_de s) \<and> posse zona_e EBloq (monEscritores s) (ponto_de s) \<and>
     n_leitores s = leu (dono (monLeitores s)) (ponto_de s) {LAvisa, Ler} \<and>
     n_escritores s = leu (dono (monEscritores s)) (ponto_de s) {Escrever}"

lemma zonas [simp]:
  "LTesta \<in> zona_l" "LDec \<in> zona_l" "LInc \<in> zona_l" "LAvisa \<in> zona_l" "Ler \<in> zona_l" "LSinal \<in> zona_l" "LSai \<in> zona_l"
  "Fora \<notin> zona_l" "LEntra \<notin> zona_l" "LBloq \<notin> zona_l" "EEntra \<notin> zona_l" "EBloq \<notin> zona_l"
  "ETesta \<in> zona_e" "EDec \<in> zona_e" "EInc \<in> zona_e" "Escrever \<in> zona_e" "ETurno \<in> zona_e" "ESinal \<in> zona_e" "ESai \<in> zona_e"
  "Fora \<notin> zona_e" "LEntra \<notin> zona_e" "LBloq \<notin> zona_e" "EEntra \<notin> zona_e" "EBloq \<notin> zona_e"
  "LTesta \<notin> zona_e" "LDec \<notin> zona_e" "LInc \<notin> zona_e" "LAvisa \<notin> zona_e" "Ler \<notin> zona_e" "LSinal \<notin> zona_e" "LSai \<notin> zona_e"
  "ETesta \<notin> zona_l" "EDec \<notin> zona_l" "EInc \<notin> zona_l" "Escrever \<notin> zona_l" "ETurno \<notin> zona_l" "ESinal \<notin> zona_l" "ESai \<notin> zona_l"
  by (simp_all add: zona_l_def zona_e_def)

lemma leu_outro: "d \<noteq> Some i \<Longrightarrow> leu d (p(i := q)) Z = leu d p Z"
  by (auto simp: leu_def split: option.splits)

lemma leu_dono: "d = Some i \<Longrightarrow> leu d (p(i := q)) Z = (if q \<in> Z then 1 else 0)"
  by (simp add: leu_def)

lemma leu_aqui: "d = Some i \<Longrightarrow> leu d p Z = (if p i \<in> Z then 1 else 0)"
  by (simp add: leu_def)

lemma leu_fora:
  assumes "posse Z B m p" "p i \<notin> insert B Z" "W \<subseteq> Z" "q \<notin> W"
  shows "leu (dono m) (p(i := q)) W = leu (dono m) p W"
proof -
  have "dono m \<noteq> Some i" using assms(1,2) by (auto simp: posse_def no_monitor_def)
  then show ?thesis by (rule leu_outro)
qed

text \<open>After a monitor changes hands the new owner has just been unblocked.\<close>

lemma leu_sai:
  assumes "posse Z B m p" "p i \<in> Z" "W \<subseteq> Z" "B \<notin> Z" "q \<notin> W"
  shows "leu (dono (sai i m)) (p(i := q)) W = 0" "leu (dono (aguarda i m)) (p(i := q)) W = 0"
proof -
  have d: "dono m = Some i" by (rule posse_dono[OF assms(1,2)])
  have j: "(p(i := q)) j \<notin> W" for j using so_um[OF assms(1) d] assms(3,5) by auto
  show "leu (dono (sai i m)) (p(i := q)) W = 0" "leu (dono (aguarda i m)) (p(i := q)) W = 0"
    using j by (auto simp: leu_def split: option.splits)
qed

lemma leu_entra:
  assumes "posse Z B m p" "p i \<notin> insert B Z" "W \<subseteq> Z" "B \<notin> Z"
  shows "leu (dono (entra i m)) (p(i := B)) W = leu (dono m) p W"
proof (cases "dono m")
  case None
  then show ?thesis using assms by (auto simp: leu_def entra_def)
next
  case (Some k)
  then have "k \<noteq> i" using assms(1,2) by (auto simp: posse_def no_monitor_def)
  then show ?thesis using Some by (simp add: leu_def entra_def)
qed

lemma leu_dentro: "posse Z B m p \<Longrightarrow> p i \<in> Z \<Longrightarrow> leu (dono m) p W = (if p i \<in> W then 1 else 0)"
  using posse_dono[of Z B m p i] by (simp add: leu_def)

lemma sinc_inicial_ok: "sinc_ok sinc_inicial"
  by (simp add: sinc_ok_def sinc_inicial_def mon_novo_def posse_def no_monitor_def leu_def)

text \<open>A step of a thread inside one zone leaves the other monitor's possession alone.\<close>

lemma anda_ok:
  assumes ok: "sinc_ok s" and a: "anda i s = Some s'"
  shows "sinc_ok s'"
proof -
  let ?p = "ponto_de s" and ?l = "monLeitores s" and ?e = "monEscritores s"
  have L: "posse zona_l LBloq ?l ?p" and E: "posse zona_e EBloq ?e ?p"
    and nl: "n_leitores s = leu (dono ?l) ?p {LAvisa, Ler}" and ne: "n_escritores s = leu (dono ?e) ?p {Escrever}"
    using ok by (auto simp: sinc_ok_def)
  note ll = posse_outro[OF L] posse_outro[OF E] leu_fora[OF L] leu_fora[OF E] posse_dono[OF L] posse_dono[OF E]
    posse_anda[OF L] posse_anda[OF E]
  show ?thesis
  proof (cases "?p i")
    case LEntra
    then show ?thesis using a ll posse_entra[OF L, of i] leu_entra[OF L, of i "{LAvisa, Ler}"] nl ne
      by (auto simp: anda_def vai_def sinc_ok_def)
  next
    case LBloq
    then show ?thesis using a ll nl ne leu_dono[of "dono ?l" i] leu_aqui[of "dono ?l" i] by (auto simp: anda_def vai_def sinc_ok_def split: if_splits)
  next
    case LTesta
    then show ?thesis using a ll nl ne posse_aguarda[OF L, of i] leu_sai[OF L, of i "{LAvisa, Ler}"] leu_dentro[OF L, of i] leu_dono[of "dono ?l" i]
      by (auto simp: anda_def vai_def sinc_ok_def split: if_splits)
  next
    case LDec
    then show ?thesis using a ll nl ne leu_dentro[OF L, of i] leu_dono[of "dono ?l" i]
      by (auto simp: anda_def vai_def sinc_ok_def)
  next
    case LInc
    then show ?thesis using a ll nl ne leu_dentro[OF L, of i] leu_dono[of "dono ?l" i]
      by (auto simp: anda_def vai_def sinc_ok_def)
  next
    case LAvisa
    then show ?thesis using a ll nl ne leu_dentro[OF L, of i] leu_dono[of "dono ?l" i] posse_assinala_todos[OF posse_anda[OF L], of i Ler i]
      by (auto simp: anda_def vai_def sinc_ok_def split: if_splits)
  next
    case Ler
    then show ?thesis using a ll nl ne leu_dentro[OF L, of i] leu_dono[of "dono ?l" i]
      by (auto simp: anda_def vai_def sinc_ok_def)
  next
    case LSinal
    then show ?thesis using a ll nl ne leu_dentro[OF L, of i] leu_dono[of "dono ?l" i] posse_assinala[OF posse_outro[OF E], of i LSai i]
      by (auto simp: anda_def vai_def sinc_ok_def split: if_splits)
  next
    case LSai
    then show ?thesis using a ll nl ne leu_dentro[OF L, of i] posse_sai[OF L, of i Fora] leu_sai[OF L, of i "{LAvisa, Ler}" Fora]
      by (auto simp: anda_def vai_def sinc_ok_def)
  next
    case EEntra
    then show ?thesis using a ll posse_entra[OF E, of i] leu_entra[OF E, of i "{Escrever}"] nl ne
      by (auto simp: anda_def vai_def sinc_ok_def)
  next
    case EBloq
    then show ?thesis using a ll nl ne leu_dono[of "dono ?e" i] leu_aqui[of "dono ?e" i] by (auto simp: anda_def vai_def sinc_ok_def split: if_splits)
  next
    case ETesta
    then show ?thesis using a ll nl ne posse_aguarda[OF E, of i] leu_sai[OF E, of i "{Escrever}"] leu_dentro[OF E, of i] leu_dono[of "dono ?e" i]
      by (auto simp: anda_def vai_def sinc_ok_def split: if_splits)
  next
    case EDec
    then show ?thesis using a ll nl ne leu_dentro[OF E, of i] leu_dono[of "dono ?e" i]
      by (auto simp: anda_def vai_def sinc_ok_def)
  next
    case EInc
    then show ?thesis using a ll nl ne leu_dentro[OF E, of i] leu_dono[of "dono ?e" i]
      by (auto simp: anda_def vai_def sinc_ok_def)
  next
    case Escrever
    then show ?thesis using a ll nl ne leu_dentro[OF E, of i] leu_dono[of "dono ?e" i]
      by (auto simp: anda_def vai_def sinc_ok_def)
  next
    case ETurno
    then show ?thesis using a ll nl ne leu_dentro[OF E, of i] leu_dono[of "dono ?e" i]
      by (auto simp: anda_def vai_def sinc_ok_def)
  next
    case ESinal
    then show ?thesis using a ll nl ne leu_dentro[OF E, of i] leu_dono[of "dono ?e" i] posse_assinala[OF posse_anda[OF E], of i ESai i]
        posse_assinala_todos[OF posse_outro[OF L], of i ESai i]
      by (auto simp: anda_def vai_def sinc_ok_def split: if_splits)
  next
    case ESai
    then show ?thesis using a ll nl ne leu_dentro[OF E, of i] posse_sai[OF E, of i Fora] leu_sai[OF E, of i "{Escrever}" Fora]
      by (auto simp: anda_def vai_def sinc_ok_def)
  qed (use a in \<open>simp add: anda_def\<close>)
qed


lemma faz_ok: "sinc_ok s \<Longrightarrow> faz a s = Some s' \<Longrightarrow> sinc_ok s'"
proof (cases a)
  case (Quer_ler i)
  assume "sinc_ok s" "faz a s = Some s'"
  then show ?thesis using Quer_ler leu_fora[of zona_l LBloq "monLeitores s" "ponto_de s" i] leu_fora[of zona_e EBloq "monEscritores s" "ponto_de s" i]
      posse_outro[of zona_l LBloq "monLeitores s" "ponto_de s" i] posse_outro[of zona_e EBloq "monEscritores s" "ponto_de s" i]
    by (auto simp: faz_def sinc_ok_def vai_def split: if_splits)
next
  case (Quer_escrever i)
  assume "sinc_ok s" "faz a s = Some s'"
  then show ?thesis using Quer_escrever leu_fora[of zona_l LBloq "monLeitores s" "ponto_de s" i] leu_fora[of zona_e EBloq "monEscritores s" "ponto_de s" i]
      posse_outro[of zona_l LBloq "monLeitores s" "ponto_de s" i] posse_outro[of zona_e EBloq "monEscritores s" "ponto_de s" i]
    by (auto simp: faz_def sinc_ok_def vai_def split: if_splits)
qed (auto simp: faz_def dest: anda_ok)

lemma sinc_alcanca_ok: "sinc_alcanca s \<Longrightarrow> sinc_ok s"
  by (induction rule: sinc_alcanca.induct) (auto intro: sinc_inicial_ok faz_ok elim: sinc_passoE)

lemma faz_todas_alcanca: "faz_todas as s = Some s' \<Longrightarrow> sinc_alcanca s \<Longrightarrow> sinc_alcanca s'"
  by (induction as s rule: faz_todas.induct) (auto split: option.splits intro: sinc_alcanca.mais sinc_passo.intros)

lemma um_de_cada:
  assumes "sinc_alcanca s"
  shows "ponto_de s i \<in> zona_l \<Longrightarrow> ponto_de s j \<in> zona_l \<Longrightarrow> i = j"
    "ponto_de s i \<in> zona_e \<Longrightarrow> ponto_de s j \<in> zona_e \<Longrightarrow> i = j"
    "n_leitores s \<in> {0, 1}" "n_escritores s \<in> {0, 1}"
proof -
  have ok: "posse zona_l LBloq (monLeitores s) (ponto_de s)" "posse zona_e EBloq (monEscritores s) (ponto_de s)"
    "n_leitores s = leu (dono (monLeitores s)) (ponto_de s) {LAvisa, Ler}"
    "n_escritores s = leu (dono (monEscritores s)) (ponto_de s) {Escrever}"
    using sinc_alcanca_ok[OF assms] by (auto simp: sinc_ok_def)
  show "ponto_de s i \<in> zona_l \<Longrightarrow> ponto_de s j \<in> zona_l \<Longrightarrow> i = j"
    "ponto_de s i \<in> zona_e \<Longrightarrow> ponto_de s j \<in> zona_e \<Longrightarrow> i = j"
    using posse_dono[OF ok(1)] posse_dono[OF ok(2)] by (metis option.inject)+
  show "n_leitores s \<in> {0, 1}" "n_escritores s \<in> {0, 1}" using ok(3,4) by (auto simp: leu_def split: option.splits)
qed

section \<open>What goes wrong\<close>

text \<open>A reader and a writer together: each tests the other's counter before either counts itself.\<close>

definition corrida :: "accao list" where
  "corrida = [Quer_ler 1, Anda 1, Anda 1, Anda 1, Quer_escrever 2, Anda 2, Anda 2, Anda 2, Anda 1, Anda 1, Anda 1, Anda 2, Anda 2]"

lemma corrida_junta:
  "case faz_todas corrida sinc_inicial of None \<Rightarrow> False
   | Some s \<Rightarrow> ponto_de s 1 = Ler \<and> ponto_de s 2 = Escrever"
  by code_simp

text \<open>A reader that waits while a writer writes is not woken: the writer's signal on the
  readers' monitor is ignored.\<close>

definition esquecido :: "accao list" where
  "esquecido = [Quer_escrever 2, Anda 2, Anda 2, Anda 2, Anda 2, Anda 2, Quer_ler 1, Anda 1, Anda 1, Anda 1,
     Anda 2, Anda 2, Anda 2, Anda 2]"

definition preso :: "nat \<Rightarrow> sinc \<Rightarrow> bool" where
  "preso i s \<longleftrightarrow> ponto_de s i = LBloq \<and> dono (monLeitores s) = None \<and> fila_m (monLeitores s) = [] \<and>
     (\<forall>j. ponto_de s j \<noteq> LEntra)"

lemma esquecido_prende:
  "case faz_todas esquecido sinc_inicial of None \<Rightarrow> False
   | Some s \<Rightarrow> ponto_de s 1 = LBloq \<and> dono (monLeitores s) = None \<and> fila_m (monLeitores s) = [] \<and>
       n_escritores s = 0 \<and> n_leitores s = 0 \<and> ponto_de s 2 = Fora"
  by code_simp

definition sem_leitores_novos :: "accao list \<Rightarrow> bool" where
  "sem_leitores_novos as \<longleftrightarrow> (\<forall>a \<in> set as. \<forall>i. a \<noteq> Quer_ler i)"

lemma preso_passo:
  assumes ok: "sinc_ok s" and p: "preso i s" and a: "faz a s = Some s'" "\<forall>j. a \<noteq> Quer_ler j"
  shows "preso i s'"
proof -
  have L: "posse zona_l LBloq (monLeitores s) (ponto_de s)" using ok by (simp add: sinc_ok_def)
  have nz: "ponto_de s j \<notin> zona_l" for j using posse_dono[OF L, of j] p by (auto simp: preso_def)
  have i: "ponto_de s i = LBloq" "dono (monLeitores s) = None" "fila_m (monLeitores s) = []" "\<And>j. ponto_de s j \<noteq> LEntra"
    using p by (auto simp: preso_def)
  have at: "assinala_todos j (monLeitores s) = monLeitores s" for j using i by (simp add: assinala_todos_def)
  show ?thesis
  proof (cases a)
    case (Quer_escrever j)
    then show ?thesis using a i by (auto simp: faz_def vai_def preso_def split: if_splits)
  next
    case (Anda j)
    then have "anda j s = Some s'" using a by (simp add: faz_def)
    then show ?thesis using i nz[of j] at
      by (cases "ponto_de s j") (auto simp: anda_def vai_def preso_def split: if_splits)
  qed (use a in simp)
qed

lemma preso_sempre:
  "sinc_ok s \<Longrightarrow> preso i s \<Longrightarrow> sem_leitores_novos as \<Longrightarrow> faz_todas as s = Some s' \<Longrightarrow> preso i s'"
proof (induction as s rule: faz_todas.induct)
  case (2 a as s)
  then obtain s1 where s1: "faz a s = Some s1" "faz_todas as s1 = Some s'" by (auto split: option.splits)
  have "preso i s1" by (rule preso_passo[OF 2(2,3) s1(1)]) (use 2(4) in \<open>simp add: sem_leitores_novos_def\<close>)
  then show ?case using 2(1)[OF s1(1) faz_ok[OF 2(2) s1(1)]] s1 2(4) by (simp add: sem_leitores_novos_def)
qed simp

lemma escritores_conta: "sinc_ok s \<Longrightarrow> n_escritores s = 1 \<longleftrightarrow> (\<exists>i. ponto_de s i = Escrever)"
proof -
  assume ok: "sinc_ok s"
  have d: "dono (monEscritores s) = Some i" if "ponto_de s i = Escrever" for i
    by (rule posse_dono[of zona_e EBloq _ "ponto_de s"]) (use ok that in \<open>simp_all add: sinc_ok_def\<close>)
  have n: "n_escritores s = leu (dono (monEscritores s)) (ponto_de s) {Escrever}" using ok by (simp add: sinc_ok_def)
  show ?thesis
  proof
    assume "n_escritores s = 1"
    then show "\<exists>i. ponto_de s i = Escrever" using n by (auto simp: leu_def split: option.splits if_splits)
  next
    assume "\<exists>i. ponto_de s i = Escrever"
    then obtain i where i: "ponto_de s i = Escrever" by blast
    then show "n_escritores s = 1" using n d[OF i] by (simp add: leu_def)
  qed
qed

lemma faz_todas_append: "faz_todas (as @ bs) s = (case faz_todas as s of None \<Rightarrow> None | Some s' \<Rightarrow> faz_todas bs s')"
  by (induction as s rule: faz_todas.induct) (auto split: option.splits)

lemma esquecido_preso: "case faz_todas esquecido sinc_inicial of None \<Rightarrow> False | Some s \<Rightarrow> preso 1 s"
  by (simp add: esquecido_def faz_def anda_def vai_def sinc_inicial_def mon_novo_def entra_def sai_def aguarda_def
      assinala_def assinala_todos_def preso_def LEITURA_def ESCRITA_def)

end
