(* ===== verification/Monitores.thy ===== *)
theory Monitores
  imports Despacho Sincronizacao
begin

text \<open>
  The monitor of MonitorSinc is the one of the scheduler: each monitor call of sthread_user.c,
  seen through \<open>mon_de\<close>, is the corresponding operation on an owner and two queues.
\<close>

definition mon_de :: "sched \<Rightarrow> addr \<Rightarrow> mon_s option" where
  "mon_de s mon =
     (case monitors s mon of
        None \<Rightarrow> None
      | Some mn \<Rightarrow>
          (case mutexes s (mutex mn) of
             None \<Rightarrow> None
           | Some mx \<Rightarrow> Some \<lparr>dono = (if thr mx = NULL then None else Some (thr mx)), fila_m = queue_m mx, espera = queue_mon mn\<rparr>))"

lemma mon_deE:
  assumes "mon_de s mon = Some m"
  obtains mn mx where "monitors s mon = Some mn" "mutexes s (mutex mn) = Some mx"
    "m = \<lparr>dono = (if thr mx = NULL then None else Some (thr mx)), fila_m = queue_m mx, espera = queue_mon mn\<rparr>"
  using assms by (auto simp: mon_de_def split: option.splits)

lemma monitores_campos:
  "muda_thread g s a = Inr s' \<Longrightarrow> mutexes s' = mutexes s \<and> monitors s' = monitors s"
  "RBInserir s a = Inr s' \<Longrightarrow> mutexes s' = mutexes s \<and> monitors s' = monitors s"
  "proxima_thread s = Inr s' \<Longrightarrow> mutexes s' = mutexes s \<and> monitors s' = monitors s"
  "sthread_switch s a c = Inr s' \<Longrightarrow> mutexes s' = mutexes s \<and> monitors s' = monitors s"
  "muda_mutex h s a = Inr s' \<Longrightarrow> monitors s' = monitors s"
  by (auto simp: muda_thread_def RBInserir_def proxima_thread_def sthread_switch_def muda_mutex_def bindr_Inr_iff split: prod.splits)

lemma fim_mon_wait_campos: "fim_mon_wait s = Inr s' \<Longrightarrow> mutexes s' = mutexes s \<and> monitors s' = monitors s"
  using monitores_campos by (fastforce simp: fim_mon_wait_def Let_def bindr_Inr_iff splx_high_def)

lemma unlock_monitores: "sthread_user_mutex_unlock s m = Inr s' \<Longrightarrow> monitors s' = monitors s"
  unfolding sthread_user_mutex_unlock_def Let_def fim_unlock_def
  by (fastforce simp: bindr_Inr_iff splx_high_def splx_low_def split: if_splits list.splits dest!: monitores_campos)

text \<open>The mutex after an unlock.\<close>

lemma unlock_mutex:
  assumes "mutexes s m = Some mx" "sthread_user_mutex_unlock s m = Inr s'"
  shows "\<exists>b. mutexes s' m = Some (if thr mx \<noteq> active_thr s then mx
     else case queue_m mx of [] \<Rightarrow> mx\<lparr>thr := NULL, l := False\<rparr> | w # ws \<Rightarrow> mx\<lparr>thr := w, queue_m := ws, l := b\<rparr>)"
proof (cases "thr mx = active_thr s")
  case True
  have nl: "\<not> l mx" using assms True by (auto simp: sthread_user_mutex_unlock_def mutex_em_def)
  show ?thesis
  proof (cases "queue_m mx")
    case Nil
    then show ?thesis using assms True nl by (auto simp: sthread_user_mutex_unlock_def mutex_em_def muda_mutex_ok)
  next
    case (Cons w ws)
    then show ?thesis using unlock_passa[OF assms(1) True nl Cons assms(2)] True by auto
  qed
next
  case False
  then show ?thesis using so_o_dono(1)[OF assms(1) False] assms by auto
qed

lemma exit_monitor:
  assumes "sched_ok s" "mon_de s mon = Some m" "sthread_user_monitor_exit s mon = Inr s'"
  shows "mon_de s' mon = Some (sai (active_thr s) m)"
proof -
  obtain mn mx where m: "monitors s mon = Some mn" "mutexes s (mutex mn) = Some mx"
    "m = \<lparr>dono = (if thr mx = NULL then None else Some (thr mx)), fila_m = queue_m mx, espera = queue_mon mn\<rparr>"
    using mon_deE[OF assms(2)] .
  have u: "sthread_user_mutex_unlock s (mutex mn) = Inr s'" using assms(3) m(1) by (simp add: sthread_user_monitor_exit_def monitor_em_def)
  obtain b where b: "mutexes s' (mutex mn) = Some (if thr mx \<noteq> active_thr s then mx
     else case queue_m mx of [] \<Rightarrow> mx\<lparr>thr := NULL, l := False\<rparr> | w # ws \<Rightarrow> mx\<lparr>thr := w, queue_m := ws, l := b\<rparr>)"
    using unlock_mutex[OF m(2) u] by blast
  have ok: "mutex_ok mx" "active_thr s \<noteq> NULL" using assms(1) m(2) mutexes_okD by (auto simp: sched_ok_def estrutura_def)
  have "monitors s' mon = Some mn" using unlock_monitores[OF u] m(1) by simp
  then show ?thesis using b ok m(3) by (auto simp: mon_de_def sai_def mutex_ok_def split: list.splits)
qed

lemma enter_monitor:
  assumes "sched_ok s" "mon_de s mon = Some m" "sthread_user_monitor_enter s mon = Inr s'"
  shows "mon_de s' mon = Some (entra (active_thr s) m)"
proof -
  obtain mn mx where m: "monitors s mon = Some mn" "mutexes s (mutex mn) = Some mx"
    "m = \<lparr>dono = (if thr mx = NULL then None else Some (thr mx)), fila_m = queue_m mx, espera = queue_mon mn\<rparr>"
    using mon_deE[OF assms(2)] .
  have u: "sthread_user_mutex_lock s (mutex mn) = Inr s'" using assms(3) m(1) by (simp add: sthread_user_monitor_enter_def monitor_em_def)
  have a: "active_thr s \<noteq> NULL" using assms(1) by (simp add: sched_ok_def)
  have nl: "\<not> l mx" using u m(2) by (auto simp: sthread_user_mutex_lock_def mutex_em_def)
  show ?thesis
  proof (cases "thr mx = NULL")
    case True
    then show ?thesis using u m a nl by (auto simp: sthread_user_mutex_lock_def mutex_em_def muda_mutex_ok mon_de_def entra_def)
  next
    case False
    let ?s1 = "splx_high (s\<lparr>mutexes := (mutexes s)(mutex mn \<mapsto> mx\<lparr>queue_m := queue_m mx @ [active_thr s], l := False\<rparr>)\<rparr>)"
    obtain s2 where "proxima_thread ?s1 = Inr s2" "sthread_switch s2 (active_thr s) Retorna = Inr s'"
      using u m(2) False nl
      by (auto simp: sthread_user_mutex_lock_def mutex_em_def muda_mutex_ok Let_def bindr_Inr_iff splx_high_def)
    then have "mutexes s' = mutexes ?s1" "monitors s' = monitors s"
      using monitores_campos(3,4) by (fastforce simp: splx_high_def)+
    then show ?thesis using m False by (simp add: mon_de_def entra_def splx_high_def)
  qed
qed

lemma wait_monitor:
  assumes "sched_ok s" "mon_de s mon = Some m" "sthread_user_monitor_wait s mon = Inr s'"
  shows "mon_de s' mon = Some (aguarda (active_thr s) m)"
proof -
  obtain mn mx where m: "monitors s mon = Some mn" "mutexes s (mutex mn) = Some mx"
    "m = \<lparr>dono = (if thr mx = NULL then None else Some (thr mx)), fila_m = queue_m mx, espera = queue_mon mn\<rparr>"
    using mon_deE[OF assms(2)] .
  have ok: "mutex_ok mx" "active_thr s \<noteq> NULL" using assms(1) m(2) mutexes_okD by (auto simp: sched_ok_def estrutura_def)
  show ?thesis
  proof (cases "thr mx = active_thr s")
    case False
    then show ?thesis using so_o_dono(2)[OF m(2) False m(1) refl] assms(2,3) m(3) by (auto simp: aguarda_def)
  next
    case True
    let ?mn = "mn\<lparr>queue_mon := queue_mon mn @ [active_thr s]\<rparr>"
    let ?s1 = "s\<lparr>monitors := (monitors s)(mon \<mapsto> ?mn), conts := (conts s)(active_thr s := FimMonWait # conts s (active_thr s))\<rparr>"
    obtain s2 where s2: "sthread_user_mutex_unlock ?s1 (mutex mn) = Inr s2"
      "s' = s2 \<or> fim_mon_wait (s2\<lparr>conts := (conts s2)(active_thr s := conts s (active_thr s))\<rparr>) = Inr s'"
      using assms(3) m True
      by (auto simp: sthread_user_monitor_wait_def monitor_em_def mutex_em_def muda_monitor_def Let_def bindr_Inr_iff split: if_splits)
    have eq: "mutexes s' = mutexes s2" "monitors s' = monitors s2"
      using s2(2) fim_mon_wait_campos by fastforce+
    obtain b where b: "mutexes s2 (mutex mn) = Some (case queue_m mx of [] \<Rightarrow> mx\<lparr>thr := NULL, l := False\<rparr>
        | w # ws \<Rightarrow> mx\<lparr>thr := w, queue_m := ws, l := b\<rparr>)"
      using unlock_mutex[of ?s1 "mutex mn" mx, OF _ s2(1)] m(2) True by auto
    have "monitors s2 mon = Some ?mn" using unlock_monitores[OF s2(1)] by simp
    then show ?thesis using b eq m(3) ok True
      by (auto simp: mon_de_def aguarda_def sai_def mutex_ok_def split: list.splits)
  qed
qed

lemma signal_monitor:
  assumes "sched_ok s" "mon_de s mon = Some m" "sthread_user_monitor_signal s mon = Inr s'"
  shows "mon_de s' mon = Some (assinala (active_thr s) m)"
proof -
  obtain mn mx where m: "monitors s mon = Some mn" "mutexes s (mutex mn) = Some mx"
    "m = \<lparr>dono = (if thr mx = NULL then None else Some (thr mx)), fila_m = queue_m mx, espera = queue_mon mn\<rparr>"
    using mon_deE[OF assms(2)] .
  have a: "active_thr s \<noteq> NULL" using assms(1) by (simp add: sched_ok_def)
  show ?thesis
  proof (cases "thr mx = active_thr s")
    case False
    then show ?thesis using so_o_dono(3)[OF m(2) False m(1) refl] assms(2,3) m(3) by (auto simp: assinala_def)
  next
    case True
    then show ?thesis using assms(3) m a
      by (auto simp: sthread_user_monitor_signal_def monitor_em_def mutex_em_def muda_mutex_ok muda_mutex_def muda_monitor_def
          bindr_Inr_iff mon_de_def assinala_def split: if_splits list.splits)
  qed
qed

lemma passa_todas_mutex:
  "passa_todas s m ws = Inr s' \<Longrightarrow> mutexes s m = Some mx \<Longrightarrow>
   mutexes s' m = Some (mx\<lparr>queue_m := queue_m mx @ ws\<rparr>) \<and> monitors s' = monitors s"
proof (induction ws arbitrary: s mx)
  case (Cons w ws)
  then have "passa_todas (s\<lparr>mutexes := (mutexes s)(m \<mapsto> mx\<lparr>queue_m := queue_m mx @ [w]\<rparr>)\<rparr>) m ws = Inr s'"
    by (simp add: muda_mutex_ok)
  from Cons.IH[OF this] show ?case by simp
qed simp

lemma signalall_monitor:
  assumes "sched_ok s" "mon_de s mon = Some m" "sthread_user_monitor_signalall s mon = Inr s'"
  shows "mon_de s' mon = Some (assinala_todos (active_thr s) m)"
proof -
  obtain mn mx where m: "monitors s mon = Some mn" "mutexes s (mutex mn) = Some mx"
    "m = \<lparr>dono = (if thr mx = NULL then None else Some (thr mx)), fila_m = queue_m mx, espera = queue_mon mn\<rparr>"
    using mon_deE[OF assms(2)] .
  have a: "active_thr s \<noteq> NULL" using assms(1) by (simp add: sched_ok_def)
  show ?thesis
  proof (cases "thr mx = active_thr s")
    case False
    then show ?thesis using so_o_dono(4)[OF m(2) False m(1) refl] assms(2,3) m(3) by (auto simp: assinala_todos_def)
  next
    case True
    then obtain s1 where "passa_todas s (mutex mn) (queue_mon mn) = Inr s1"
      "bindr (muda_monitor (queue_mon_update (\<lambda>_. [])) s1 mon) (\<lambda>s. muda_mutex (l_update (\<lambda>_. False)) s (mutex mn)) = Inr s'"
      using assms(3) m by (auto simp: sthread_user_monitor_signalall_def monitor_em_def mutex_em_def bindr_Inr_iff split: if_splits)
    with passa_todas_mutex[OF this(1) m(2)] m True a show ?thesis
      by (auto simp: muda_monitor_def muda_mutex_def bindr_Inr_iff mon_de_def assinala_todos_def)
  qed
qed

end
