(* ===== verification/AnelConcorrente.thy ===== *)
theory AnelConcorrente
  imports Servidor MonitorSinc
begin

text \<open>
  The threads of snfs_server/server.c with their interleavings: thread 0 is thread_producer,
  threads 1 to NUM_TC are thread_consumer, cut at every access to the ring, to the number of
  requests or to the monitor, and scheduled in any order.

  The requests are not interpreted: serving one is a step that takes it off the hands of its
  thread.  The monitor is the one of MonitorSinc.
\<close>

section \<open>The threads\<close>

definition NUM_TC :: nat where
  "NUM_TC = 5"

text \<open>
  Where a thread is; the local variable \<open>req_d\<close> is the argument.  \<open>PBloq\<close>, \<open>PBloq2\<close> and \<open>CBloq\<close>
  are inside a monitor operation that blocks.  \<open>Sem\<close>: there is no such thread.
\<close>

datatype 'r ponto_s =
    Sem
  | PEntra | PBloq | PTesta | PSai | PRecebe | PEntra2 'r | PBloq2 'r | PPoe 'r | PConta | PAvisa | PSai2
  | CEntra | CBloq | CTesta | CTira | CConta 'r | CAvisa 'r | CSai 'r | CServe 'r

text \<open>\<open>postos\<close>, \<open>tirados\<close> and \<open>servidos\<close> record the requests that passed through the threads.\<close>

record 'r servidor =
  mon_r :: mon_s
  anel_r :: "'r anel"
  ponto_r :: "nat \<Rightarrow> 'r ponto_s"
  postos :: "'r list"
  tirados :: "'r list"
  servidos :: "'r list"

definition servidor_inicial :: "'r servidor" where
  "servidor_inicial = \<lparr>mon_r = mon_novo, anel_r = anel_vazio,
     ponto_r = (\<lambda>i. if i = 0 then PEntra else if i \<le> NUM_TC then CEntra else Sem),
     postos = [], tirados = [], servidos = []\<rparr>"

definition vai_r :: "nat \<Rightarrow> 'r ponto_s \<Rightarrow> 'r servidor \<Rightarrow> 'r servidor" where
  "vai_r i p s = s\<lparr>ponto_r := (ponto_r s)(i := p)\<rparr>"

text \<open>
  One step of the producer and of a consumer; \<open>Blocked\<close> when the thread cannot move by itself.
  The producer at \<open>PRecebe\<close> moves when a message arrives.
\<close>

definition producer :: "nat \<Rightarrow> 'r servidor \<Rightarrow> 'r servidor res" where
  "producer i s =
     (case ponto_r s i of
        PEntra \<Rightarrow> Inr (vai_r i PBloq (s\<lparr>mon_r := entra i (mon_r s)\<rparr>))
      | PBloq \<Rightarrow> if dono (mon_r s) = Some i then Inr (vai_r i PTesta s) else Inl Blocked
      | PTesta \<Rightarrow>
          if available_reqs (anel_r s) = RING_SIZE then Inr (vai_r i PBloq (s\<lparr>mon_r := aguarda i (mon_r s)\<rparr>))
          else Inr (vai_r i PSai s)
      | PSai \<Rightarrow> Inr (vai_r i PRecebe (s\<lparr>mon_r := sai i (mon_r s)\<rparr>))
      | PRecebe \<Rightarrow> Inl Blocked
      | PEntra2 r \<Rightarrow> Inr (vai_r i (PBloq2 r) (s\<lparr>mon_r := entra i (mon_r s)\<rparr>))
      | PBloq2 r \<Rightarrow> if dono (mon_r s) = Some i then Inr (vai_r i (PPoe r) s) else Inl Blocked
      | PPoe r \<Rightarrow>
          bindr (put_req (anel_r s) r) (\<lambda>a. Inr (vai_r i PConta (s\<lparr>anel_r := a, postos := postos s @ [r]\<rparr>)))
      | PConta \<Rightarrow>
          Inr (vai_r i PAvisa (s\<lparr>anel_r := (anel_r s)\<lparr>available_reqs := available_reqs (anel_r s) + 1\<rparr>\<rparr>))
      | PAvisa \<Rightarrow> Inr (vai_r i PSai2 (s\<lparr>mon_r := assinala_todos i (mon_r s)\<rparr>))
      | PSai2 \<Rightarrow> Inr (vai_r i PEntra (s\<lparr>mon_r := sai i (mon_r s)\<rparr>))
      | _ \<Rightarrow> Inl Blocked)"

text \<open>Serving is one step: what it does to the file system and sends back is thread_consumer of Servidor.\<close>

definition consumer :: "nat \<Rightarrow> 'r servidor \<Rightarrow> 'r servidor res" where
  "consumer i s =
     (case ponto_r s i of
        CEntra \<Rightarrow> Inr (vai_r i CBloq (s\<lparr>mon_r := entra i (mon_r s)\<rparr>))
      | CBloq \<Rightarrow> if dono (mon_r s) = Some i then Inr (vai_r i CTesta s) else Inl Blocked
      | CTesta \<Rightarrow>
          if available_reqs (anel_r s) = 0 then Inr (vai_r i CBloq (s\<lparr>mon_r := aguarda i (mon_r s)\<rparr>))
          else Inr (vai_r i CTira s)
      | CTira \<Rightarrow>
          bindr (get_req (anel_r s)) (\<lambda>(r, a).
          case r of
            None \<Rightarrow> Inl (BadAddr NULL)
          | Some r \<Rightarrow> Inr (vai_r i (CConta r) (s\<lparr>anel_r := a, tirados := tirados s @ [r]\<rparr>)))
      | CConta r \<Rightarrow>
          Inr (vai_r i (CAvisa r) (s\<lparr>anel_r := (anel_r s)\<lparr>available_reqs := available_reqs (anel_r s) - 1\<rparr>\<rparr>))
      | CAvisa r \<Rightarrow> Inr (vai_r i (CSai r) (s\<lparr>mon_r := assinala i (mon_r s)\<rparr>))
      | CSai r \<Rightarrow> Inr (vai_r i (CServe r) (s\<lparr>mon_r := sai i (mon_r s)\<rparr>))
      | CServe r \<Rightarrow> Inr (vai_r i CEntra (s\<lparr>servidos := servidos s @ [r]\<rparr>))
      | _ \<Rightarrow> Inl Blocked)"

text \<open>A thread runs the function its point belongs to.\<close>

definition produtor :: "'r ponto_s \<Rightarrow> bool" where
  "produtor p =
     (case p of PEntra \<Rightarrow> True | PBloq \<Rightarrow> True | PTesta \<Rightarrow> True | PSai \<Rightarrow> True | PRecebe \<Rightarrow> True | PEntra2 _ \<Rightarrow> True
      | PBloq2 _ \<Rightarrow> True | PPoe _ \<Rightarrow> True | PConta \<Rightarrow> True | PAvisa \<Rightarrow> True | PSai2 \<Rightarrow> True | _ \<Rightarrow> False)"

definition anda_r :: "nat \<Rightarrow> 'r servidor \<Rightarrow> 'r servidor res" where
  "anda_r i s = (if produtor (ponto_r s i) then producer i s else consumer i s)"

lemma anda_r_casos:
  "anda_r i s =
     (case ponto_r s i of
        Sem \<Rightarrow> Inl Blocked
      | PEntra \<Rightarrow> Inr (vai_r i PBloq (s\<lparr>mon_r := entra i (mon_r s)\<rparr>))
      | PBloq \<Rightarrow> if dono (mon_r s) = Some i then Inr (vai_r i PTesta s) else Inl Blocked
      | PTesta \<Rightarrow>
          if available_reqs (anel_r s) = RING_SIZE then Inr (vai_r i PBloq (s\<lparr>mon_r := aguarda i (mon_r s)\<rparr>))
          else Inr (vai_r i PSai s)
      | PSai \<Rightarrow> Inr (vai_r i PRecebe (s\<lparr>mon_r := sai i (mon_r s)\<rparr>))
      | PRecebe \<Rightarrow> Inl Blocked
      | PEntra2 r \<Rightarrow> Inr (vai_r i (PBloq2 r) (s\<lparr>mon_r := entra i (mon_r s)\<rparr>))
      | PBloq2 r \<Rightarrow> if dono (mon_r s) = Some i then Inr (vai_r i (PPoe r) s) else Inl Blocked
      | PPoe r \<Rightarrow>
          bindr (put_req (anel_r s) r) (\<lambda>a. Inr (vai_r i PConta (s\<lparr>anel_r := a, postos := postos s @ [r]\<rparr>)))
      | PConta \<Rightarrow>
          Inr (vai_r i PAvisa (s\<lparr>anel_r := (anel_r s)\<lparr>available_reqs := available_reqs (anel_r s) + 1\<rparr>\<rparr>))
      | PAvisa \<Rightarrow> Inr (vai_r i PSai2 (s\<lparr>mon_r := assinala_todos i (mon_r s)\<rparr>))
      | PSai2 \<Rightarrow> Inr (vai_r i PEntra (s\<lparr>mon_r := sai i (mon_r s)\<rparr>))
      | CEntra \<Rightarrow> Inr (vai_r i CBloq (s\<lparr>mon_r := entra i (mon_r s)\<rparr>))
      | CBloq \<Rightarrow> if dono (mon_r s) = Some i then Inr (vai_r i CTesta s) else Inl Blocked
      | CTesta \<Rightarrow>
          if available_reqs (anel_r s) = 0 then Inr (vai_r i CBloq (s\<lparr>mon_r := aguarda i (mon_r s)\<rparr>))
          else Inr (vai_r i CTira s)
      | CTira \<Rightarrow>
          bindr (get_req (anel_r s)) (\<lambda>(r, a).
          case r of
            None \<Rightarrow> Inl (BadAddr NULL)
          | Some r \<Rightarrow> Inr (vai_r i (CConta r) (s\<lparr>anel_r := a, tirados := tirados s @ [r]\<rparr>)))
      | CConta r \<Rightarrow>
          Inr (vai_r i (CAvisa r) (s\<lparr>anel_r := (anel_r s)\<lparr>available_reqs := available_reqs (anel_r s) - 1\<rparr>\<rparr>))
      | CAvisa r \<Rightarrow> Inr (vai_r i (CSai r) (s\<lparr>mon_r := assinala i (mon_r s)\<rparr>))
      | CSai r \<Rightarrow> Inr (vai_r i (CServe r) (s\<lparr>mon_r := sai i (mon_r s)\<rparr>))
      | CServe r \<Rightarrow> Inr (vai_r i CEntra (s\<lparr>servidos := servidos s @ [r]\<rparr>)))"
  by (simp add: anda_r_def producer_def consumer_def produtor_def split: ponto_s.splits)

text \<open>
  What a recvfrom that does not block brings: nothing yet, after which my_recvfrom asks again, or
  the size of a message, negative on error.  srv_recv_request ends the server on an error; a size
  of 0 inserts nothing.
\<close>

datatype 'r chegada = EAGAIN | Chegou int 'r

definition srv_recv_request :: "int \<Rightarrow> int res" where
  "srv_recv_request status = (if status = 0 then Inr 0 else if status < 0 then Inl (Exited (-1)) else Inr status)"

definition my_recvfrom :: "'r chegada \<Rightarrow> 'r servidor \<Rightarrow> 'r servidor res" where
  "my_recvfrom c s =
     (if ponto_r s 0 \<noteq> PRecebe then Inl Blocked
      else case c of
        EAGAIN \<Rightarrow> Inr s
      | Chegou n r \<Rightarrow>
          bindr (srv_recv_request n) (\<lambda>reqsz. Inr (vai_r 0 (if reqsz = 0 then PEntra else PEntra2 r) s)))"

datatype 'r accao_r = Passa nat | Recebe "'r chegada"

definition faz_r :: "'r accao_r \<Rightarrow> 'r servidor \<Rightarrow> 'r servidor res" where
  "faz_r a s = (case a of Passa i \<Rightarrow> anda_r i s | Recebe c \<Rightarrow> my_recvfrom c s)"

inductive servidor_passo :: "'r servidor \<Rightarrow> 'r servidor \<Rightarrow> bool" where
  "faz_r a s = Inr s' \<Longrightarrow> servidor_passo s s'"

inductive servidor_alcanca :: "'r servidor \<Rightarrow> bool" where
  inicio_r: "servidor_alcanca servidor_inicial"
| mais_r: "servidor_alcanca s \<Longrightarrow> servidor_passo s s' \<Longrightarrow> servidor_alcanca s'"

inductive_cases servidor_passoE: "servidor_passo s s'"

fun faz_todas_r :: "'r accao_r list \<Rightarrow> 'r servidor \<Rightarrow> 'r servidor res" where
  "faz_todas_r [] s = Inr s"
| "faz_todas_r (a # as) s = bindr (faz_r a s) (faz_todas_r as)"

section \<open>The invariant\<close>

definition onde :: "'r ponto_s \<Rightarrow> lugar" where
  "onde p =
     (case p of
        PBloq \<Rightarrow> AEspera | PBloq2 _ \<Rightarrow> AEspera | CBloq \<Rightarrow> AEspera
      | PTesta \<Rightarrow> LaDentro | PSai \<Rightarrow> LaDentro | PPoe _ \<Rightarrow> LaDentro | PConta \<Rightarrow> LaDentro | PAvisa \<Rightarrow> LaDentro | PSai2 \<Rightarrow> LaDentro
      | CTesta \<Rightarrow> LaDentro | CTira \<Rightarrow> LaDentro | CConta _ \<Rightarrow> LaDentro | CAvisa _ \<Rightarrow> LaDentro | CSai _ \<Rightarrow> LaDentro
      | _ \<Rightarrow> DeFora)"

text \<open>Thread 0 is the producer and the next NUM_TC are consumers.\<close>

definition papel :: "nat \<Rightarrow> 'r ponto_s \<Rightarrow> bool" where
  "papel i p \<longleftrightarrow> (if i = 0 then produtor p else if i \<le> NUM_TC then \<not> produtor p \<and> p \<noteq> Sem else p = Sem)"

text \<open>The request a thread has taken from the ring and not yet served.\<close>

definition na_mao :: "'r ponto_s \<Rightarrow> 'r multiset" where
  "na_mao p = (case p of CConta r \<Rightarrow> {#r#} | CAvisa r \<Rightarrow> {#r#} | CSai r \<Rightarrow> {#r#} | CServe r \<Rightarrow> {#r#} | _ \<Rightarrow> {#})"

definition maos :: "(nat \<Rightarrow> 'r ponto_s) \<Rightarrow> 'r multiset" where
  "maos p = (\<Sum>i \<in> {1..NUM_TC}. na_mao (p i))"

definition ponto_dono :: "'r servidor \<Rightarrow> 'r ponto_s" where
  "ponto_dono s = (case dono (mon_r s) of None \<Rightarrow> Sem | Some j \<Rightarrow> ponto_r s j)"

text \<open>The points between changing the ring, counting the change and signalling it.\<close>

definition a_contar :: "'r ponto_s \<Rightarrow> int" where
  "a_contar p = (case p of PConta \<Rightarrow> 1 | CConta _ \<Rightarrow> -1 | _ \<Rightarrow> 0)"

definition vai_avisar_p :: "'r ponto_s \<Rightarrow> bool" where
  "vai_avisar_p p = (case p of PConta \<Rightarrow> True | PAvisa \<Rightarrow> True | _ \<Rightarrow> False)"

definition vai_avisar_c :: "'r ponto_s \<Rightarrow> bool" where
  "vai_avisar_c p = (case p of CConta _ \<Rightarrow> True | CAvisa _ \<Rightarrow> True | _ \<Rightarrow> False)"

definition tem_lugar :: "'r ponto_s \<Rightarrow> bool" where
  "tem_lugar p = (case p of PSai \<Rightarrow> True | PRecebe \<Rightarrow> True | PEntra2 _ \<Rightarrow> True | PBloq2 _ \<Rightarrow> True | PPoe _ \<Rightarrow> True | _ \<Rightarrow> False)"

text \<open>
  \<open>combina d p n av es\<close>: the owner of the monitor is at \<open>d\<close>, the producer at \<open>p\<close>, the ring has \<open>n\<close>
  requests and the counter says \<open>av\<close>; of the threads in the waiting queue \<open>es\<close> the producer
  waits because the ring is full, the consumers because it is empty, or the owner is about to
  signal.
\<close>

definition combina :: "'r ponto_s \<Rightarrow> 'r ponto_s \<Rightarrow> nat \<Rightarrow> nat \<Rightarrow> nat list \<Rightarrow> bool" where
  "combina d p n av es \<longleftrightarrow>
     int av = int n - a_contar d \<and> (tem_lugar p \<longrightarrow> n < RING_SIZE) \<and> (d = CTira \<longrightarrow> n \<noteq> 0) \<and>
     (0 \<in> set es \<longrightarrow> n = RING_SIZE \<or> vai_avisar_c d \<and> n + 1 = RING_SIZE) \<and>
     (\<forall>i \<in> set es. i \<noteq> 0 \<longrightarrow> n = 0 \<or> vai_avisar_p d)"

definition servidor_ok :: "'r list \<Rightarrow> 'r servidor \<Rightarrow> bool" where
  "servidor_ok q s \<longleftrightarrow>
     mon_certo (mon_r s) (onde \<circ> ponto_r s) \<and> (\<forall>i. papel i (ponto_r s i)) \<and>
     anel_ok ((anel_r s)\<lparr>available_reqs := length q\<rparr>) q \<and> postos s = tirados s @ q \<and>
     mset (tirados s) = mset (servidos s) + maos (ponto_r s) \<and>
     combina (ponto_dono s) (ponto_r s 0) (length q) (available_reqs (anel_r s)) (espera (mon_r s))"

section \<open>The steps keep it\<close>

lemmas pontos = onde_def produtor_def na_mao_def a_contar_def vai_avisar_p_def vai_avisar_c_def tem_lugar_def

lemma put_req_ok:
  assumes "anel_ok (a\<lparr>available_reqs := length q\<rparr>) q" "length q < RING_SIZE"
  shows "\<exists>a'. put_req a r = Inr a' \<and> available_reqs a' = available_reqs a \<and>
    anel_ok (a'\<lparr>available_reqs := length (q @ [r])\<rparr>) (q @ [r])"
proof -
  have p: "pos_put a < length (ring a)" using assms(1) by (simp add: anel_ok_def RING_SIZE_def)
  then have "produz (a\<lparr>available_reqs := length q\<rparr>) r 1 =
      Inr (a\<lparr>ring := (ring a)[pos_put a := Some r], pos_put := (pos_put a + 1) mod RING_SIZE, available_reqs := length q + 1\<rparr>)"
    using assms(2) by (simp add: produz_def put_req_def)
  with produz_ok[OF assms, of 1 r] p show ?thesis by (simp add: put_req_def)
qed

lemma get_req_ok:
  assumes "anel_ok (a\<lparr>available_reqs := length (r # q)\<rparr>) (r # q)"
  shows "\<exists>a'. get_req a = Inr (Some r, a') \<and> available_reqs a' = available_reqs a \<and>
    anel_ok (a'\<lparr>available_reqs := length q\<rparr>) q"
proof -
  have p: "pos_get a < length (ring a)" using assms(1) by (simp add: anel_ok_def)
  have "ring a ! ((pos_get a + 0) mod RING_SIZE) = Some ((r # q) ! 0)" "pos_get a < RING_SIZE"
    using assms by (auto simp: anel_ok_def simp del: nth_Cons_0)
  then have "ring a ! pos_get a = Some r" by simp
  moreover obtain a' where "consome (a\<lparr>available_reqs := length (r # q)\<rparr>) = Inr (r, a')" "anel_ok a' q"
    using consome_ok[OF assms] by blast
  ultimately show ?thesis using p by (auto simp: consome_def get_req_def)
qed

lemma maos_igual:
  assumes "i = 0 \<or> na_mao x = na_mao (p i)"
  shows "maos (p(i := x)) = maos p"
  unfolding maos_def by (rule sum.cong) (use assms in auto)

lemma maos_muda:
  assumes "1 \<le> i" "i \<le> NUM_TC"
  shows "maos (p(i := x)) + na_mao (p i) = maos p + na_mao x"
proof -
  have "maos f = na_mao (f i) + (\<Sum>j \<in> {1..NUM_TC} - {i}. na_mao (f j))" for f :: "nat \<Rightarrow> 'a ponto_s"
    unfolding maos_def using assms by (simp add: sum.remove)
  from this[of p] this[of "p(i := x)"] show ?thesis by (simp add: ac_simps)
qed

lemma combina_fora: "onde d \<noteq> LaDentro \<Longrightarrow> combina d = combina Sem"
  by (intro ext) (auto simp: combina_def onde_def a_contar_def vai_avisar_c_def vai_avisar_p_def split: ponto_s.splits)

lemma combina_produtor:
  "combina d p n av es \<Longrightarrow> (tem_lugar p' \<Longrightarrow> n < RING_SIZE) \<Longrightarrow> combina d p' n av es"
  by (simp add: combina_def)

lemma combina_tem_lugar: "combina d p n av es \<Longrightarrow> tem_lugar p \<Longrightarrow> n < RING_SIZE"
  by (simp add: combina_def)

lemma ponto_dono_dentro: "servidor_ok q s \<Longrightarrow> onde (ponto_r s i) = LaDentro \<Longrightarrow> ponto_dono s = ponto_r s i"
  by (auto simp: servidor_ok_def ponto_dono_def dest: mon_certo_dono)

text \<open>A step that leaves the requests of the ring alone.\<close>

lemma sem_mexer_no_anel:
  assumes ok: "servidor_ok q s" and x: "papel i x" "na_mao x = na_mao (ponto_r s i)"
    and m: "mon_certo m ((onde \<circ> ponto_r s)(i := onde x))"
    and c: "combina (case dono m of None \<Rightarrow> Sem | Some j \<Rightarrow> ((ponto_r s)(i := x)) j) (((ponto_r s)(i := x)) 0) (length q) av (espera m)"
  shows "servidor_ok q (vai_r i x (s\<lparr>mon_r := m, anel_r := (anel_r s)\<lparr>available_reqs := av\<rparr>\<rparr>))"
proof -
  let ?s = "vai_r i x (s\<lparr>mon_r := m, anel_r := (anel_r s)\<lparr>available_reqs := av\<rparr>\<rparr>)"
  have f: "mon_r ?s = m" "ponto_r ?s = (ponto_r s)(i := x)" "available_reqs (anel_r ?s) = av"
    "(anel_r ?s)\<lparr>available_reqs := n\<rparr> = (anel_r s)\<lparr>available_reqs := n\<rparr>" "postos ?s = postos s" "tirados ?s = tirados s"
    "servidos ?s = servidos s" for n by (simp_all add: vai_r_def)
  have "mon_certo m (onde \<circ> (ponto_r s)(i := x))" using m by (simp only: fun_upd_comp)
  moreover have "\<forall>j. papel j (((ponto_r s)(i := x)) j)" using ok x(1) by (simp add: servidor_ok_def)
  ultimately show ?thesis
    using ok c maos_igual[of i x "ponto_r s"] x(2) unfolding servidor_ok_def ponto_dono_def f by simp
qed

lemma sem_mexer_na_conta:
  assumes "servidor_ok q s" "papel i x" "na_mao x = na_mao (ponto_r s i)" "mon_certo m ((onde \<circ> ponto_r s)(i := onde x))"
    "combina (case dono m of None \<Rightarrow> Sem | Some j \<Rightarrow> ((ponto_r s)(i := x)) j) (((ponto_r s)(i := x)) 0) (length q)
       (available_reqs (anel_r s)) (espera m)"
  shows "servidor_ok q (vai_r i x (s\<lparr>mon_r := m\<rparr>))"
  using sem_mexer_no_anel[OF assms] by simp

lemma passo_entra:
  assumes ok: "servidor_ok q s" and p: "onde (ponto_r s i) = DeFora" "onde x = AEspera" "papel i x" "na_mao x = na_mao (ponto_r s i)"
    "tem_lugar x \<Longrightarrow> tem_lugar (ponto_r s i)"
  shows "servidor_ok q (vai_r i x (s\<lparr>mon_r := entra i (mon_r s)\<rparr>))"
proof (rule sem_mexer_na_conta[OF ok p(3,4)])
  have m: "mon_certo (mon_r s) (onde \<circ> ponto_r s)"
    and c: "combina (ponto_dono s) (ponto_r s 0) (length q) (available_reqs (anel_r s)) (espera (mon_r s))"
    using ok by (auto simp: servidor_ok_def)
  show "mon_certo (entra i (mon_r s)) ((onde \<circ> ponto_r s)(i := onde x))"
    using mon_certo_entra[OF m, of i] p by simp
  have "dono (mon_r s) \<noteq> Some i" using mon_certo_fora[OF m] p(1) by simp
  then have e: "combina (case dono (entra i (mon_r s)) of None \<Rightarrow> Sem | Some j \<Rightarrow> ((ponto_r s)(i := x)) j) = combina (ponto_dono s)"
    using combina_fora[of x] p(2) by (cases "dono (mon_r s)") (simp_all add: entra_def ponto_dono_def)
  have "combina (ponto_dono s) (((ponto_r s)(i := x)) 0) (length q) (available_reqs (anel_r s)) (espera (mon_r s))"
  proof (cases "i = 0")
    case True
    then show ?thesis using combina_produtor[OF c, of x] combina_tem_lugar[OF c] p(5) by simp
  qed (use c in simp)
  then show "combina (case dono (entra i (mon_r s)) of None \<Rightarrow> Sem | Some j \<Rightarrow> ((ponto_r s)(i := x)) j)
      (((ponto_r s)(i := x)) 0) (length q) (available_reqs (anel_r s)) (espera (entra i (mon_r s)))"
    by (simp only: e espera_depois)
qed

lemma passo_passa:
  assumes ok: "servidor_ok q s" and d: "dono (mon_r s) = Some i"
    and p: "onde (ponto_r s i) = AEspera" "onde x = LaDentro" "papel i x" "na_mao x = na_mao (ponto_r s i)"
    "tem_lugar x \<Longrightarrow> tem_lugar (ponto_r s i)" "a_contar x = 0" "x \<noteq> CTira"
  shows "servidor_ok q (vai_r i x s)"
proof -
  have m: "mon_certo (mon_r s) (onde \<circ> ponto_r s)"
    and c: "combina Sem (ponto_r s 0) (length q) (available_reqs (anel_r s)) (espera (mon_r s))"
    using ok d p(1) combina_fora[of "ponto_r s i"] by (auto simp: servidor_ok_def ponto_dono_def)
  have "combina x (ponto_r s 0) (length q) (available_reqs (anel_r s)) (espera (mon_r s))"
    using c p(6,7) by (auto simp: combina_def a_contar_def vai_avisar_p_def vai_avisar_c_def)
  then have "combina x (((ponto_r s)(i := x)) 0) (length q) (available_reqs (anel_r s)) (espera (mon_r s))"
    using combina_produtor[of x "ponto_r s 0" _ _ _ x] combina_tem_lugar[OF c] p(5) by (cases "i = 0") simp_all
  then have "servidor_ok q (vai_r i x (s\<lparr>mon_r := mon_r s\<rparr>))"
    using mon_certo_passa[OF m d] p(2) d by (intro sem_mexer_na_conta[OF ok p(3,4)]) simp_all
  then show ?thesis by simp
qed

lemma dentro_combina:
  assumes "servidor_ok q s" "onde (ponto_r s i) = LaDentro"
  shows "combina (ponto_r s i) (ponto_r s 0) (length q) (available_reqs (anel_r s)) (espera (mon_r s))"
    "dono (mon_r s) = Some i" "mon_certo (mon_r s) (onde \<circ> ponto_r s)"
  using assms ponto_dono_dentro[OF assms] mon_certo_dono[of "mon_r s" "onde \<circ> ponto_r s" i]
  by (auto simp: servidor_ok_def)

lemma passo_dentro:
  assumes ok: "servidor_ok q s" and l: "onde (ponto_r s i) = LaDentro"
    and p: "onde x = LaDentro" "papel i x" "na_mao x = na_mao (ponto_r s i)"
    and m: "mon_certo m (onde \<circ> ponto_r s)" "dono m = Some i"
    and c: "combina x (((ponto_r s)(i := x)) 0) (length q) av (espera m)"
  shows "servidor_ok q (vai_r i x (s\<lparr>mon_r := m, anel_r := (anel_r s)\<lparr>available_reqs := av\<rparr>\<rparr>))"
  using c m p l mon_certo_fica[OF m(1), of i LaDentro] by (intro sem_mexer_no_anel[OF ok p(2,3)]) simp_all

lemma passo_testa:
  assumes ok: "servidor_ok q s" and l: "onde (ponto_r s i) = LaDentro"
    and p: "onde x = LaDentro" "papel i x" "na_mao x = na_mao (ponto_r s i)"
    and c: "combina x (((ponto_r s)(i := x)) 0) (length q) (available_reqs (anel_r s)) (espera (mon_r s))"
  shows "servidor_ok q (vai_r i x s)"
  using passo_dentro[OF ok l p dentro_combina(3,2)[OF ok l] c] by simp

lemma passo_sinal:
  assumes ok: "servidor_ok q s" and l: "onde (ponto_r s i) = LaDentro"
    and p: "onde x = LaDentro" "papel i x" "na_mao x = na_mao (ponto_r s i)"
    and m: "mon_certo m (onde \<circ> ponto_r s)" "dono m = Some i"
    and c: "combina x (((ponto_r s)(i := x)) 0) (length q) (available_reqs (anel_r s)) (espera m)"
  shows "servidor_ok q (vai_r i x (s\<lparr>mon_r := m\<rparr>))"
  using passo_dentro[OF ok l p m c] by simp

text \<open>The owner leaves or waits: the next owner was blocked.\<close>

lemma larga_o_monitor:
  assumes m: "mon_certo (mon_r s) (onde \<circ> ponto_r s)" and l: "onde (ponto_r s i) = LaDentro"
    and m': "m = sai i (mon_r s) \<or> m = aguarda i (mon_r s)"
  shows "combina (case dono m of None \<Rightarrow> Sem | Some j \<Rightarrow> ((ponto_r s)(i := x)) j) = combina Sem"
proof (cases "dono m")
  case (Some j)
  then have "j \<noteq> i" "onde (ponto_r s j) = AEspera" using dono_depois[OF m, of i j] l m' by auto
  then show ?thesis using Some combina_fora[of "ponto_r s j"] by simp
qed simp

lemma passo_sai:
  assumes ok: "servidor_ok q s" and l: "onde (ponto_r s i) = LaDentro"
    and p: "onde x = DeFora" "papel i x" "na_mao x = na_mao (ponto_r s i)" "tem_lugar x \<Longrightarrow> tem_lugar (ponto_r s i)"
    and a: "a_contar (ponto_r s i) = 0" "\<not> vai_avisar_p (ponto_r s i)" "\<not> vai_avisar_c (ponto_r s i)"
  shows "servidor_ok q (vai_r i x (s\<lparr>mon_r := sai i (mon_r s)\<rparr>))"
proof (rule sem_mexer_na_conta[OF ok p(2,3)])
  note d = dentro_combina[OF ok l]
  show "mon_certo (sai i (mon_r s)) ((onde \<circ> ponto_r s)(i := onde x))"
    using mon_certo_sai[OF d(3), of i] l p(1) by simp
  have "combina Sem (ponto_r s 0) (length q) (available_reqs (anel_r s)) (espera (mon_r s))"
    using d(1) a by (simp add: combina_def a_contar_def vai_avisar_p_def vai_avisar_c_def)
  then have "combina Sem (((ponto_r s)(i := x)) 0) (length q) (available_reqs (anel_r s)) (espera (mon_r s))"
    using combina_produtor[of Sem "ponto_r s 0" _ _ _ x] combina_tem_lugar[OF d(1)] p(4) by (cases "i = 0") simp_all
  then show "combina (case dono (sai i (mon_r s)) of None \<Rightarrow> Sem | Some j \<Rightarrow> ((ponto_r s)(i := x)) j)
      (((ponto_r s)(i := x)) 0) (length q) (available_reqs (anel_r s)) (espera (sai i (mon_r s)))"
    by (simp only: larga_o_monitor[OF d(3) l disjI1[OF refl]] espera_depois)
qed

lemma passo_aguarda:
  assumes ok: "servidor_ok q s" and l: "onde (ponto_r s i) = LaDentro"
    and p: "onde x = AEspera" "papel i x" "na_mao x = na_mao (ponto_r s i)" "\<not> tem_lugar x"
    and a: "a_contar (ponto_r s i) = 0" "\<not> vai_avisar_p (ponto_r s i)" "\<not> vai_avisar_c (ponto_r s i)"
    and n: "if i = 0 then length q = RING_SIZE else q = []"
  shows "servidor_ok q (vai_r i x (s\<lparr>mon_r := aguarda i (mon_r s)\<rparr>))"
proof (rule sem_mexer_na_conta[OF ok p(2,3)])
  note d = dentro_combina[OF ok l]
  show "mon_certo (aguarda i (mon_r s)) ((onde \<circ> ponto_r s)(i := onde x))"
    using mon_certo_aguarda[OF d(3), of i] l p(1) by simp
  have "combina Sem (ponto_r s 0) (length q) (available_reqs (anel_r s)) (espera (mon_r s) @ [i])"
    using d(1) a n by (auto simp: combina_def a_contar_def vai_avisar_p_def vai_avisar_c_def split: if_splits)
  then have "combina Sem (((ponto_r s)(i := x)) 0) (length q) (available_reqs (anel_r s)) (espera (mon_r s) @ [i])"
    using combina_produtor[of Sem "ponto_r s 0" _ _ _ x] p(4) by (cases "i = 0") simp_all
  then show "combina (case dono (aguarda i (mon_r s)) of None \<Rightarrow> Sem | Some j \<Rightarrow> ((ponto_r s)(i := x)) j)
      (((ponto_r s)(i := x)) 0) (length q) (available_reqs (anel_r s)) (espera (aguarda i (mon_r s)))"
    by (simp only: larga_o_monitor[OF d(3) l disjI2[OF refl]] espera_depois(5)[OF d(2)])
qed

text \<open>The steps that put a request in the ring or take one out.\<close>

lemma passo_anel:
  assumes ok: "servidor_ok q s" and l: "onde (ponto_r s i) = LaDentro" and x: "onde x = LaDentro" "papel i x"
    and q: "anel_ok (a\<lparr>available_reqs := length q'\<rparr>) q'" "ps = ts @ q'"
    "mset ts = mset (servidos s) + maos ((ponto_r s)(i := x))"
    and c: "combina x (((ponto_r s)(i := x)) 0) (length q') (available_reqs a) (espera (mon_r s))"
  shows "servidor_ok q' (vai_r i x (s\<lparr>anel_r := a, postos := ps, tirados := ts\<rparr>))"
proof -
  let ?s = "vai_r i x (s\<lparr>anel_r := a, postos := ps, tirados := ts\<rparr>)"
  note d = dentro_combina[OF ok l]
  have f: "mon_r ?s = mon_r s" "ponto_r ?s = (ponto_r s)(i := x)" "anel_r ?s = a" "postos ?s = ps" "tirados ?s = ts"
    "servidos ?s = servidos s" by (simp_all add: vai_r_def)
  have "mon_certo (mon_r s) (onde \<circ> (ponto_r s)(i := x))"
    using mon_certo_fica[OF d(3), of i LaDentro] l x(1) by (simp add: fun_upd_comp)
  moreover have "\<forall>j. papel j (((ponto_r s)(i := x)) j)" using ok x(2) by (simp add: servidor_ok_def)
  ultimately show ?thesis
    using q c d(2) unfolding servidor_ok_def ponto_dono_def f by simp
qed

lemma papel_em: "servidor_ok q s \<Longrightarrow> ponto_r s i = p \<Longrightarrow> papel i p"
  unfolding servidor_ok_def by blast

lemma passo_poe:
  assumes ok: "servidor_ok q s" and p: "ponto_r s i = PPoe r"
  shows "\<exists>s'. anda_r i s = Inr s' \<and> servidor_ok (q @ [r]) s'"
proof -
  have l: "onde (ponto_r s i) = LaDentro" using p by (simp add: onde_def)
  note d = dentro_combina[OF ok l]
  have k: "anel_ok ((anel_r s)\<lparr>available_reqs := length q\<rparr>) q" "postos s = tirados s @ q" "papel i (PPoe r)"
    "mset (tirados s) = mset (servidos s) + maos (ponto_r s)"
    using ok papel_em[OF ok p] by (simp_all add: servidor_ok_def)
  have i: "i = 0" using k(3) by (simp add: papel_def produtor_def split: if_splits)
  have "length q < RING_SIZE" using combina_tem_lugar[OF d(1)] p i by (simp add: tem_lugar_def)
  then obtain a where a: "put_req (anel_r s) r = Inr a" "available_reqs a = available_reqs (anel_r s)"
    "anel_ok (a\<lparr>available_reqs := length (q @ [r])\<rparr>) (q @ [r])"
    using put_req_ok[OF k(1), of r] by auto
  have "0 \<notin> set (espera (mon_r s))"
    using d(2,3) i by (auto simp: mon_certo_def posse_def no_monitor_def)
  then have "combina PConta (((ponto_r s)(i := PConta)) 0) (length (q @ [r])) (available_reqs a) (espera (mon_r s))"
    using d(1) a(2) p i by (simp add: combina_def pontos)
  then have "servidor_ok (q @ [r]) (vai_r i PConta (s\<lparr>anel_r := a, postos := postos s @ [r], tirados := tirados s\<rparr>))"
    using a(3) k i maos_igual[of i PConta "ponto_r s"]
    by (intro passo_anel[OF ok l]) (simp_all add: pontos papel_def)
  then show ?thesis using p a(1) by (simp add: anda_r_casos)
qed

lemma combina_tira:
  "combina CTira p (Suc n) av es \<Longrightarrow> Suc n \<le> RING_SIZE \<Longrightarrow> combina (CConta r) p n av es"
  by (auto simp: combina_def pontos)

lemma passo_tira:
  assumes ok: "servidor_ok q s" and p: "ponto_r s i = CTira"
  shows "\<exists>r q' s'. q = r # q' \<and> anda_r i s = Inr s' \<and> servidor_ok q' s'"
proof -
  have l: "onde (ponto_r s i) = LaDentro" using p by (simp add: onde_def)
  note d = dentro_combina[OF ok l]
  have k: "anel_ok ((anel_r s)\<lparr>available_reqs := length q\<rparr>) q" "postos s = tirados s @ q"
    "mset (tirados s) = mset (servidos s) + maos (ponto_r s)"
    using ok by (simp_all add: servidor_ok_def)
  have i: "1 \<le> i" "i \<le> NUM_TC" using papel_em[OF ok p] by (simp_all add: papel_def produtor_def split: if_splits)
  have "q \<noteq> []" using d(1) p by (auto simp: combina_def)
  then obtain r q' where q: "q = r # q'" by (cases q) auto
  obtain a where a: "get_req (anel_r s) = Inr (Some r, a)" "available_reqs a = available_reqs (anel_r s)"
    "anel_ok (a\<lparr>available_reqs := length q'\<rparr>) q'"
    using get_req_ok[OF k(1)[unfolded q]] by blast
  have n: "length q \<le> RING_SIZE" using k(1) by (simp add: anel_ok_def)
  have "combina (CConta r) (((ponto_r s)(i := CConta r)) 0) (length q') (available_reqs a) (espera (mon_r s))"
    using combina_tira[of "ponto_r s 0" "length q'"] d(1) a(2) p i n q by simp
  moreover have "maos ((ponto_r s)(i := CConta r)) = maos (ponto_r s) + {#r#}"
    using maos_muda[OF i, of "ponto_r s" "CConta r"] p by (simp add: na_mao_def)
  ultimately have "servidor_ok q' (vai_r i (CConta r) (s\<lparr>anel_r := a, postos := postos s, tirados := tirados s @ [r]\<rparr>))"
    using a(3) k(2,3) q i by (intro passo_anel[OF ok l]) (simp_all add: pontos papel_def)
  then show ?thesis using p a(1) q by (simp add: anda_r_casos)
qed

text \<open>Serving empties the hands of the thread, and receiving fills those of the producer.\<close>

lemma passo_fora:
  assumes ok: "servidor_ok q s" and l: "onde (ponto_r s i) = DeFora" "onde x = DeFora"
    and x: "papel i x" "tem_lugar x \<Longrightarrow> tem_lugar (ponto_r s i)"
    and h: "mset (tirados s) = mset sv + maos ((ponto_r s)(i := x))"
  shows "servidor_ok q (vai_r i x (s\<lparr>servidos := sv\<rparr>))"
proof -
  let ?s = "vai_r i x (s\<lparr>servidos := sv\<rparr>)"
  have f: "mon_r ?s = mon_r s" "ponto_r ?s = (ponto_r s)(i := x)" "anel_r ?s = anel_r s" "postos ?s = postos s"
    "tirados ?s = tirados s" "servidos ?s = sv" by (simp_all add: vai_r_def)
  have m: "mon_certo (mon_r s) (onde \<circ> ponto_r s)"
    and c: "combina (ponto_dono s) (ponto_r s 0) (length q) (available_reqs (anel_r s)) (espera (mon_r s))"
    using ok by (auto simp: servidor_ok_def)
  have "dono (mon_r s) \<noteq> Some i" using mon_certo_fora[OF m, of i] l(1) by simp
  then have "ponto_dono ?s = ponto_dono s" unfolding ponto_dono_def f by (simp split: option.splits)
  moreover have "combina (ponto_dono s) (((ponto_r s)(i := x)) 0) (length q) (available_reqs (anel_r s)) (espera (mon_r s))"
    using combina_produtor[OF c, of x] combina_tem_lugar[OF c] x(2) c by (cases "i = 0") simp_all
  moreover have "mon_certo (mon_r s) (onde \<circ> (ponto_r s)(i := x))"
    using mon_certo_fica[OF m, of i DeFora] l by (simp add: fun_upd_comp)
  moreover have "\<forall>j. papel j (((ponto_r s)(i := x)) j)" using ok x(1) by (simp add: servidor_ok_def)
  ultimately show ?thesis using ok h unfolding servidor_ok_def f by simp
qed

lemma passo_serve:
  assumes ok: "servidor_ok q s" and p: "ponto_r s i = CServe r"
  shows "\<exists>s'. anda_r i s = Inr s' \<and> servidor_ok q s'"
proof -
  have "1 \<le> i" "i \<le> NUM_TC" using papel_em[OF ok p] by (simp_all add: papel_def produtor_def split: if_splits)
  then have "maos (ponto_r s) = add_mset r (maos ((ponto_r s)(i := CEntra)))"
    using maos_muda[of i "ponto_r s" CEntra] p by (simp add: na_mao_def)
  moreover have "mset (tirados s) = mset (servidos s) + maos (ponto_r s)" using ok by (simp add: servidor_ok_def)
  ultimately have "servidor_ok q (vai_r i CEntra (s\<lparr>servidos := servidos s @ [r]\<rparr>))"
    using papel_em[OF ok p] p by (intro passo_fora[OF ok]) (simp_all add: pontos papel_def split: if_splits)
  then show ?thesis using p by (simp add: anda_r_casos)
qed

text \<open>
  One signal is enough for the producer: when it waits and a request has just been taken, the ring
  is not empty, so no consumer waits and the producer is alone in the queue.
\<close>

lemma combina_avisa:
  assumes c: "combina (CAvisa r) p n av es" and d: "distinct es"
  shows "combina (CSai r) p n av (tl es)"
proof (cases "0 \<in> set es \<and> n \<noteq> RING_SIZE")
  case True
  then have "n + 1 = RING_SIZE" using c by (simp add: combina_def)
  then have "n \<noteq> 0" by (simp add: RING_SIZE_def)
  then have "\<forall>i \<in> set es. i = 0" using c by (auto simp: combina_def vai_avisar_p_def)
  then have "tl es = []" using d by (cases es; cases "tl es") auto
  then show ?thesis using c by (simp add: combina_def pontos)
next
  case False
  then show ?thesis using c list.set_sel(2)[of es] by (cases es) (auto simp: combina_def pontos)
qed

text \<open>No thread makes a bad access, and every step keeps the invariant.\<close>

lemma anda_r_ok:
  assumes ok: "servidor_ok q s"
  shows "anda_r i s = Inl Blocked \<or> (\<exists>q' s'. anda_r i s = Inr s' \<and> servidor_ok q' s')"
proof -
  have pa: "papel i (ponto_r s i)" using ok by (simp add: servidor_ok_def)
  note de = passo_dentro[OF ok, of i] dentro_combina[OF ok, of i] mon_certo_assinala[of "mon_r s" "onde \<circ> ponto_r s" i]
  show ?thesis
  proof (cases "ponto_r s i")
    case PEntra
    then have "servidor_ok q (vai_r i PBloq (s\<lparr>mon_r := entra i (mon_r s)\<rparr>))"
      using pa by (intro passo_entra[OF ok]) (simp_all add: pontos papel_def split: if_splits)
    then show ?thesis using PEntra by (auto simp: anda_r_casos)
  next
    case PBloq
    have "servidor_ok q (vai_r i PTesta s)" if "dono (mon_r s) = Some i"
      using that PBloq pa by (intro passo_passa[OF ok]) (simp_all add: pontos papel_def split: if_splits)
    then show ?thesis using PBloq by (auto simp: anda_r_casos)
  next
    case PTesta
    then have t: "i = 0" "available_reqs (anel_r s) = length q" "length q \<le> RING_SIZE"
      using de(2) pa ok by (auto simp: pontos combina_def papel_def servidor_ok_def anel_ok_def split: if_splits)
    show ?thesis
    proof (cases "length q = RING_SIZE")
      case True
      then have "servidor_ok q (vai_r i PBloq (s\<lparr>mon_r := aguarda i (mon_r s)\<rparr>))"
        using PTesta t by (intro passo_aguarda[OF ok]) (simp_all add: pontos papel_def)
      then show ?thesis using PTesta t True by (auto simp: anda_r_casos)
    next
      case False
      then have "servidor_ok q (vai_r i PSai s)"
        using PTesta t de(2) by (intro passo_testa[OF ok]) (auto simp: pontos papel_def combina_def)
      then show ?thesis using PTesta t False by (auto simp: anda_r_casos)
    qed
  next
    case PSai
    then have "servidor_ok q (vai_r i PRecebe (s\<lparr>mon_r := sai i (mon_r s)\<rparr>))"
      using pa by (intro passo_sai[OF ok]) (simp_all add: pontos papel_def split: if_splits)
    then show ?thesis using PSai by (auto simp: anda_r_casos)
  next
    case (PEntra2 r)
    then have "servidor_ok q (vai_r i (PBloq2 r) (s\<lparr>mon_r := entra i (mon_r s)\<rparr>))"
      using pa by (intro passo_entra[OF ok]) (simp_all add: pontos papel_def split: if_splits)
    then show ?thesis using PEntra2 by (auto simp: anda_r_casos)
  next
    case (PBloq2 r)
    have "servidor_ok q (vai_r i (PPoe r) s)" if "dono (mon_r s) = Some i"
      using that PBloq2 pa by (intro passo_passa[OF ok]) (simp_all add: pontos papel_def split: if_splits)
    then show ?thesis using PBloq2 by (auto simp: anda_r_casos)
  next
    case (PPoe r)
    then show ?thesis using passo_poe[OF ok] by blast
  next
    case PConta
    then have "servidor_ok q (vai_r i PAvisa (s\<lparr>mon_r := mon_r s,
        anel_r := (anel_r s)\<lparr>available_reqs := available_reqs (anel_r s) + 1\<rparr>\<rparr>))"
      using de(2-4) pa by (intro passo_dentro[OF ok]) (simp_all add: pontos papel_def combina_def split: if_splits)
    then show ?thesis using PConta by (auto simp: anda_r_casos)
  next
    case PAvisa
    then have "servidor_ok q (vai_r i PSai2 (s\<lparr>mon_r := assinala_todos i (mon_r s)\<rparr>))"
      using de(2-) pa by (intro passo_sinal[OF ok]) (simp_all add: pontos papel_def combina_def split: if_splits)
    then show ?thesis using PAvisa by (auto simp: anda_r_casos)
  next
    case PSai2
    then have "servidor_ok q (vai_r i PEntra (s\<lparr>mon_r := sai i (mon_r s)\<rparr>))"
      using pa by (intro passo_sai[OF ok]) (simp_all add: pontos papel_def split: if_splits)
    then show ?thesis using PSai2 by (auto simp: anda_r_casos)
  next
    case CEntra
    then have "servidor_ok q (vai_r i CBloq (s\<lparr>mon_r := entra i (mon_r s)\<rparr>))"
      using pa by (intro passo_entra[OF ok]) (simp_all add: pontos papel_def split: if_splits)
    then show ?thesis using CEntra by (auto simp: anda_r_casos)
  next
    case CBloq
    have "servidor_ok q (vai_r i CTesta s)" if "dono (mon_r s) = Some i"
      using that CBloq pa by (intro passo_passa[OF ok]) (simp_all add: pontos papel_def split: if_splits)
    then show ?thesis using CBloq by (auto simp: anda_r_casos)
  next
    case CTesta
    then have t: "1 \<le> i" "i \<le> NUM_TC" "available_reqs (anel_r s) = length q"
      using de(2) pa by (auto simp: pontos combina_def papel_def split: if_splits)
    show ?thesis
    proof (cases "q = []")
      case True
      then have "servidor_ok q (vai_r i CBloq (s\<lparr>mon_r := aguarda i (mon_r s)\<rparr>))"
        using CTesta t by (intro passo_aguarda[OF ok]) (simp_all add: pontos papel_def)
      then show ?thesis using CTesta t True by (auto simp: anda_r_casos)
    next
      case False
      then have "servidor_ok q (vai_r i CTira s)"
        using CTesta t de(2) by (intro passo_testa[OF ok]) (auto simp: pontos papel_def combina_def)
      then show ?thesis using CTesta t False by (auto simp: anda_r_casos)
    qed
  next
    case (CConta r)
    then have "available_reqs (anel_r s) = length q + 1" using de(2) by (simp add: onde_def combina_def a_contar_def)
    then have "combina (CAvisa r) (ponto_r s 0) (length q) (available_reqs (anel_r s) - 1) (espera (mon_r s))"
      using CConta de(2) by (simp add: combina_def pontos)
    then have "servidor_ok q (vai_r i (CAvisa r) (s\<lparr>mon_r := mon_r s,
        anel_r := (anel_r s)\<lparr>available_reqs := available_reqs (anel_r s) - 1\<rparr>\<rparr>))"
      using CConta de(3,4) pa by (intro passo_dentro[OF ok]) (simp_all add: pontos papel_def split: if_splits)
    then show ?thesis using CConta by (auto simp: anda_r_casos)
  next
    case (CAvisa r)
    then have l: "onde (ponto_r s i) = LaDentro" by (simp add: onde_def)
    note d = dentro_combina[OF ok l]
    have "combina (CSai r) (ponto_r s 0) (length q) (available_reqs (anel_r s)) (tl (espera (mon_r s)))"
      using combina_avisa[OF d(1)[unfolded CAvisa] mon_certo_distinct[OF d(3)]] .
    then have "servidor_ok q (vai_r i (CSai r) (s\<lparr>mon_r := assinala i (mon_r s)\<rparr>))"
      using CAvisa pa d(2) mon_certo_assinala(1)[OF d(3), of i]
      by (intro passo_sinal[OF ok l]) (simp_all add: pontos papel_def split: if_splits)
    then show ?thesis using CAvisa by (auto simp: anda_r_casos)
  next
    case CTira
    from passo_tira[OF ok this] obtain q' s' where "anda_r i s = Inr s'" "servidor_ok q' s'" by auto
    then show ?thesis by blast
  next
    case (CSai r)
    then have "servidor_ok q (vai_r i (CServe r) (s\<lparr>mon_r := sai i (mon_r s)\<rparr>))"
      using pa by (intro passo_sai[OF ok]) (simp_all add: pontos papel_def split: if_splits)
    then show ?thesis using CSai by (auto simp: anda_r_casos)
  next
    case (CServe r)
    then show ?thesis using passo_serve[OF ok] by blast
  qed (simp_all add: anda_r_casos)
qed

lemma my_recvfrom_ok:
  assumes ok: "servidor_ok q s"
  shows "(my_recvfrom c s = Inl Blocked \<and> ponto_r s 0 \<noteq> PRecebe) \<or> (my_recvfrom c s = Inl (Exited (-1)) \<and> (\<exists>n r. c = Chegou n r \<and> n < 0)) \<or>
    (\<exists>s'. my_recvfrom c s = Inr s' \<and> servidor_ok q s')"
proof (cases "ponto_r s 0 = PRecebe")
  case True
  have h: "mset (tirados s) = mset (servidos s) + maos ((ponto_r s)(0 := x))" for x
    using ok maos_igual[of 0 x "ponto_r s"] by (simp add: servidor_ok_def)
  have "servidor_ok q (vai_r 0 x s)" if "x = PEntra \<or> (\<exists>r. x = PEntra2 r)" for x
  proof -
    have "servidor_ok q (vai_r 0 x (s\<lparr>servidos := servidos s\<rparr>))"
      using True that h by (intro passo_fora[OF ok]) (auto simp: pontos papel_def)
    then show ?thesis by simp
  qed
  then show ?thesis using True ok by (auto simp: my_recvfrom_def srv_recv_request_def split: chegada.splits)
next
  case False
  then show ?thesis by (simp add: my_recvfrom_def)
qed

lemma servidor_inicial_ok: "servidor_ok [] (servidor_inicial :: 'r servidor)"
proof -
  let ?s = "servidor_inicial :: 'r servidor"
  have f: "mon_r ?s = mon_novo" "anel_r ?s = anel_vazio" "postos ?s = []" "tirados ?s = []" "servidos ?s = []"
    "ponto_r ?s 0 = PEntra" "available_reqs (anel_vazio :: 'r anel) = 0" "espera mon_novo = []"
    "ponto_dono ?s = Sem"
    by (simp_all add: servidor_inicial_def anel_vazio_def mon_novo_def ponto_dono_def)
  have "onde \<circ> ponto_r ?s = (\<lambda>_. DeFora)" by (rule ext) (simp add: onde_def servidor_inicial_def)
  then have "mon_certo mon_novo (onde \<circ> ponto_r ?s)" by (simp add: mon_certo_novo)
  moreover have "maos (ponto_r ?s) = {#}"
    unfolding maos_def by (rule sum.neutral) (simp add: na_mao_def servidor_inicial_def)
  moreover have "\<forall>i. papel i (ponto_r ?s i)" by (simp add: papel_def produtor_def servidor_inicial_def)
  moreover have "combina Sem PEntra 0 0 []" by (simp add: combina_def pontos)
  moreover have "anel_ok ((anel_vazio :: 'r anel)\<lparr>available_reqs := 0\<rparr>) []"
    by (simp add: anel_ok_def anel_vazio_def RING_SIZE_def)
  ultimately show ?thesis unfolding servidor_ok_def f by (simp add: f)
qed

lemma faz_r_ok:
  assumes "servidor_ok q s" "faz_r a s = Inr s'"
  shows "\<exists>q'. servidor_ok q' s'"
proof (cases a)
  case (Passa i)
  then show ?thesis using anda_r_ok[OF assms(1), of i] assms(2) by (auto simp: faz_r_def)
next
  case (Recebe c)
  then show ?thesis using my_recvfrom_ok[OF assms(1), of c] assms(2) by (auto simp: faz_r_def)
qed

lemma servidor_alcanca_ok: "servidor_alcanca s \<Longrightarrow> \<exists>q. servidor_ok q s"
  by (induction rule: servidor_alcanca.induct)
    (blast intro: servidor_inicial_ok, blast elim!: servidor_passoE dest: faz_r_ok)

lemma faz_todas_r_alcanca: "faz_todas_r as s = Inr s' \<Longrightarrow> servidor_alcanca s \<Longrightarrow> servidor_alcanca s'"
proof (induction as arbitrary: s)
  case (Cons a as)
  then obtain t where "faz_r a s = Inr t" "faz_todas_r as t = Inr s'" by (cases "faz_r a s") auto
  then show ?case using Cons by (blast intro: mais_r servidor_passo.intros)
qed simp

section \<open>What the server does with the requests\<close>

lemma servidor_pedidos:
  assumes ok: "servidor_ok q s"
  shows "length q \<le> RING_SIZE" "postos s = tirados s @ q" "set_mset (maos (ponto_r s)) \<subseteq> set (tirados s)"
    "size (maos (ponto_r s)) \<le> NUM_TC" "mset (postos s) = mset (servidos s) + maos (ponto_r s) + mset q"
proof -
  show "length q \<le> RING_SIZE" "postos s = tirados s @ q" using ok by (simp_all add: servidor_ok_def anel_ok_def)
  have t: "mset (tirados s) = mset (servidos s) + maos (ponto_r s)" using ok by (simp add: servidor_ok_def)
  then show "mset (postos s) = mset (servidos s) + maos (ponto_r s) + mset q" using ok by (simp add: servidor_ok_def)
  have "set_mset (mset (tirados s)) = set_mset (mset (servidos s) + maos (ponto_r s))" by (simp only: t)
  then show "set_mset (maos (ponto_r s)) \<subseteq> set (tirados s)" by auto
  have "size (maos (ponto_r s)) = (\<Sum>i \<in> {1..NUM_TC}. size (na_mao (ponto_r s i)))"
    unfolding maos_def by (induction rule: infinite_finite_induct) simp_all
  also have "\<dots> \<le> (\<Sum>i \<in> {1..NUM_TC}. 1)"
    by (rule sum_mono) (simp add: na_mao_def split: ponto_s.splits)
  finally show "size (maos (ponto_r s)) \<le> NUM_TC" by simp
qed

text \<open>A thread that cannot move is blocked at the monitor, or it is the producer in recvfrom.\<close>

lemma parado:
  assumes ok: "servidor_ok q s" and b: "anda_r i s = Inl Blocked" and i: "i \<le> NUM_TC"
  shows "ponto_r s i = PRecebe \<or> (onde (ponto_r s i) = AEspera \<and> dono (mon_r s) \<noteq> Some i)"
proof -
  have "ponto_r s i \<noteq> Sem" using i papel_em[OF ok refl, of i] by (auto simp: papel_def produtor_def split: if_splits)
  moreover have "anda_r i s \<noteq> Inl Blocked" if "onde (ponto_r s i) = LaDentro" "\<And>r. ponto_r s i \<noteq> PPoe r" "ponto_r s i \<noteq> CTira"
    using that by (auto simp: anda_r_casos onde_def split: ponto_s.splits)
  moreover have "anda_r i s \<noteq> Inl Blocked" if "ponto_r s i = PPoe r" for r using passo_poe[OF ok that] by auto
  moreover have "anda_r i s \<noteq> Inl Blocked" if "ponto_r s i = CTira" using passo_tira[OF ok that] by auto
  ultimately show ?thesis using b by (auto simp: anda_r_casos onde_def split: ponto_s.splits if_splits)
qed

lemma dono_anda:
  assumes ok: "servidor_ok q s" and d: "dono (mon_r s) = Some i"
  shows "\<exists>s'. anda_r i s = Inr s'"
proof -
  have m: "mon_certo (mon_r s) (onde \<circ> ponto_r s)" using ok by (simp add: servidor_ok_def)
  have o: "onde (ponto_r s i) \<noteq> DeFora" using mon_certo_fora[OF m, of i] d by auto
  then have "ponto_r s i \<noteq> Sem" "ponto_r s i \<noteq> PRecebe" by (auto simp: onde_def)
  then have "anda_r i s \<noteq> Inl Blocked"
    using parado[OF ok, of i] d papel_em[OF ok refl, of i] by (auto simp: papel_def split: if_splits)
  then show ?thesis using anda_r_ok[OF ok, of i] by auto
qed

lemma livre_parado:
  assumes ok: "servidor_ok q s" and d: "dono (mon_r s) = None" and b: "anda_r i s = Inl Blocked" and i: "i \<le> NUM_TC"
  shows "if i = 0 then length q = RING_SIZE \<or> ponto_r s i = PRecebe else q = []"
proof -
  have m: "mon_certo (mon_r s) (onde \<circ> ponto_r s)"
    and c: "combina Sem (ponto_r s 0) (length q) (available_reqs (anel_r s)) (espera (mon_r s))"
    using ok d by (auto simp: servidor_ok_def ponto_dono_def)
  have "ponto_r s i = PRecebe \<Longrightarrow> i = 0"
    using papel_em[OF ok, of i PRecebe] by (auto simp: papel_def produtor_def split: if_splits)
  moreover have "i \<in> set (espera (mon_r s))" if "onde (ponto_r s i) = AEspera"
  proof -
    have "i \<in> set (no_monitor (mon_r s))" using mon_certo_no_monitor[OF m, of i] that by simp
    moreover have "fila_m (mon_r s) = []" using m d by (simp add: mon_certo_def)
    ultimately show ?thesis using d by (simp add: no_monitor_def)
  qed
  ultimately show ?thesis using parado[OF ok b i] c by (auto simp: combina_def vai_avisar_c_def vai_avisar_p_def)
qed

end
