(* ===== verification/AnelRepouso.thy ===== *)
theory AnelRepouso
  imports AnelConcorrente
begin

text \<open>
  The server comes to rest: without new messages its threads can only take a bounded number of
  steps, and when none of them can move every request that was received has been served.
\<close>

section \<open>A measure of the work left\<close>

text \<open>
  The steps a thread has left until it blocks, with those of the threads it may wake: 3 for each.
  A request in the ring is worth 12, more than taking it out costs.
\<close>

definition peso :: "nat list \<Rightarrow> nat \<Rightarrow> 'r ponto_s \<Rightarrow> nat" where
  "peso es i p =
     (case p of
        Sem \<Rightarrow> 0
      | PEntra \<Rightarrow> 4 | PBloq \<Rightarrow> if i \<in> set es then 0 else 3 | PTesta \<Rightarrow> 2 | PSai \<Rightarrow> 1 | PRecebe \<Rightarrow> 0
      | PEntra2 _ \<Rightarrow> 40 | PBloq2 _ \<Rightarrow> 39 | PPoe _ \<Rightarrow> 38 | PConta \<Rightarrow> 25 | PAvisa \<Rightarrow> 24 | PSai2 \<Rightarrow> 5
      | CEntra \<Rightarrow> 4 | CBloq \<Rightarrow> if i \<in> set es then 0 else 3 | CTesta \<Rightarrow> 2 | CTira \<Rightarrow> 0
      | CConta _ \<Rightarrow> 11 | CAvisa _ \<Rightarrow> 10 | CSai _ \<Rightarrow> 6 | CServe _ \<Rightarrow> 5)"

definition pesos :: "nat list \<Rightarrow> (nat \<Rightarrow> 'r ponto_s) \<Rightarrow> nat" where
  "pesos es p = (\<Sum>i \<in> {..NUM_TC}. peso es i (p i))"

definition medida :: "'r servidor \<Rightarrow> nat" where
  "medida s = pesos (espera (mon_r s)) (ponto_r s) + 12 * (length (postos s) - length (tirados s))"

lemma pesos_muda: "i \<le> NUM_TC \<Longrightarrow> pesos es (p(i := x)) + peso es i (p i) = pesos es p + peso es i x"
proof -
  assume i: "i \<le> NUM_TC"
  have "pesos es f = peso es i (f i) + (\<Sum>j \<in> {..NUM_TC} - {i}. peso es j (f j))" for f :: "nat \<Rightarrow> 'a ponto_s"
    unfolding pesos_def using i by (simp add: sum.remove)
  from this[of p] this[of "p(i := x)"] show ?thesis by simp
qed

lemma pesos_desce:
  "i \<le> NUM_TC \<Longrightarrow> peso es i x < peso es i (p i) \<Longrightarrow> pesos es (p(i := x)) < pesos es p"
  using pesos_muda[of i es p x] by simp

lemma pesos_mais: "set es \<subseteq> set es' \<Longrightarrow> pesos es' p \<le> pesos es p"
  unfolding pesos_def by (rule sum_mono) (auto simp: peso_def split: ponto_s.splits)

text \<open>Each thread that leaves the waiting queue adds at most 3.\<close>

lemma pesos_acorda:
  assumes "{..NUM_TC} \<inter> (set es - set es') \<subseteq> A" "finite A"
  shows "pesos es' p \<le> pesos es p + 3 * card A"
proof -
  have "pesos es' p \<le> (\<Sum>i \<in> {..NUM_TC}. peso es i (p i) + (if i \<in> A then 3 else 0))"
    unfolding pesos_def by (rule sum_mono) (use assms(1) in \<open>auto simp: peso_def split: ponto_s.splits\<close>)
  also have "\<dots> = pesos es p + 3 * card ({..NUM_TC} \<inter> A)"
    unfolding pesos_def by (simp add: sum.distrib sum.inter_restrict[symmetric])
  also have "\<dots> \<le> pesos es p + 3 * card A" using assms(2) by (simp add: card_mono)
  finally show ?thesis .
qed

lemma pesos_assinala: "pesos (tl es) p \<le> pesos es p + 3"
  using pesos_acorda[of es "tl es" "{hd es}" p] by (cases es) auto

lemma pesos_assinala_todos: "pesos [] p \<le> pesos es p + 18"
  using pesos_acorda[of es "[]" "{..NUM_TC}" p] by (simp add: NUM_TC_def)

lemma medida_limite:
  assumes ok: "servidor_ok q s"
  shows "medida s \<le> 215"
proof -
  have pa: "papel i (ponto_r s i)" for i using ok by (simp add: servidor_ok_def)
  have "peso es i (ponto_r s i) \<le> 11" if "1 \<le> i" "i \<le> NUM_TC" for es i
    using pa[of i] that by (auto simp: papel_def produtor_def peso_def split: ponto_s.splits)
  then have "(\<Sum>i \<in> {1..NUM_TC}. peso es i (ponto_r s i)) \<le> (\<Sum>i \<in> {1..NUM_TC}. 11)" for es
    by (intro sum_mono) simp
  moreover have "peso es 0 (ponto_r s 0) \<le> 40" for es by (simp add: peso_def split: ponto_s.splits)
  moreover have "pesos es (ponto_r s) = peso es 0 (ponto_r s 0) + (\<Sum>i \<in> {1..NUM_TC}. peso es i (ponto_r s i))" for es
    unfolding pesos_def by (simp add: atMost_atLeast0 sum.atLeast_Suc_atMost)
  ultimately have "pesos es (ponto_r s) \<le> 40 + (\<Sum>i \<in> {1..NUM_TC}. 11)" for es by (simp only: add_mono)
  then have "pesos es (ponto_r s) \<le> 95" for es by (simp add: NUM_TC_def)
  moreover have "length (postos s) - length (tirados s) \<le> 10"
    using servidor_pedidos(1,2)[OF ok] by (simp add: RING_SIZE_def)
  moreover have "a \<le> 95 \<Longrightarrow> b \<le> 10 \<Longrightarrow> a + 12 * b \<le> 215" for a b :: nat by simp
  ultimately show ?thesis unfolding medida_def by blast
qed

lemma medida_vai:
  "medida (vai_r i x s) = pesos (espera (mon_r s)) ((ponto_r s)(i := x)) + 12 * (length (postos s) - length (tirados s))"
  by (simp add: medida_def vai_r_def)

lemma medida_desce:
  assumes ok: "servidor_ok q s" and a: "anda_r i s = Inr s'"
  shows "medida s' < medida s"
proof -
  let ?es = "espera (mon_r s)"
  note ms = medida_def[of s]
  have ps: "postos s = tirados s @ q" using ok by (simp add: servidor_ok_def)
  have m: "mon_certo (mon_r s) (onde \<circ> ponto_r s)" using ok by (simp add: servidor_ok_def)
  have i: "i \<le> NUM_TC"
    using papel_em[OF ok refl, of i] a by (cases "i \<le> NUM_TC") (auto simp: papel_def anda_r_casos split: if_splits)
  note mu = pesos_muda[OF i, of _ "ponto_r s"]
  have es: "i \<notin> set ?es" if "dono (mon_r s) = Some i"
    using m that by (auto simp: mon_certo_def posse_def no_monitor_def)
  have d: "dono (mon_r s) = Some i" if "onde (ponto_r s i) = LaDentro"
    using mon_certo_dono[OF m, of i] that by simp
  have ag: "medida (vai_r i x (s\<lparr>mon_r := aguarda i (mon_r s)\<rparr>)) < medida s"
    if "x = PBloq \<or> x = CBloq" "ponto_r s i = PTesta \<or> ponto_r s i = CTesta" for x
  proof -
    have "espera (aguarda i (mon_r s)) = ?es @ [i]" using espera_depois(5) d that(2) by (auto simp: onde_def)
    moreover have "pesos (?es @ [i]) ((ponto_r s)(i := x)) + 2 = pesos (?es @ [i]) (ponto_r s)"
      using mu[of "?es @ [i]" x] that by (auto simp: peso_def)
    moreover have "pesos (?es @ [i]) (ponto_r s) \<le> pesos ?es (ponto_r s)" by (rule pesos_mais) auto
    ultimately show ?thesis by (simp add: medida_vai ms)
  qed
  show ?thesis
  proof (cases "ponto_r s i")
    case PTesta
    then show ?thesis using a ag[of PBloq] mu[of ?es PSai] by (auto simp: anda_r_casos medida_vai ms peso_def split: if_splits)
  next
    case CTesta
    then show ?thesis using a ag[of CBloq] mu[of ?es CTira] by (auto simp: anda_r_casos medida_vai ms peso_def split: if_splits)
  next
    case (PPoe r)
    then show ?thesis using a ps mu[of ?es PConta]
      by (cases "put_req (anel_r s) r") (auto simp: anda_r_casos medida_vai ms peso_def)
  next
    case CTira
    from passo_tira[OF ok this] obtain r q' where "q = r # q'" by auto
    then have n: "length (postos s) - length (tirados s) = Suc (length (postos s) - Suc (length (tirados s)))"
      using ps by simp
    obtain x a' where "s' = vai_r i (CConta x) (s\<lparr>anel_r := a', tirados := tirados s @ [x]\<rparr>)"
      using a CTira by (cases "get_req (anel_r s)") (auto simp: anda_r_casos split: option.splits)
    then show ?thesis using CTira n mu[of ?es "CConta x"] by (simp add: medida_vai ms peso_def)
  next
    case PAvisa
    then have "s' = vai_r i PSai2 (s\<lparr>mon_r := assinala_todos i (mon_r s)\<rparr>)" "dono (mon_r s) = Some i"
      using a d by (simp_all add: anda_r_casos onde_def)
    then show ?thesis using PAvisa mu[of ?es PSai2] pesos_assinala_todos[of "(ponto_r s)(i := PSai2)" ?es]
      by (simp add: medida_vai ms peso_def)
  next
    case (CAvisa r)
    then have "s' = vai_r i (CSai r) (s\<lparr>mon_r := assinala i (mon_r s)\<rparr>)" "dono (mon_r s) = Some i"
      using a d by (simp_all add: anda_r_casos onde_def)
    then show ?thesis using CAvisa mu[of ?es "CSai r"] pesos_assinala[of ?es "(ponto_r s)(i := CSai r)"]
      by (simp add: medida_vai ms peso_def)
  qed (use a es in \<open>auto simp: anda_r_casos medida_vai ms peso_def split: if_splits intro!: pesos_desce[OF i]\<close>)
qed

section \<open>Coming to rest\<close>

lemma corrida_limitada:
  assumes "servidor_ok q s" "faz_todas_r (map Passa xs) s = Inr s'"
  shows "length xs + medida s' \<le> medida s"
  using assms
proof (induction xs arbitrary: q s)
  case (Cons i xs)
  then obtain t where t: "anda_r i s = Inr t" "faz_todas_r (map Passa xs) t = Inr s'"
    by (cases "anda_r i s") (auto simp: faz_r_def)
  obtain q' where "servidor_ok q' t" using anda_r_ok[OF Cons.prems(1), of i] t(1) by auto
  then show ?case using Cons.IH[OF _ t(2)] medida_desce[OF Cons.prems(1) t(1)] by fastforce
qed simp

lemma corrida_215: "servidor_ok q s \<Longrightarrow> faz_todas_r (map Passa xs) s = Inr s' \<Longrightarrow> length xs \<le> 215"
  using corrida_limitada[of q s xs s'] medida_limite[of q s] by simp

definition em_repouso :: "'r servidor \<Rightarrow> bool" where
  "em_repouso s \<longleftrightarrow> (\<forall>i \<le> NUM_TC. anda_r i s = Inl Blocked)"

lemma ha_repouso:
  assumes "servidor_ok q s"
  shows "\<exists>xs s'. faz_todas_r (map Passa xs) s = Inr s' \<and> em_repouso s'"
  using assms
proof (induction "medida s" arbitrary: q s rule: less_induct)
  case less
  show ?case
  proof (cases "em_repouso s")
    case True
    then have "faz_todas_r (map Passa []) s = Inr s \<and> em_repouso s" by simp
    then show ?thesis by blast
  next
    case False
    then obtain i where "anda_r i s \<noteq> Inl Blocked" by (auto simp: em_repouso_def)
    then obtain q' t where t: "anda_r i s = Inr t" "servidor_ok q' t" using anda_r_ok[OF less.prems, of i] by auto
    obtain xs s' where "faz_todas_r (map Passa xs) t = Inr s'" "em_repouso s'"
      using less.hyps[OF medida_desce[OF less.prems t(1)] t(2)] by blast
    then have "faz_todas_r (map Passa (i # xs)) s = Inr s' \<and> em_repouso s'" using t(1) by (simp add: faz_r_def)
    then show ?thesis by blast
  qed
qed

text \<open>At rest the ring is empty, no thread holds a request, and the producer waits for a message.\<close>

lemma repouso:
  assumes ok: "servidor_ok q s" and r: "em_repouso s"
  shows "dono (mon_r s) = None" "ponto_r s 0 = PRecebe" "mset (servidos s) = mset (postos s)"
proof -
  have b: "anda_r i s = Inl Blocked" if "i \<le> NUM_TC" for i using r that by (simp add: em_repouso_def)
  show d: "dono (mon_r s) = None"
  proof (cases "dono (mon_r s)")
    case (Some i)
    have "i \<le> NUM_TC"
    proof (rule ccontr)
      assume "\<not> i \<le> NUM_TC"
      then have "ponto_r s i = Sem" using papel_em[OF ok refl, of i] by (simp add: papel_def split: if_splits)
      then show False using dono_anda[OF ok Some] by (simp add: anda_r_casos)
    qed
    then show ?thesis using b dono_anda[OF ok Some] by auto
  qed
  have q: "q = []" using livre_parado[OF ok d b, of 1] by (simp add: NUM_TC_def)
  then show "ponto_r s 0 = PRecebe" using livre_parado[OF ok d b, of 0] by (simp add: RING_SIZE_def)
  have "na_mao (ponto_r s i) = {#}" if i: "i \<le> NUM_TC" for i
    using parado[OF ok b[OF i] i] by (auto simp: na_mao_def onde_def split: ponto_s.splits)
  then have "maos (ponto_r s) = {#}" unfolding maos_def by (intro sum.neutral) simp
  then show "mset (servidos s) = mset (postos s)" using servidor_pedidos(5)[OF ok] q by simp
qed

lemma anel_livre:
  assumes ok: "servidor_ok q s"
  shows "dono (mon_r s) = None \<longrightarrow> anel_ok (anel_r s) q"
proof
  assume "dono (mon_r s) = None"
  then have "available_reqs (anel_r s) = length q"
    using ok by (simp add: servidor_ok_def ponto_dono_def combina_def a_contar_def)
  then have "(anel_r s)\<lparr>available_reqs := length q\<rparr> = anel_r s" by simp
  then show "anel_ok (anel_r s) q" using ok by (simp add: servidor_ok_def)
qed

text \<open>A request received by the producer, then taken and served by the first consumer.\<close>

definition um_pedido :: "'r \<Rightarrow> 'r accao_r list" where
  "um_pedido r = replicate 4 (Passa 0) @ Recebe EAGAIN # Recebe (Chegou 64 r) # replicate 6 (Passa 0) @ replicate 8 (Passa 1)"

lemma um_pedido_servido:
  "case faz_todas_r (um_pedido (7 :: nat)) servidor_inicial of Inl _ \<Rightarrow> False
   | Inr s \<Rightarrow> postos s = [7] \<and> servidos s = [7] \<and> tirados s = [7] \<and> dono (mon_r s) = None"
  by code_simp

end
