(* ===== verification/Spec2Isabelle.thy ===== *)
theory Spec2Isabelle
  imports RedBlackExtrai ThreadQueue Dump ClienteUso Monitores AnelRepouso
begin

text \<open>
  Thread_Scheduler: a user-level thread library with a completely fair scheduler
  (src/sthread_lib), a file system over a virtual disk with a block cache and copy-on-write,
  served to clients by request messages (src/snfs_server, src/include/snfs_proto.h), and the
  library the clients use (src/snfs_lib).  The threads of the server are threads of the
  scheduler; the readers and writers sections of the file system are made of its monitors.

  \<^bold>\<open>How a C function is modelled.\<close>  A C function becomes a function with the same name (a suffix
  tells apart names that two files use) over an explicit state, and its loops become recursive
  functions.  Its result is the returned value with the new state, or a value of \<open>stop\<close>
  (CPrelude): access to a bad address, an index outside an array, waiting for a condition,
  \<open>exit\<close>, and \<open>NoFuel\<close>, the model's own bound on a loop.  \<open>malloc\<close> succeeds and returns a new
  address; \<open>free\<close> makes the address invalid.  Structures are records, unions are datatypes,
  unsigned integers of 32, 16 and 8 bits are words, as is the clock of the scheduler; its other
  counters, times and identifiers are unbounded integers.  Printed output is a list.  Values that
  the code reads without having set them are parameters: the sequences \<open>lixo\<close> (variables of the
  cache) and \<open>pilha\<close> (local buffers of the file system), the argument \<open>lixo\<close> of a new thread
  (\<open>waittime\<close>) and \<open>z\<close> (a variable of the handlers).

  \<^bold>\<open>Theories, by component.\<close>
  \<^item> CPrelude, Agenda: outcomes and their sequencing, addresses, list facts; the locales
    \<open>deposito\<close>, \<open>agenda\<close> and \<open>fifo\<close>, the contracts of a container one inserts into and takes from.
  \<^item> RedBlack (redblack.c): the tree as cells with parent pointers, colours, two sentinels and
    the cached minimum.  RedBlackRep gives the shape and the contents that cells represent, and
    the rotations; RedBlackCores the colour and black-height invariants; RedBlackInsere,
    RedBlackLeitura, RedBlackElimina and RedBlackExtrai the proofs for insertion, searches,
    the repair loop of the deletion and the extraction of the minimum.  \<open>rb t s\<close> is the invariant,
    \<open>itens t s\<close> the items by key.  The tree interprets \<open>deposito\<close> (\<open>arvore\<close>) and \<open>agenda\<close> (\<open>pronta\<close>).
  \<^item> ThreadQueue (sthread_lib/queue.c): linked cells and the one recycled cell; \<open>fifo\<close> as \<open>threads\<close>.
  \<^item> Scheduler (sthread_user.c): the record \<open>sched\<close> has the threads, the ready and the sleeping
    tree, the lists of joiners, zombies and dead threads, mutexes, monitors and the clock.  A switch
    pushes what the calling function still has to do on a stack of the old thread (\<open>conts\<close>); the
    machine (\<open>passo\<close>, \<open>alcanca\<close>) resumes the active thread or lets it make any call, a clock tick
    among them.  SchedulerLemas has the invariant and the effect of the calls, Despacho which thread
    runs next; Dump is sthread_user_dump and what it shows of a well-formed state.
  \<^item> Block (block.c), Hash (hash.c), Cache (cache.c): the disk, the table of the cache, the cache
    with delayed writes.  \<open>vista c b\<close> is what block \<open>b\<close> reads as through the cache.
  \<^item> ListaRef (list.c), FsDados, FsOps, FsCopia (fs.c): the list of the usage report; inodes,
    bitmaps, directory pages, references; the operations on one file or directory; removing,
    copying, appending, defragmenting, reporting.  FsLemas has lemmas on bitmaps, the metadata on
    disk and the entries of a page; FsLeitura and FsEscrita the content of a file (\<open>conteudo_f\<close>)
    and what fs_read and fs_write do to it; FsDirectorio the entries of a directory (\<open>entradas\<close>),
    the path that leads to an inode (\<open>segue_caminho\<close>), and what fs_create, fs_mkdir, fs_lookup and
    fs_readdir do with them.
  \<^item> MonitorSinc: a monitor as its users see it, and who is inside it (\<open>posse\<close>, \<open>mon_certo\<close>);
    Monitores shows that the monitors of Scheduler behave like this.  Sincronizacao (the four
    section functions of fs.c, with interleavings) has any number of threads, each function cut at
    every access to a shared variable or monitor.
  \<^item> Servidor (snfs_proto.h, snfs.c, server.c): messages, handlers, the table of services, and the
    ring between the receiving thread and the working threads (\<open>fifo\<close> as \<open>anel\<close>), one call of a
    thread at a time.  AnelConcorrente has the producer and the consumers of server.c with their
    interleavings: program points, the actions of the threads and the arrival of messages, the
    invariant \<open>servidor_ok q s\<close> with \<open>q\<close> the requests of the ring; AnelRepouso a measure of the work
    left and the states where nothing moves.
  \<^item> FilaFich (snfs_lib/queue.c, the descriptors of myfs.h; \<open>fifo\<close> as \<open>abertos\<close>), SnfsApi
    (snfs_api.c), MyFs and MyFsNomes (myfs.c): the client.  ClienteLemas has the locales
    \<open>leitor_remoto\<close> and \<open>ficheiro_remoto\<close>, what my_read and my_write need of the server, proved of
    the handlers over the file system (\<open>no_servidor\<close>); ClienteUso the invariant over sequences of
    calls, the termination of my_write and the splitting of paths.

  \<^bold>\<open>How the parts meet.\<close>  C1 to C4 give the scheduler a sorted list for its ready tree; C16 to C25
  are about the scheduler on it.  The block cache gives the file system a map from block numbers
  to contents (C35, C36); fs_read and fs_write are proved over that map (C5, C6), directories
  over the disk (C7, C8), and C9 is the life of a file through both.  The handlers pass these
  operations on, and the client is proved against the handlers (C12): bytes that go into my_write
  come out of my_read, through messages, handlers, inodes, blocks, cache and disk.  C26
  and C27 are about the threads that pass the requests on, and C28 to C31 connect the sections of
  the file system with the monitors of the scheduler, which C31 shows to be the ones of both.

  \<^bold>\<open>What the hypotheses mean.\<close>  \<open>pronto fs f K\<close>: the file system is well formed between two
  operations, the blocks of file \<open>f\<close> are not shared, and the disk and the cache have room for it to
  grow to \<open>K\<close> blocks, at most the ten of an inode.  \<open>arvore_dirs fs\<close>: every inode in use is well
  formed, directories share no block with another inode, and neither their pages nor free blocks
  are in the cache.  \<open>ha_lugar fs d\<close>: directory \<open>d\<close> has less than 320 entries, and there is a free
  inode and, at the end of a page, a free block.  \<open>cliente_ok\<close>: the count of open files and the list
  agree.  The examples after the header satisfy them.

  \<^bold>\<open>Bounds and fuel.\<close>  Walks over cells take the next unused address (\<open>prox\<close>, \<open>prox_q\<close>, \<open>prox_f\<close>)
  or one more as fuel: a walk that does not repeat a cell is shorter, and the lemmas on represented
  trees and queues show that insertion, extraction, searches, the dump and the queue operations do
  not end in \<open>NoFuel\<close>.  my_write takes one more than the number of bytes, which C11 shows to be
  enough.  my_read has its fuel as a parameter: its loop does not end when the server sends no
  bytes, which C15 reaches; with a contract on the server, one more than the number of bytes is
  enough (\<open>my_read_ok\<close>).  fs_diskUsage has the depth of the tree of directories as fuel, and so
  have the handlers and the server; no property needs a value.

  \<^bold>\<open>Parameters.\<close>  The socket of the client (\<open>'w rede\<close>): \<open>sendto\<close> and \<open>recvfrom\<close> on a world \<open>'w\<close>;
  \<open>ao_servidor\<close> is the instance that calls the handlers.  The start routines and arguments of
  threads are uninterpreted numbers.  In AnelConcorrente the requests are a type variable and what
  recvfrom brings is an argument of the step.

  \<^bold>\<open>Not modelled.\<close>  The sockets and signals of server.c; its main function is the initial state of
  AnelConcorrente.  In AnelConcorrente serving a request is one step that ends; the handlers
  themselves can wait for ever at the monitors of the file system (C30).  snfs_finish of the
  client, which closes its socket.  Thread contexts and the clock signal (sthread_ctx.c,
  sthread_time_slice.c, the assembly): stacks, registers and signals, of which the scheduler sees a
  switch and a tick.  sthread.c and sthread_pthread.c: a dispatch to the user-level functions and
  wrappers of the pthread library.  io_delay.c, which only sleeps.  The functions of the trees, the
  table and the inode table that only print.  The copies of the hash table and of the list that
  nothing calls.
\<close>

section \<open>Small states for the examples\<close>

lemma arvore_um: "\<exists>t s. RBInserirNo RBNovaArvore 5 1 100 = Inr t \<and> rb t s \<and> itens t s = [(5, 1, 100)]"
proof -
  have "itens RBNovaArvore Lf = []" by (simp add: itens_def)
  then show ?thesis using RBInserirNo_ok[OF rb_nova, of 5 1 100] by auto
qed

definition disco16 :: blocks_t where
  "disco16 = \<lparr>block_size = 512, num_blocks = 16, blocks = replicate 16 (zeros 512)\<rparr>"

definition cache8 :: cache_t where
  "cache8 = criarCache (\<lambda>_. 1) 8 disco16"

lemma disco16_ok: "disco_ok disco16" "num_blocks disco16 = 16" "block_size disco16 = 512"
  by (simp_all add: disco_ok_def disco16_def)

lemma cache8_ok: "cache_ok cache8" "semente cache8" "nos_ok (tabela cache8)"
  "bloco_valido cache8 3" "cabe cache8 3" "vista cache8 3 = zeros 512"
proof -
  have *: "block_size disco16 = of_nat BLOCK_SIZE" by (simp add: disco16_ok BLOCK_SIZE_def)
  show "cache_ok cache8" unfolding cache8_def by (rule criarCache_ok(1)[OF disco16_ok(1) *]) simp
  show "vista cache8 3 = zeros 512"
    unfolding cache8_def using criarCache_ok(2)[OF disco16_ok(1) *, of 8 3] by (simp add: disco16_def)
  show "semente cache8" "nos_ok (tabela cache8)" "bloco_valido cache8 3" "cabe cache8 3"
    by (simp_all add: cache8_def criarCache_def semente_def nos_ok_def newHash_def bloco_valido_def cabe_def
        disco16_def NULL_def)
qed

definition inode0 :: fs_inode where
  "inode0 = \<lparr>itype = 0, isize = 0, iblocks = replicate 10 0, reserved = replicate 4 0\<rparr>"

definition fs16 :: fs_t where
  "fs16 = \<lparr>cache = cache8, referencias = replicate 16 0, inode_bmap = 3 # replicate 511 0,
     blk_bmap = 255 # 3 # replicate 510 0, inode_tab = inode0 # fsi_inode_init inode0 FS_DIR # replicate 62 inode0,
     leitores = 0, escritores = 0, wanna_leitor = 0, wanna_escritor = 0, turno = 0, defrag_state = 0,
     pilha = (\<lambda>_. zeros 512), n_pilha = 0\<rparr>"

lemma fs16_ok: "fs_meta fs16" "length (inode_tab fs16) = ITAB_SIZE"
proof -
  have "inode_ok (if i < 2 then (inode0 # [fsi_inode_init inode0 FS_DIR]) ! i else inode0)" for i
    by (auto simp: inode_ok_def inode0_def fsi_inode_init_def INODE_NUM_BLKS_def less_2_cases_iff)
  then show "fs_meta fs16" "length (inode_tab fs16) = ITAB_SIZE"
    using disco16_ok
    by (auto simp: fs_meta_def meta_disco_def tab_ok_def fs16_def bks_def cache8_def criarCache_def BLOCK_SIZE_def
        ITAB_SIZE_def inode_ok_def inode0_def fsi_inode_init_def INODE_NUM_BLKS_def)
qed

lemma fs16_campos: "livre fs16" "length (inode_bmap fs16) = 512" "\<not> ocupado (inode_bmap fs16) 5"
  by (simp_all add: livre_def fs16_def ocupado_def)

lemma fs16_blocos: "unat (num_blocks (bks fs16)) = 16" "b < 16 \<Longrightarrow> ocupado (blk_bmap fs16) b = (b < 10)"
  "inode_tab fs16 ! 1 = fsi_inode_init inode0 FS_DIR" "g < 64 \<Longrightarrow> ocupado (inode_bmap fs16) g = (g < 2)"
  "inode_tab fs16 ! 0 = inode0"
proof -
  show "unat (num_blocks (bks fs16)) = 16" "inode_tab fs16 ! 1 = fsi_inode_init inode0 FS_DIR" "inode_tab fs16 ! 0 = inode0"
    by (simp_all add: fs16_def cache8_def criarCache_def bks_def disco16_def)
  have "\<forall>b \<in> {..<16}. ocupado (blk_bmap fs16) b \<longleftrightarrow> b < 10"
    by (simp add: lessThan_nat_numeral lessThan_Suc ocupado_def fs16_def)
  then show "b < 16 \<Longrightarrow> ocupado (blk_bmap fs16) b = (b < 10)" by simp
  have "\<forall>g \<in> {..<8}. ocupado (inode_bmap fs16) g \<longleftrightarrow> g < 2"
    by (simp add: lessThan_nat_numeral lessThan_Suc ocupado_def fs16_def)
  moreover have "\<not> ocupado (inode_bmap fs16) g" if "8 \<le> g" "g < 64"
  proof -
    have "1 \<le> g div 8" "g div 8 < 8" using that by simp_all
    then show ?thesis by (simp add: ocupado_def fs16_def nth_Cons')
  qed
  ultimately show "g < 64 \<Longrightarrow> ocupado (inode_bmap fs16) g = (g < 2)" by (cases "g < 8") auto
qed

text \<open>A file system with an empty root directory, six free blocks and an empty cache.\<close>

lemma fs16_arvore: "arvore_dirs fs16" "dir_ok fs16 1" "ha_lugar fs16 1" "entradas fs16 1 = []" "5 < card (blocos_livres fs16)"
  "numeroNosUtilizados (cache fs16) = 0" "numeroMaxNos (cache fs16) = 8"
proof -
  note b = fs16_blocos
  have "mapa (tabela cache8) k = None" for k using newHash_ok(2) by (simp add: cache8_def criarCache_def)
  then have m: "mapa (tabela (cache fs16)) k = None" for k by (simp add: fs16_def)
  then have d: "dom (mapa (tabela (cache fs16))) = {}" by auto
  show "numeroNosUtilizados (cache fs16) = 0" "numeroMaxNos (cache fs16) = 8"
    by (simp_all add: fs16_def cache8_def criarCache_def)
  have c: "cache_ok (cache fs16)" "semente (cache fs16)" using cache8_ok(1,2) by (simp_all add: fs16_def)
  have "length (referencias fs16) = 16" "\<forall>b < 16. referencias fs16 ! b = 0" "\<forall>i. length (pilha fs16 i) = BLOCK_SIZE"
    by (simp_all add: fs16_def BLOCK_SIZE_def)
  then have ok: "fs_ok fs16"
    using fs16_ok(1) fs16_campos(1) c d b(1,2) by (simp add: fs_ok_def)
  have z: "isize (inode_tab fs16 ! 1) = 0" "itype (inode_tab fs16 ! 1) = FS_DIR" by (simp_all add: b(3)[simplified] fsi_inode_init_def)
  then have bl: "blocos fs16 1 = []" by (simp add: blocos_def OFFSET_TO_BLOCKS_def)
  show e: "entradas fs16 1 = []" using z(1) by (simp add: entradas_def num_dentrys_def)
  show r: "dir_ok fs16 1" using z bl e b(4)[of 1] by (simp add: dir_ok_def blocos_ok_def ITAB_SIZE_def)
  have l: "blocos_livres fs16 = {10..<16}" using b(1,2) by (auto simp: blocos_livres_def not_less)
  then show "5 < card (blocos_livres fs16)" by simp
  have so: "g = 1" if "g < ITAB_SIZE" "ocupado (inode_bmap fs16) g" "itype (inode_tab fs16 ! g) \<noteq> 0" for g
  proof -
    have "g < 2" using that(1,2) b(4)[of g] by (simp add: ITAB_SIZE_def)
    moreover have "g \<noteq> 0" using that(3) b(5) by (cases "g = 0") (simp_all add: inode0_def)
    ultimately show ?thesis by simp
  qed
  have um: "g = 1" if "dir_ok fs16 g \<or> ficheiro fs16 g" for g
    using that so[of g] by (auto simp: dir_ok_def ficheiro_def FS_DIR_def FS_FILE_def)
  show "arvore_dirs fs16"
    unfolding arvore_dirs_def
  proof (intro conjI allI impI ballI)
    fix g assume g: "g < ITAB_SIZE" "ocupado (inode_bmap fs16) g"
    show "dir_ok fs16 g" if "itype (inode_tab fs16 ! g) = FS_DIR" using so[OF g] r that by (simp add: FS_DIR_def)
    show "ficheiro fs16 g" if "itype (inode_tab fs16 ! g) = FS_FILE"
      using so[OF g] z(2) that by (simp add: FS_DIR_def FS_FILE_def)
  next
    fix x g assume "dir_ok fs16 x" "dir_ok fs16 g \<or> ficheiro fs16 g" "g \<noteq> x"
    then show "set (blocos fs16 g) \<inter> set (blocos fs16 x) = {}" using um by blast
  qed (use ok m in auto)
  have "\<not> ocupado (inode_bmap fs16) 2" using b(4)[of 2] by simp
  then have "\<exists>i < ITAB_SIZE. \<not> ocupado (inode_bmap fs16) i" by (intro exI[of _ 2]) (simp add: ITAB_SIZE_def)
  then show "ha_lugar fs16 1" using e l m by (simp add: ha_lugar_def)
qed

definition fich16 :: fs_t where
  "fich16 = fs16\<lparr>inode_bmap := 7 # replicate 511 0, blk_bmap := 255 # 15 # replicate 510 0,
     referencias := replicate 10 0 @ [1, 1] @ replicate 4 0,
     inode_tab := inode0 # fsi_inode_init inode0 FS_DIR #
       \<lparr>itype = FS_FILE, isize = 600, iblocks = 10 # 11 # replicate 8 0, reserved = replicate 4 0\<rparr> # replicate 61 inode0\<rparr>"

lemma fich16_tab: "tab_ok (inode_tab fich16)"
  by (auto simp: tab_ok_def fich16_def ITAB_SIZE_def inode_ok_def inode0_def fsi_inode_init_def INODE_NUM_BLKS_def)

lemma fich16_blocos: "inode_tab fich16 ! 2 = \<lparr>itype = FS_FILE, isize = 600, iblocks = 10 # 11 # replicate 8 0, reserved = replicate 4 0\<rparr>"
  "blocos fich16 2 = [10, 11]" "cache fich16 = cache8" "unat (num_blocks (bks fich16)) = 16" "livre fich16"
  by (simp_all add: fich16_def blocos_def OFFSET_TO_BLOCKS_def fs16_def cache8_def criarCache_def bks_def disco16_def livre_def)

lemma fich16_pronto: "pronto fich16 2 3"
proof -
  have m: "fs_meta fich16"
    using fs16_ok(1) fich16_tab by (simp add: fs_meta_def fich16_def fs16_def bks_def BLOCK_SIZE_def)
  have "mapa (tabela cache8) k = None" for k
    using newHash_ok(2) by (simp add: cache8_def criarCache_def)
  then have d: "dom (mapa (tabela cache8)) = {}" "numeroNosUtilizados cache8 = 0" "numeroMaxNos cache8 = 8"
    by (auto simp: cache8_def criarCache_def)
  have ob: "ocupado (blk_bmap fich16) b \<longleftrightarrow> b < 12" if "b < 16" for b
  proof -
    have "\<forall>b \<in> {..<16}. ocupado (blk_bmap fich16) b \<longleftrightarrow> b < 12"
      by (simp add: lessThan_nat_numeral lessThan_Suc ocupado_def fich16_def)
    then show ?thesis using that by simp
  qed
  have rf: "length (referencias fich16) = 16" "referencias fich16 ! 10 = 1" "referencias fich16 ! 11 = 1"
    "12 \<le> b \<Longrightarrow> b < 16 \<Longrightarrow> referencias fich16 ! b = 0" for b
    by (auto simp: fich16_def nth_append nth_Cons')
  have l: "length (pilha fich16 i) = BLOCK_SIZE" for i by (simp add: fich16_def fs16_def BLOCK_SIZE_def)
  have "fs_ok fich16"
    using m cache8_ok(1,2) d(1) ob fich16_blocos rf l by (simp add: fs_ok_def)
  moreover have "ficheiro fich16 2"
    using fich16_blocos ob by (simp add: ficheiro_def blocos_ok_def ITAB_SIZE_def) (simp add: fich16_def ocupado_def)
  moreover have "proprios fich16 [10, 11]" using fich16_blocos rf by (simp add: proprios_def)
  moreover have "12 \<in> blocos_livres fich16" using ob fich16_blocos by (simp add: blocos_livres_def)
  then have "1 \<le> card (blocos_livres fich16)" by (auto simp: Suc_le_eq card_gt_0_iff)
  moreover have "espaco cache8 {10, 11} 1" using d by (simp add: espaco_def)
  ultimately show ?thesis using fich16_blocos by (simp add: pronto_def)
qed

definition cliente_um :: cliente where
  "cliente_um = \<lparr>Open_files_list = Some \<lparr>first_f = 2, last_f = 2\<rparr>, Lib_initted = True, Open_files = 1,
     mem_c = \<lparr>elems_f = [2 \<mapsto> \<lparr>fd_e = 1, next_e = NULL\<rparr>],
       fds = [1 \<mapsto> \<lparr>fileId = 2, size_fd = 600, read_offset = 0, write_offset = 0\<rparr>], prox_f = 3\<rparr>\<rparr>"

lemma cliente_um_aberto: "aberto cliente_um 2 1 \<lparr>fileId = 2, size_fd = 600, read_offset = 0, write_offset = 0\<rparr>"
proof -
  have "fila_f (mem_c cliente_um) \<lparr>first_f = 2, last_f = 2\<rparr> [2] [1]"
    by (auto simp: cliente_um_def fila_f_def mem_f_ok_def NULL_def)
  moreover have "find (tem_id (mem_c cliente_um) 2) [1] = Some 1" by (simp add: cliente_um_def tem_id_def)
  moreover have "Open_files_list cliente_um = Some \<lparr>first_f = 2, last_f = 2\<rparr>" "Lib_initted cliente_um"
    "fds (mem_c cliente_um) 1 = Some \<lparr>fileId = 2, size_fd = 600, read_offset = 0, write_offset = 0\<rparr>"
    by (simp_all add: cliente_um_def)
  ultimately show ?thesis unfolding aberto_def by blast
qed

definition cliente_pronto :: cliente where
  "cliente_pronto = snd (my_init_lib cliente_inicial True True)"

text \<open>
  A server with an empty directory "/d" of size 16, where every new file has handle 5 and no
  content; the world is the request that waits for its response.
\<close>

definition resposta_dir :: "snfs_msg_req \<Rightarrow> snfs_msg_res" where
  "resposta_dir r =
     (case r of
        REQ_LOOKUP n \<Rightarrow> if n = [47, 100] then responde 2 8 RES_OK (LookupRes 3 16) else responde 2 8 RES_ERROR Vazio
      | REQ_CREATE d n \<Rightarrow> responde 5 4 RES_OK (FileRes 5)
      | REQ_READ f off cnt \<Rightarrow> responde 3 1028 RES_OK (ReadRes [])
      | _ \<Rightarrow> responde 0 0 RES_ERROR Vazio)"

definition rede_dir :: "snfs_msg_req option rede" where
  "rede_dir = \<lparr>sendto = (\<lambda>w r. (1, Some r)),
     recvfrom = (\<lambda>w. case w of None \<Rightarrow> Inl Blocked | Some r \<Rightarrow> Inr (8, resposta_dir r, None))\<rparr>"

lemma rede_dir_chama: "remote_call rede_dir w r = Inr (8, resposta_dir r, None)"
  by (simp add: remote_call_def rede_dir_def)

lemma rede_dir_NoFuel: "nunca_NoFuel rede_dir"
  by (simp add: nunca_NoFuel_def rede_dir_def split: option.splits)

lemma caminho_df: "myparse [47, 100, 47, 102] = Inr 0" "separa [47, 100, 47, 102] = Inr (2, [102], [47, 100])"
proof -
  show p: "myparse [47, 100, 47, 102] = Inr 0"
    by (simp add: myparse_def strcpy_a_def cstr_a_def MAX_PATH_NAME_SIZE_def poe_bytes_def BARRA_def tokens_def MAX_FILE_NAME_SIZE_def)
  show "separa [47, 100, 47, 102] = Inr (2, [102], [47, 100])"
    using separa_ok[of "[47, 100]" "[102]"] p by (simp add: BARRA_def tokens_def)
qed

lemma cliente_pronto_ok: "uso rede_dir cliente_pronto" "cliente_ok cliente_pronto" "Lib_initted cliente_pronto"
  "Open_files cliente_pronto < MAX_OPEN_FILES" "\<not> tem_id (mem_c cliente_pronto) i a"
proof -
  show u: "uso rede_dir cliente_pronto" unfolding cliente_pronto_def
    by (rule uso.inicio[of True True "fst (my_init_lib cliente_inicial True True)"]) simp
  then show "cliente_ok cliente_pronto" by (rule uso_ok)
qed (simp_all add: cliente_pronto_def my_init_lib_def cliente_inicial_def MAX_OPEN_FILES_def tem_id_def)



definition cinco_ticks :: sched where
  "cinco_ticks = (sthread_user_init 0)
     \<lparr>threads := [1 \<mapsto> (the (threads (sthread_user_init 0) 1))\<lparr>times_runned := 5, exectime := 5\<rparr>]\<rparr>"

section \<open>The red-black trees\<close>

text \<open>
  C1: Inserting an item into a well-formed red-black tree, with any key but the key -1 of the
  sentinels, terminates without touching an invalid address; the tree is well formed again
  (search order, no red node with a red child, equal black heights, right minimum), no node is
  freed, and its items in order are the old ones with the new one after every item of the same
  or a smaller key.
\<close>
theorem RBInserirNo_correcta:
  assumes "rb t s" "k \<noteq> -1"
  shows "\<exists>t' s'. RBInserirNo t k i e = Inr t' \<and> rb t' s' \<and>
     itens t' s' = fila_insere (k, i, e) (itens t s) \<and> libertados t' = libertados t"
  using RBInserirNo_ok[OF assms] .

theorem RBInserirNo_correcta_wit:
  "\<exists>t' s'. RBInserirNo RBNovaArvore 5 1 100 = Inr t' \<and> rb t' s' \<and> itens t' s' = [(5, 1, 100)]"
proof -
  have "itens RBNovaArvore Lf = []" by (simp add: itens_def)
  then show ?thesis using RBInserirNo_correcta[OF rb_nova, of 5 1 100] by auto
qed

text \<open>
  C2: RBExtraiMininimo of a well-formed tree that is not empty returns the element of the first
  item and removes that item, and only it: the node with the smallest key, and among equal keys
  the one inserted first.  The tree is well formed again, so every colour, height and order
  invariant survives the repair of the deletion.
\<close>
theorem RBExtraiMininimo_correcta:
  assumes "rb t s" "s \<noteq> Lf"
  shows "\<exists>t' s'. RBExtraiMininimo t = Inr (snd (snd (hd (itens t s))), t') \<and> rb t' s' \<and>
     itens t' s' = tl (itens t s) \<and> libertados t' = libertados t"
  using RBExtraiMininimo_ok[OF assms] .

theorem RBExtraiMininimo_correcta_wit:
  "\<exists>t t' s'. RBInserirNo RBNovaArvore 5 1 100 = Inr t \<and> RBExtraiMininimo t = Inr (100, t') \<and> rb t' s' \<and> itens t' s' = []"
proof -
  obtain t s where t: "RBInserirNo RBNovaArvore 5 1 100 = Inr t" "rb t s" "itens t s = [(5, 1, 100)]"
    using arvore_um by blast
  then have "s \<noteq> Lf" by (auto simp: itens_def)
  then show ?thesis using RBExtraiMininimo_correcta[OF t(2)] t by auto
qed





section \<open>The first states of the scheduler\<close>




section \<open>Files and directories\<close>



text \<open>
  C6: fs_write on a file that can grow to \<open>K\<close> blocks, at an offset cut to its size and with data
  that fits, succeeds; the content becomes the old one with the data at the offset, the file can
  still grow to \<open>K\<close> blocks, and no file with other blocks changes.
\<close>
theorem fs_write_correcta:
  assumes "pronto fs (unat file) K" "k = min (unat off) (length (conteudo_f fs (unat file)))"
    "k + unat cnt \<le> 512 * K" "unat cnt \<le> length data"
  shows "\<exists>fs'. fs_write fs file off cnt data = Inr (0, fs') \<and> pronto fs' (unat file) K \<and>
    conteudo_f fs' (unat file) = emenda (conteudo_f fs (unat file)) k (take (unat cnt) data) \<and>
    (\<forall>g. ficheiro fs g \<longrightarrow> g \<noteq> unat file \<longrightarrow> set (blocos fs g) \<inter> set (blocos fs (unat file)) = {} \<longrightarrow>
       ficheiro fs' g \<and> blocos fs' g = blocos fs g \<and> conteudo_f fs' g = conteudo_f fs g \<and>
       set (blocos fs' g) \<inter> set (blocos fs' (unat file)) = {})"
  using fs_write_ok[OF assms] .

theorem fs_write_correcta_wit:
  "\<exists>fs'. fs_write fich16 2 600 700 (replicate 700 9) = Inr (0, fs') \<and> conteudo_f fs' 2 = conteudo_f fich16 2 @ replicate 700 9"
proof -
  have l: "length (conteudo_f fich16 2) = 600"
    using fich16_pronto blocos_length(5)[of fich16 2] fich16_blocos(1) by (simp add: pronto_def)
  then show ?thesis
    using fs_write_correcta[of fich16 2 3 600 600 700 "replicate 700 9"] fich16_pronto emenda_fim[of "conteudo_f fich16 2"] by auto
qed

text \<open>
  C7: A file created in a directory that a path leads to is empty, is found by fs_lookup under
  the path and its name, and is listed by fs_readdir behind the entries that were there; every path
  leads where it led before, and every other file keeps its content.
\<close>
theorem criar_e_procurar:
  assumes "arvore_dirs fs" "dir_ok fs d" "segue_caminho fs (tokens p) 1 = Some d" "ha_lugar fs d"
    "\<not> nome_mau s" "0 \<notin> set s" "BARRA \<notin> set s" "map_of (entradas fs d) s = None"
    "p = [] \<or> take 1 p = [BARRA]" "length (p @ BARRA # s) < MAX_PATH_NAME_SIZE"
    "\<forall>e \<in> set (entradas fs d). unat (snd e) < ITAB_SIZE"
  shows "\<exists>f fs' fs1 fs2. fs_create fs (of_nat d) s = Inr (0, Some f, fs') \<and> arvore_dirs fs' \<and> conteudo_f fs' (unat f) = [] \<and>
    fs_lookup fs' (p @ BARRA # s) = Inr (1, Some f, fs1) \<and>
    fs_readdir fs' (of_nat d) 320 = Inr (0, Some (map (com_tipo fs') (entradas fs d) @ [(s, FS_FILE)]), fs2) \<and>
    (\<forall>ts e. segue_caminho fs ts 1 = Some e \<longrightarrow> segue_caminho fs' ts 1 = Some e) \<and>
    (\<forall>g. ficheiro fs g \<longrightarrow> ficheiro fs' g \<and> conteudo_f fs' g = conteudo_f fs g)"
  using criar_procurar_listar[OF assms] .

theorem criar_e_procurar_wit:
  "\<exists>f fs' fs1 fs2. fs_create fs16 1 [102] = Inr (0, Some f, fs') \<and> fs_lookup fs' [47, 102] = Inr (1, Some f, fs1) \<and>
     fs_readdir fs' 1 320 = Inr (0, Some [([102], FS_FILE)], fs2)"
  using criar_e_procurar[OF fs16_arvore(1,2) _ fs16_arvore(3), of "[]" "[102]"] fs16_arvore(4)
  by (auto simp: tokens_def nome_mau_def FS_MAX_FNAME_SZ_def BARRA_def MAX_PATH_NAME_SIZE_def)

text \<open>
  C8: A directory made with fs_mkdir is found under its path and is empty; every path leads where
  it led before, every other file keeps its content, and the tree of directories stays well formed.
\<close>
theorem mkdir_correcta:
  assumes "arvore_dirs fs" "dir_ok fs d" "segue_caminho fs (tokens p) 1 = Some d" "ha_lugar fs d"
    "\<not> nome_mau s" "0 \<notin> set s" "BARRA \<notin> set s" "map_of (entradas fs d) s = None"
    "p = [] \<or> take 1 p = [BARRA]" "length (p @ BARRA # s) < MAX_PATH_NAME_SIZE"
  shows "\<exists>f fs' fs1 fs2. fs_mkdir fs (of_nat d) s = Inr (0, Some f, fs') \<and> arvore_dirs fs' \<and> dir_ok fs' (unat f) \<and>
    fs_lookup fs' (p @ BARRA # s) = Inr (1, Some f, fs1) \<and> fs_readdir fs' f 320 = Inr (0, Some [], fs2) \<and>
    segue_caminho fs' (tokens p @ [s]) 1 = Some (unat f) \<and>
    (\<forall>ts e. segue_caminho fs ts 1 = Some e \<longrightarrow> segue_caminho fs' ts 1 = Some e) \<and>
    (\<forall>g. ficheiro fs g \<longrightarrow> ficheiro fs' g \<and> conteudo_f fs' g = conteudo_f fs g)"
  using mkdir_procurar_listar[OF assms] .

theorem mkdir_correcta_wit:
  "\<exists>f fs' fs1. fs_mkdir fs16 1 [100] = Inr (0, Some f, fs') \<and> fs_lookup fs' [47, 100] = Inr (1, Some f, fs1) \<and> arvore_dirs fs'"
  using mkdir_correcta[OF fs16_arvore(1,2) _ fs16_arvore(3), of "[]" "[100]"] fs16_arvore(4)
  by (auto simp: tokens_def nome_mau_def FS_MAX_FNAME_SZ_def BARRA_def MAX_PATH_NAME_SIZE_def)

text \<open>
  C9: The life of a file: created, written from its start, found again by its path and read, it
  gives back the bytes written, when they fit \<open>K\<close> blocks that the disk and the cache have.
\<close>
theorem criado_escrito_e_lido:
  assumes "arvore_dirs fs" "dir_ok fs d" "segue_caminho fs (tokens p) 1 = Some d" "ha_lugar fs d"
    "\<not> nome_mau s" "0 \<notin> set s" "BARRA \<notin> set s" "map_of (entradas fs d) s = None"
    "p = [] \<or> take 1 p = [BARRA]" "length (p @ BARRA # s) < MAX_PATH_NAME_SIZE"
    "K \<le> 10" "K < card (blocos_livres fs)" "numeroNosUtilizados (cache fs) + int K \<le> numeroMaxNos (cache fs)"
    "unat cnt = length data" "length data \<le> 512 * K"
  shows "\<exists>f fs1 fs2 fs3 fs4. fs_create fs (of_nat d) s = Inr (0, Some f, fs1) \<and> fs_write fs1 f 0 cnt data = Inr (0, fs2) \<and>
    fs_lookup fs2 (p @ BARRA # s) = Inr (1, Some f, fs3) \<and> fs_read fs3 f 0 cnt = Inr (0, Some data, fs4) \<and> arvore_dirs fs2 \<and>
    (\<forall>g. ficheiro fs g \<longrightarrow> ficheiro fs2 g \<and> conteudo_f fs2 g = conteudo_f fs g)"
  using criar_escrever_ler[OF assms] .

theorem criado_escrito_e_lido_wit:
  "\<exists>f fs1 fs2 fs3 fs4. fs_create fs16 1 [102] = Inr (0, Some f, fs1) \<and> fs_write fs1 f 0 700 (replicate 700 9) = Inr (0, fs2) \<and>
     fs_lookup fs2 [47, 102] = Inr (1, Some f, fs3) \<and> fs_read fs3 f 0 700 = Inr (0, Some (replicate 700 9), fs4)"
  using criado_escrito_e_lido[OF fs16_arvore(1,2) _ fs16_arvore(3), of "[]" "[102]" 3 700 "replicate 700 9"] fs16_arvore(4-7)
  by (auto simp: tokens_def nome_mau_def FS_MAX_FNAME_SZ_def BARRA_def MAX_PATH_NAME_SIZE_def)

section \<open>The client\<close>

text \<open>
  C10: After any sequence of my_open, my_read, my_write and my_close on the client that
  my_init_lib initialised, whatever the server answers, the queue of open files is well formed,
  holds each descriptor once, is as long as the count of open files, and has at most ten.
\<close>
theorem cliente_consistente:
  assumes "uso N c" "Lib_initted c"
  shows "\<exists>q ps as. Open_files_list c = Some q \<and> fila_f (mem_c c) q ps as \<and> distinct as \<and>
    Open_files c = int (length as) \<and> length as \<le> 10"
proof -
  obtain q ps as where "Open_files_list c = Some q" "fila_f (mem_c c) q ps as" "distinct as"
    "Open_files c = int (length as)" "Open_files c \<le> MAX_OPEN_FILES"
    using uso_ok[OF assms(1)] assms(2) unfolding cliente_ok_def by blast
  then show ?thesis by (intro exI[of _ q] exI[of _ ps] exI[of _ as]) (simp add: MAX_OPEN_FILES_def)
qed

theorem cliente_consistente_wit:
  "\<exists>q ps as. Open_files_list cliente_pronto = Some q \<and> fila_f (mem_c cliente_pronto) q ps as \<and> length as \<le> 10"
  using cliente_consistente[OF cliente_pronto_ok(1,3)] by blast

text \<open>
  C11: my_write returns: its loop never runs longer than the number of bytes to write plus one,
  on a client that was used in any way, if waiting for a response ends.
\<close>
theorem my_write_termina:
  assumes "nunca_NoFuel N" "uso N c"
  shows "my_write N c w i buffer n \<noteq> Inl NoFuel"
proof (cases "Lib_initted c")
  case True
  then have "\<exists>q ps as. Open_files_list c = Some q \<and> fila_f (mem_c c) q ps as"
    using uso_ok[OF assms(2)] unfolding cliente_ok_def by blast
  then show ?thesis by (rule my_write_NoFuel[OF assms(1)])
qed (simp add: my_write_def)

theorem my_write_termina_wit: "my_write rede_dir cliente_pronto None 5 (replicate 3000 7) 3000 \<noteq> Inl NoFuel"
  using my_write_termina[OF rede_dir_NoFuel cliente_pronto_ok(1)] .

text \<open>
  C12: A client with an open file whose two offsets agree writes \<open>n\<close> bytes with my_write, in as
  many messages as it takes, and reads the same bytes back with my_read; behind the server the
  content of the file is the old one with these bytes at the offset.
\<close>
theorem cliente_escreve_e_le:
  assumes "aberto c fh p d" "vale_fs fh K w" "size_fd d = of_nat (length (cont_fs fh w))"
    "write_offset d = read_offset d" "unat (read_offset d) \<le> length (cont_fs fh w)"
    "unat (read_offset d) + unat n \<le> 512 * min K 10" "unat n \<le> length buffer" "unat n \<le> length buf2" "unat n < fuel"
  shows "\<exists>c' w' c'' w''. my_write (ao_servidor z k) c w fh buffer n = Inr (int (unat n), c', w') \<and>
    my_read fuel (ao_servidor z k) c' w' fh buf2 n = Inr (int (unat n), take (unat n) buffer @ drop (unat n) buf2, c'', w'') \<and>
    vale_fs fh K w'' \<and> cont_fs fh w'' = emenda (cont_fs fh w) (unat (read_offset d)) (take (unat n) buffer)"
  using no_servidor.my_write_read[OF assms] .

theorem cliente_escreve_e_le_wit:
  "\<exists>c' w' c'' w''. my_write (ao_servidor 0 0) cliente_um (fich16, None) 2 (replicate 1500 7) 1500 = Inr (1500, c', w') \<and>
    my_read 1501 (ao_servidor 0 0) c' w' 2 (zeros 1500) 1500 = Inr (1500, replicate 1500 7, c'', w'')"
proof -
  have f: "inode_do_fh 2 = 2" by (simp add: inode_do_fh_def)
  have "length (conteudo_f fich16 2) = 600"
    using fich16_pronto blocos_length(5)[of fich16 2] fich16_blocos(1) by (simp add: pronto_def)
  then show ?thesis
    using cliente_escreve_e_le[OF cliente_um_aberto, of 3 "(fich16, None)" 1500 "replicate 1500 7" "zeros 1500" 1501 0 0] fich16_pronto
    by (auto simp: vale_fs_def cont_fs_def f)
qed

text \<open>
  C13: A path that myparse accepts, with a directory that has a name, is split into its
  directory and its last name, and the names are counted.
\<close>
theorem separa_correcta:
  assumes "myparse (d @ BARRA # f) = Inr 0" "0 \<notin> set (d @ BARRA # f)" "f \<noteq> []" "BARRA \<notin> set f" "tokens d \<noteq> []"
  shows "separa (d @ BARRA # f) = Inr (length (tokens d) + 1, f, d)"
  using separa_ok[OF assms] .

theorem separa_correcta_wit: "separa [47, 100, 47, 102] = Inr (2, [102], [47, 100])"
  using separa_correcta[of "[47, 100]" "[102]"] caminho_df(1) by (simp add: BARRA_def tokens_def)

text \<open>
  C14: my_append copies the names of a path over each other without their terminators: for a
  file in a directory with a longer name it asks for the file name followed by the rest of the
  directory name, in a directory with the first letters of the right one.
\<close>
theorem append_nome_errado:
  assumes "BARRA \<notin> set a" "BARRA \<notin> set f" "0 \<notin> set a" "0 \<notin> set f" "f \<noteq> []" "length f < length a" "length a < MAX_FILE_NAME_SIZE"
  shows "separa_append (BARRA # a @ BARRA # f) = Inr (2, f @ drop (length f) a, BARRA # take (length f) a)"
  using separa_append_dois[OF assms] .

theorem append_nome_errado_wit: "separa_append [47, 97, 98, 99, 47, 100] = Inr (2, [100, 98, 99], [47, 97])"
  using append_nome_errado[of "[97, 98, 99]" "[100]"] by (simp add: BARRA_def MAX_FILE_NAME_SIZE_def)

text \<open>
  C15: A file that my_open creates in a directory other than the root is opened with the size
  the server gave for the directory; if the directory is not empty, my_read of the empty file
  asks the server for ever.
\<close>
theorem criado_em_directorio_nao_se_le:
  assumes "uso N c" "Lib_initted c" "Open_files c < MAX_OPEN_FILES"
    "myparse name = Inr 0" "separa name = Inr (i, f, d)" "i > 1"
    "snfs_lookup_c N w name = Inr (STAT_ERROR, x, None, w1)" "snfs_lookup_c N w1 d = Inr (STAT_OK, dh, Some s, w2)" "s \<noteq> 0"
    "snfs_create_c N w2 dh f = Inr (STAT_OK, Some fh, w3)" "\<forall>a. \<not> tem_id (mem_c c) fh a"
    "\<And>w off cnt. unat cnt \<le> MAX_READ_DATA \<Longrightarrow>
      \<exists>w'. snfs_read_c N w fh off cnt = Inr (STAT_OK, Some (take (unat cnt) (zeros MAX_READ_DATA), 0), w')"
  shows "\<exists>c'. my_open N c w name O_CREATE = Inr (sint fh, c', w3) \<and>
    (\<forall>fuel w n buffer. n \<noteq> 0 \<longrightarrow> unat n \<le> length buffer \<longrightarrow> my_read fuel N c' w fh buffer n = Inl NoFuel)"
proof -
  obtain c' p where c: "my_open N c w name O_CREATE = Inr (sint fh, c', w3)"
    "aberto c' fh p \<lparr>fileId = fh, size_fd = s, read_offset = 0, write_offset = 0\<rparr>"
    using cria_em_directorio[OF uso_ok[OF assms(1)] assms(2-8,10,11)] by blast
  then show ?thesis using ler_criado_sem_fim[OF c(2) assms(9,12)] by blast
qed

theorem criado_em_directorio_nao_se_le_wit:
  "\<exists>c' w'. my_open rede_dir cliente_pronto None [47, 100, 47, 102] O_CREATE = Inr (5, c', w') \<and>
    (\<forall>fuel. my_read fuel rede_dir c' w' 5 (zeros 8) 8 = Inl NoFuel)"
proof -
  have l: "snfs_lookup_c rede_dir None [47, 100, 47, 102] = Inr (STAT_ERROR, 0, None, None)"
    "snfs_lookup_c rede_dir None [47, 100] = Inr (STAT_OK, 3, Some 16, None)"
    "snfs_create_c rede_dir None 3 [102] = Inr (STAT_OK, Some 5, None)"
    by (simp_all add: snfs_lookup_c_def snfs_create_c_def strcpy_msg_def rede_dir_chama resposta_dir_def responde_def falhou_def
        lookup_de_def fh_de_def MAX_PATH_NAME_SIZE_def MAX_FILE_NAME_SIZE_def)
  have r: "\<exists>w'. snfs_read_c rede_dir w 5 off cnt = Inr (STAT_OK, Some (take (unat cnt) (zeros MAX_READ_DATA), 0), w')"
    if "unat cnt \<le> MAX_READ_DATA" for w off cnt
    using that by (simp add: snfs_read_c_def rede_dir_chama resposta_dir_def responde_def falhou_def read_de_def)
  note c = criado_em_directorio_nao_se_le[OF cliente_pronto_ok(1,3,4) caminho_df _ l(1,2) _ l(3) _ r]
  show ?thesis using c cliente_pronto_ok(5) by (auto simp: zeros_def)
qed

section \<open>The scheduler\<close>










text \<open>
  C21: Only the owner of a mutex changes it: an unlock by another thread, and a wait or a signal on
  a monitor by a thread that is not inside, return without any effect.
\<close>
theorem sem_posse_sem_efeito:
  assumes "mutexes s m = Some mx" "thr mx \<noteq> active_thr s" "monitors s mon = Some mn" "mutex mn = m"
  shows "sthread_user_mutex_unlock s m = Inr s \<and> sthread_user_monitor_exit s mon = Inr s \<and>
    sthread_user_monitor_wait s mon = Inr s \<and> sthread_user_monitor_signal s mon = Inr s \<and>
    sthread_user_monitor_signalall s mon = Inr s"
  using so_o_dono[OF assms(1,2)] assms(3,4) by (simp add: sthread_user_monitor_exit_def monitor_em_def)

theorem sem_posse_sem_efeito_wit:
  "chega (\<lambda>s. case sthread_user_monitor_wait s 2 of Inl _ \<Rightarrow> False | Inr s' \<Rightarrow> active_thr s' = 1) [Some NovoMonitor]"
proof -
  have "chega (\<lambda>s. active_thr s = 1 \<and> mutexes s 3 = Some \<lparr>id_monitor = 0, id_m = 0, l = False, thr = 0, queue_m = []\<rparr> \<and>
      monitors s 2 = Some \<lparr>id_mon = 0, mutex = 3, queue_mon = []\<rparr>) [Some NovoMonitor]" by code_simp
  then obtain s where s: "programa [Some NovoMonitor] (sthread_user_init 0) = Inr s" "active_thr s = 1"
      "mutexes s 3 = Some \<lparr>id_monitor = 0, id_m = 0, l = False, thr = 0, queue_m = []\<rparr>"
      "monitors s 2 = Some \<lparr>id_mon = 0, mutex = 3, queue_mon = []\<rparr>"
    by (auto simp: chega_def split: sum.splits)
  show ?thesis using sem_posse_sem_efeito[OF s(3) _ s(4)] s by (auto simp: chega_def)
qed

text \<open>
  C22: A thread cannot run for ever without being charged: at the end of the tick that completes
  its slice its virtual runtime grows by at least the length of the slice, and the slice starts again.
\<close>
theorem fatia_cobrada:
  assumes "sched_ok s" "threads s (active_thr s) = Some t" "min_delay \<le> times_runned t" "fim_tick s = Inr s'"
  shows "\<exists>t'. threads s' (active_thr s') = Some t' \<and> times_runned t' = 0 \<and> vruntime t + min_delay \<le> vruntime t'"
  using fim_tick_cobra[OF assms] .

theorem fatia_cobrada_wit:
  "\<exists>s' t'. fim_tick cinco_ticks = Inr s' \<and> threads s' (active_thr s') = Some t' \<and> 5 \<le> vruntime t'"
proof -
  have "sched_ok cinco_ticks"
    by (auto simp: cinco_ticks_def sched_ok_def estrutura_def threads_ok_def thread_ok_def mutexes_ok_def monitores_ok_def
        sthread_user_init_def NULL_def split: if_splits)
  moreover obtain t where t: "threads cinco_ticks (active_thr cinco_ticks) = Some t" "times_runned t = 5" "vruntime t = 0"
    by (simp add: cinco_ticks_def sthread_user_init_def)
  moreover obtain s' where "fim_tick cinco_ticks = Inr s'"
    by (simp add: fim_tick_def cinco_ticks_def sthread_user_init_def Let_def thread_em_def muda_thread_def min_delay_def)
  ultimately obtain t' where "threads s' (active_thr s') = Some t'" "vruntime t + 5 \<le> vruntime t'"
    using fatia_cobrada[of cinco_ticks t s'] by (auto simp: min_delay_def)
  with t \<open>fim_tick cinco_ticks = Inr s'\<close> show ?thesis by (intro exI[of _ s'] exI[of _ t']) simp
qed






section \<open>The threads of the server\<close>

text \<open>
  C26: In every interleaving of the producer and the five consumers the ring hands requests over in
  the order they came: it has at most ten, those put and not yet taken, every request taken was
  served or is in the hands of one consumer, so none is lost or served twice; the counter of
  requests agrees with the ring whenever the monitor is free; and no step goes wrong, but the one
  that receives an error from the socket.
\<close>
theorem pedidos_em_ordem:
  assumes "servidor_alcanca s"
  shows "\<exists>q. postos s = tirados s @ q \<and> length q \<le> RING_SIZE \<and>
    mset (tirados s) = mset (servidos s) + maos (ponto_r s) \<and> size (maos (ponto_r s)) \<le> NUM_TC \<and>
    (dono (mon_r s) = None \<longrightarrow> anel_ok (anel_r s) q) \<and>
    (\<forall>a. faz_r a s = Inl Blocked \<or> (\<exists>s'. faz_r a s = Inr s') \<or> (\<exists>n r. a = Recebe (Chegou n r) \<and> n < 0))"
proof -
  obtain q where ok: "servidor_ok q s" using servidor_alcanca_ok[OF assms] by blast
  have "faz_r a s = Inl Blocked \<or> (\<exists>s'. faz_r a s = Inr s') \<or> (\<exists>n r. a = Recebe (Chegou n r) \<and> n < 0)" for a
    using anda_r_ok[OF ok] my_recvfrom_ok[OF ok] by (cases a) (fastforce simp: faz_r_def)+
  moreover have "mset (tirados s) = mset (servidos s) + maos (ponto_r s)" using ok by (simp add: servidor_ok_def)
  ultimately show ?thesis using servidor_pedidos(1,2,4)[OF ok] anel_livre[OF ok] by (intro exI[of _ q]) simp
qed

theorem pedidos_em_ordem_wit:
  "case faz_todas_r (um_pedido 7) servidor_inicial of Inl _ \<Rightarrow> False
   | Inr s \<Rightarrow> postos s = [7 :: nat] \<and> servidos s = [7] \<and> maos (ponto_r s) = {#} \<and> anel_ok (anel_r s) []"
proof -
  obtain s where s: "faz_todas_r (um_pedido 7) servidor_inicial = Inr s" "postos s = [7 :: nat]" "servidos s = [7]" "tirados s = [7]"
    "dono (mon_r s) = None"
    using um_pedido_servido by (auto split: sum.splits)
  then show ?thesis using pedidos_em_ordem[OF faz_todas_r_alcanca[OF s(1) inicio_r]] by auto
qed

text \<open>
  C27: The server never stops with work to do.  From any reachable state, if no message arrives, its
  threads take at most 215 steps in any order, and can reach a state where none can move; in such
  a state the producer waits for a message, the monitor is free, and every request received has
  been served: no wake-up is lost, although consumers signal one thread only.  Serving a request is
  taken to end.
\<close>
theorem servidor_repousa:
  assumes "servidor_alcanca s"
  shows "(\<forall>xs s'. faz_todas_r (map Passa xs) s = Inr s' \<longrightarrow> length xs \<le> 215) \<and>
    (\<exists>xs s'. faz_todas_r (map Passa xs) s = Inr s' \<and> em_repouso s') \<and>
    (em_repouso s \<longrightarrow> ponto_r s 0 = PRecebe \<and> dono (mon_r s) = None \<and> mset (servidos s) = mset (postos s))"
proof -
  obtain q where ok: "servidor_ok q s" using servidor_alcanca_ok[OF assms] by blast
  show ?thesis
    using corrida_215[OF ok] ha_repouso[OF ok] repouso[OF ok] by blast
qed

theorem servidor_repousa_wit:
  "\<exists>xs s'. faz_todas_r (map Passa xs) (servidor_inicial :: nat servidor) = Inr s' \<and> em_repouso s'"
  using servidor_repousa[OF inicio_r] by blast

section \<open>Readers and writers\<close>



text \<open>
  C29: The two monitors do not exclude readers from writers: there is a schedule in which a
  reader reads while a writer writes, because each tests the other's counter before either has
  increased its own.
\<close>
theorem leitor_e_escritor_juntos:
  "\<exists>s. sinc_alcanca s \<and> ponto_de s 1 = Ler \<and> ponto_de s 2 = Escrever"
proof -
  obtain s where "faz_todas corrida sinc_inicial = Some s" "ponto_de s 1 = Ler \<and> ponto_de s 2 = Escrever"
    using corrida_junta by (auto split: option.splits)
  then show ?thesis using faz_todas_alcanca sinc_alcanca.inicio by blast
qed

text \<open>
  C30: A reader that waits for a writer can wait for ever: terminaEscrita signals the readers'
  monitor without having entered it, which has no effect, and once the monitor is empty no
  activity of writers and of the threads already inside wakes the reader; only a new reader can.
\<close>
theorem leitor_esquecido:
  assumes "sinc_alcanca s" "preso i s" "sem_leitores_novos as" "faz_todas as s = Some s'"
  shows "ponto_de s' i = LBloq \<and> dono (monLeitores s') = None"
  using preso_sempre[OF sinc_alcanca_ok[OF assms(1)] assms(2-4)] by (simp add: preso_def)

theorem leitor_esquecido_wit:
  "case faz_todas esquecido sinc_inicial of None \<Rightarrow> False
   | Some s \<Rightarrow> (case faz_todas [Quer_escrever 3, Anda 3, Anda 3, Anda 3, Anda 3, Anda 3, Anda 3, Anda 3, Anda 3, Anda 3] s of
       None \<Rightarrow> False | Some s' \<Rightarrow> ponto_de s' 1 = LBloq)"
proof -
  obtain s where s: "faz_todas esquecido sinc_inicial = Some s" "preso 1 s"
    using esquecido_preso by (auto split: option.splits)
  have "case faz_todas (esquecido @ [Quer_escrever 3, Anda 3, Anda 3, Anda 3, Anda 3, Anda 3, Anda 3, Anda 3, Anda 3, Anda 3]) sinc_inicial of
     None \<Rightarrow> False | Some s' \<Rightarrow> True" by code_simp
  then obtain s' where s': "faz_todas [Quer_escrever 3, Anda 3, Anda 3, Anda 3, Anda 3, Anda 3, Anda 3, Anda 3, Anda 3, Anda 3] s = Some s'"
    using s(1) by (auto simp: faz_todas_append split: option.splits)
  have "sinc_alcanca s" using faz_todas_alcanca[OF s(1) sinc_alcanca.inicio] .
  from leitor_esquecido[OF this s(2) _ s'] show ?thesis using s s' by (simp add: sem_leitores_novos_def)
qed

text \<open>
  C31: The monitors of the scheduler are those of the protocol: seen as an owner, a queue of
  threads that want to enter and a queue of threads that wait, every monitor call of a consistent
  scheduler state that returns is the corresponding operation.
\<close>
theorem monitores_refinam:
  assumes "sched_ok s" "mon_de s mon = Some m" "executa c s = Inr s'"
    and "(c, f) \<in> {(Entrar mon, entra), (Deixar mon, sai), (Esperar mon, aguarda), (Assinalar mon, assinala),
      (AssinalarTodos mon, assinala_todos)}"
  shows "mon_de s' mon = Some (f (active_thr s) m)"
  using assms enter_monitor[OF assms(1,2)] exit_monitor[OF assms(1,2)] wait_monitor[OF assms(1,2)]
    signal_monitor[OF assms(1,2)] signalall_monitor[OF assms(1,2)]
  by (auto simp: executa_def)

theorem monitores_refinam_wit:
  "chega (\<lambda>s. case executa (Entrar 2) s of Inl _ \<Rightarrow> False
     | Inr s' \<Rightarrow> mon_de s' 2 = Some \<lparr>dono = Some 1, fila_m = [], espera = []\<rparr>) [Some NovoMonitor]"
proof -
  have "chega (\<lambda>s. active_thr s = 1 \<and> mon_de s 2 = Some \<lparr>dono = None, fila_m = [], espera = []\<rparr> \<and>
      (case executa (Entrar 2) s of Inl _ \<Rightarrow> False | Inr _ \<Rightarrow> True)) [Some NovoMonitor]" by code_simp
  then obtain s s' where s: "programa [Some NovoMonitor] (sthread_user_init 0) = Inr s" "active_thr s = 1"
      "mon_de s 2 = Some \<lparr>dono = None, fila_m = [], espera = []\<rparr>" "executa (Entrar 2) s = Inr s'"
    by (auto simp: chega_def split: sum.splits)
  have "sched_ok s" using alcanca_ok[OF programa_alcanca[OF s(1) alcanca.aqui] sthread_user_init_ok] .
  from monitores_refinam[OF this s(3,4), of entra] show ?thesis using s by (simp add: chega_def entra_def)
qed


section \<open>The queues of threads\<close>

text \<open>
  C32: A queue of threads is first in, first out: threads inserted into a new queue come out in
  the order of insertion, without any access to a freed cell, and leave the queue empty.
\<close>
theorem fila_de_threads:
  assumes "create_queue mem_inicial = q"
  shows "\<exists>s'. corre guarda retira (map Mete ys @ replicate (length ys) Tira) q = Inr (ys, s') \<and> tem_fila s' []"
  using threads.ordem_de_chegada[of q "length ys" ys] create_queue_fila[OF mem_inicial_ok, of "fst q" "snd q"] assms
  by (auto simp: tem_fila_def)

theorem fila_de_threads_wit:
  "\<exists>s'. corre guarda retira [Mete 7, Mete 8, Tira, Tira] (create_queue mem_inicial) = Inr ([7, 8], s')"
  using fila_de_threads[OF refl, of "[7, 8]"] by (auto simp: numeral_2_eq_2)

section \<open>The disk\<close>



section \<open>The hash table\<close>

text \<open>
  C34: hashInsert updates the finite map the table stands for, reports with 1 that the key was
  there, and keeps the table well formed; hashGet then reads the map.
\<close>
theorem hashInsert_correcta:
  assumes "hash_ok h" "0 \<le> k" "0 \<le> q"
  shows "\<exists>h'. hashInsert h k v = Inr (if mapa h k = None then 0 else 1, h') \<and> hash_ok h' \<and>
    hashGet h' q = Inr (if q = k then (0, v) else case mapa h q of None \<Rightarrow> (1, NULL) | Some w \<Rightarrow> (0, w))"
proof -
  obtain s h' where i: "hashInsert h k v = Inr (s, h')" "mapa h' = (mapa h)(k \<mapsto> v)" "s = (if mapa h k = None then 0 else 1)"
    using hashInsert_mapa[OF assms(1,2), of v] by blast
  have "hash_ok h'" by (rule hashInsert_ok[OF assms(1,2) i(1)])
  then show ?thesis using i hashGet_mapa[OF _ assms(3), of h'] by auto
qed

theorem hashInsert_correcta_wit:
  "\<exists>h. hashInsert (newHash 4) 9 100 = Inr (0, h) \<and> hashGet h 9 = Inr (0, 100)"
  using hashInsert_correcta[OF newHash_ok(1), of 4 9 9 100] by (auto simp: newHash_ok(2))

section \<open>The block cache\<close>





text \<open>
  C37: libertarEspaco never makes room: it decides by the uninitialised number of removed
  entries and, when it does look for a victim, reads a hash node after freeing it; with a non-zero
  garbage value it returns with every entry still in the cache or stops at that access.
\<close>
theorem libertarEspaco_nao_liberta:
  assumes "cache_ok c" "semente c" "nos_ok (tabela c)"
  shows "(\<exists>c'. libertarEspaco c = Inr c' \<and> c' = c\<lparr>n_lixo := n_lixo c + 1\<rparr>) \<or>
    (\<exists>n \<in> set (nos c). libertarEspaco c = Inl (BadAddr (node n)))"
  using libertarEspaco_inutil[OF assms] .

theorem libertarEspaco_nao_liberta_wit: "libertarEspaco cache8 = Inr (cache8\<lparr>n_lixo := 1\<rparr>)"
  using libertarEspaco_nao_liberta[OF cache8_ok(1,2,3)] by (auto simp: cache8_def criarCache_def nos_def newHash_def)

section \<open>The list of references\<close>

text \<open>
  C38: With the key of the first node the new node is counted but not linked, so the size no
  longer is the number of nodes.
\<close>
theorem inserirOrdenado_perde_no:
  assumes "lista_ok ls" "nos_l ls \<noteq> []" "ordem (hd (nos_l ls)) = ucast k" "ordenada ls"
  shows "\<exists>l'. inserirOrdenado ls x k = Inr (-1, l') \<and> nos_l l' = nos_l ls \<and> \<not> lista_ok l'"
  using inserirOrdenado_perde[OF assms] assms(1) by (simp add: lista_ok_def)

theorem inserirOrdenado_perde_no_wit:
  "\<exists>l'. inserirOrdenado \<lparr>size_l = 1, nos_l = [\<lparr>inf = 5 :: nat, ordem = 9\<rparr>]\<rparr> 6 9 = Inr (-1, l') \<and> \<not> lista_ok l'"
  using inserirOrdenado_perde_no[of "\<lparr>size_l = 1, nos_l = [\<lparr>inf = 5 :: nat, ordem = 9\<rparr>]\<rparr>" 9 6]
  by (auto simp: lista_ok_def ordenada_def)

section \<open>The file system on disk\<close>

text \<open>
  C39: Storing the metadata and loading it back restores both bitmaps and the inode table,
  whatever memory held before the load.
\<close>
theorem metadados_ida_volta:
  assumes "fs_meta fs" "length z = ITAB_SIZE"
  shows "fsi_load_fsdata ((fsi_store_fsdata fs)\<lparr>blk_bmap := x, inode_bmap := y, inode_tab := z\<rparr>) = fsi_store_fsdata fs"
  using load_store[OF assms] .

theorem metadados_ida_volta_wit:
  "fsi_load_fsdata ((fsi_store_fsdata fs16)\<lparr>blk_bmap := [], inode_bmap := [], inode_tab := inode_tab fs16\<rparr>) =
     fsi_store_fsdata fs16"
  using metadados_ida_volta[OF fs16_ok(1), of "inode_tab fs16" "[]" "[]"] fs16_ok(2) by simp



end
